(* ===== verification/Hdlc_Prelude.thy ===== *)
theory Hdlc_Prelude
  imports Main "HOL-Library.Word" "HOL-Library.Monad_Syntax" "HOL-Library.Signed_Division"
begin

text \<open>
  Shared vocabulary of the development: the machine integers of the C code, the
  memory accesses it makes, and generic lemmas.

  \<^item> \<open>u8\<close>, \<open>u16\<close> and \<open>u32\<close> are the types \<open>atc_hdlc_u8\<close>, \<open>atc_hdlc_u16\<close> and
    \<open>atc_hdlc_u32\<close> at their exact widths (a platform where \<open>uint_least8_t\<close> has 8 bits).
  \<^item> Arithmetic on \<open>u8\<close> and \<open>u16\<close> operands happens in C's \<open>int\<close> after promotion and is
    converted back by a cast; \<open>c_mod\<close> is C's truncating remainder on those values.
  \<^item> A computation that can have undefined behaviour returns an \<^typ>\<open>'a option\<close>:
    \<^const>\<open>None\<close> is undefined behaviour (a null dereference, an access outside an
    object, a remainder by zero) and \<^const>\<open>Some\<close> a defined result. Such computations are
    composed with the do-notation of the option monad.
  \<^item> A pointer to octets is an \<open>octets\<close> value: \<^const>\<open>None\<close> is \<open>NULL\<close>, and \<open>Some xs\<close> a
    pointer to the object whose octets from there on are \<open>xs\<close>.
\<close>

unbundle bit_operations_syntax

type_synonym u8 = "8 word"
type_synonym u16 = "16 word"
type_synonym u32 = "32 word"
type_synonym octets = "u8 list option"

named_theorems hdlc_run \<open>what an operation computes in a context that is ready\<close>
named_theorems hdlc_wp \<open>conditions under which an operation runs to a given postcondition\<close>

section \<open>Running to a postcondition\<close>

text \<open>
  \<open>runs m Q\<close>: the computation \<open>m\<close> has no undefined behaviour and its result satisfies
  \<open>Q\<close>. It distributes over the monad's bind, so a statement about a sequence of
  operations becomes nested statements about each of them.
\<close>

definition runs :: "'a option \<Rightarrow> ('a \<Rightarrow> bool) \<Rightarrow> bool" where
  "runs m Q \<longleftrightarrow> (case m of None \<Rightarrow> False | Some x \<Rightarrow> Q x)"

lemma runs_Some [simp]: "runs (Some x) Q \<longleftrightarrow> Q x"
  by (simp add: runs_def)

lemma runs_None [simp]: "\<not> runs None Q"
  by (simp add: runs_def)

lemma runs_bind [simp]: "runs (m \<bind> f) Q \<longleftrightarrow> runs m (\<lambda>x. runs (f x) Q)"
  by (cases m) simp_all

lemma runs_mono: "runs m P \<Longrightarrow> (\<And>x. P x \<Longrightarrow> Q x) \<Longrightarrow> runs m Q"
  by (cases m) simp_all

lemma runs_conj: "runs m P \<Longrightarrow> runs m Q \<Longrightarrow> runs m (\<lambda>x. P x \<and> Q x)"
  by (cases m) simp_all

lemma runs_iff: "runs m Q \<longleftrightarrow> (\<exists>x. m = Some x \<and> Q x)"
  by (cases m) simp_all

lemma runs_if [simp]: "runs (if b then m else m') Q \<longleftrightarrow> (if b then runs m Q else runs m' Q)"
  by simp

section \<open>C integer arithmetic\<close>

text \<open>The remainder of two promoted operands, cast back to \<open>u8\<close>; by zero it is undefined.\<close>

definition c_mod :: "int \<Rightarrow> int \<Rightarrow> u8 option" where
  "c_mod a b = (if b = 0 then None else Some (word_of_int (a smod b)))"

text \<open>Successor modulo 8, \<open>(atc_hdlc_u8)((x + 1) % MOD8)\<close>.\<close>

definition mod8_succ :: "u8 \<Rightarrow> u8" where
  "mod8_succ x = word_of_int ((uint x + 1) smod 8)"

text \<open>\<open>(atc_hdlc_u8)((a - b + MOD8) % MOD8)\<close>.\<close>

definition mod8_dist :: "u8 \<Rightarrow> u8 \<Rightarrow> u8" where
  "mod8_dist a b = word_of_int ((uint a - uint b + 8) smod 8)"

text \<open>\<open>(atc_hdlc_u8)((a - b) & (MOD8 - 1))\<close>.\<close>

definition mask8_dist :: "u8 \<Rightarrow> u8 \<Rightarrow> u8" where
  "mask8_dist a b = word_of_int ((uint a - uint b) AND 7)"

section \<open>Memory accesses\<close>

definition get_at :: "'a list option \<Rightarrow> nat \<Rightarrow> 'a option" where
  "get_at p i = (case p of None \<Rightarrow> None | Some xs \<Rightarrow> if i < length xs then Some (xs ! i) else None)"

definition put_at :: "'a list option \<Rightarrow> nat \<Rightarrow> 'a \<Rightarrow> 'a list option option" where
  "put_at p i v = (case p of None \<Rightarrow> None
     | Some xs \<Rightarrow> if i < length xs then Some (Some (xs[i := v])) else None)"

text \<open>\<open>p + k\<close>: defined up to one past the end of the object.\<close>

definition ptr_add :: "'a list option \<Rightarrow> nat \<Rightarrow> 'a list option option" where
  "ptr_add p k = (case p of None \<Rightarrow> if k = 0 then Some None else None
     | Some xs \<Rightarrow> if k \<le> length xs then Some (Some (drop k xs)) else None)"

text \<open>\<open>memcpy(p + off, src, n)\<close>: both ranges must lie inside their objects.\<close>

definition mem_copy :: "'a list option \<Rightarrow> nat \<Rightarrow> 'a list option \<Rightarrow> nat \<Rightarrow> 'a list option option" where
  "mem_copy p off src n = (case (p, src) of
       (Some xs, Some ys) \<Rightarrow>
         if off + n \<le> length xs \<and> n \<le> length ys
         then Some (Some (take off xs @ take n ys @ drop (off + n) xs)) else None
     | _ \<Rightarrow> None)"

text \<open>\<open>memset(p, 0, n * sizeof(p[0]))\<close> on an array of words.\<close>

definition mem_zero :: "'a::zero list option \<Rightarrow> nat \<Rightarrow> 'a list option option" where
  "mem_zero p n = (case p of None \<Rightarrow> None
     | Some xs \<Rightarrow> if n \<le> length xs then Some (Some (replicate n 0 @ drop n xs)) else None)"

lemma get_at_Some [simp]:
  "get_at (Some xs) i = (if i < length xs then Some (xs ! i) else None)"
  by (simp add: get_at_def)

lemma get_at_None [simp]: "get_at None i = None"
  by (simp add: get_at_def)

lemma put_at_Some [simp]:
  "put_at (Some xs) i v = (if i < length xs then Some (Some (xs[i := v])) else None)"
  by (simp add: put_at_def)

lemma put_at_None [simp]: "put_at None i v = None"
  by (simp add: put_at_def)

lemma ptr_add_Some [simp]:
  "ptr_add (Some xs) k = (if k \<le> length xs then Some (Some (drop k xs)) else None)"
  by (simp add: ptr_add_def)

lemma mem_zero_Some [simp]:
  "mem_zero (Some xs) n = (if n \<le> length xs then Some (Some (replicate n 0 @ drop n xs)) else None)"
  by (simp add: mem_zero_def)

lemma mem_copy_Some [simp]:
  "mem_copy (Some xs) off (Some ys) n =
     (if off + n \<le> length xs \<and> n \<le> length ys
      then Some (Some (take off xs @ take n ys @ drop (off + n) xs)) else None)"
  by (simp add: mem_copy_def)

section \<open>Small words\<close>

lemma all_u8: "(\<forall>b::u8. P b) \<longleftrightarrow> (\<forall>n<256. P (word_of_nat n))"
proof (intro iffI allI impI)
  fix b :: u8
  assume "\<forall>n<256. P (word_of_nat n)"
  moreover have "unat b < 256"
    using unsigned_less [of b] by simp
  ultimately have "P (word_of_nat (unat b))"
    by blast
  then show "P b" by simp
qed simp

lemma all_less_code: "(\<forall>n<k. P n) \<longleftrightarrow> list_all P [0..<k]"
  by (auto simp: list_all_iff)

lemma int_smod_pos: "0 \<le> (a::int) \<Longrightarrow> 0 < b \<Longrightarrow> a smod b = a mod b"
  by (cases "a = 0") (simp_all add: signed_modulo_int_def sgn_if)

lemma unat_mod8_succ: "unat (mod8_succ x) = (unat x + 1) mod 8"
proof -
  have "(uint x + 1) smod 8 = (uint x + 1) mod 8"
    by (simp add: int_smod_pos)
  also have "\<dots> = int ((unat x + 1) mod 8)"
    by (simp add: zmod_int add.commute)
  finally show ?thesis
    by (simp add: mod8_succ_def unat_of_nat take_bit_nat_eq_self)
qed

lemma unat_mod8_dist:
  assumes "unat a < 8" "unat b < 8"
  shows "unat (mod8_dist a b) = (unat a + 8 - unat b) mod 8"
proof -
  have "uint a - uint b + 8 = int (unat a + 8 - unat b)"
    using assms by simp
  then have "(uint a - uint b + 8) smod 8 = int ((unat a + 8 - unat b) mod 8)"
    by (simp add: int_smod_pos zmod_int)
  then show ?thesis
    by (simp add: mod8_dist_def unat_of_nat take_bit_nat_eq_self)
qed

lemma unat_mask8_dist:
  assumes "unat a < 8" "unat b < 8"
  shows "unat (mask8_dist a b) = (unat a + 8 - unat b) mod 8"
proof -
  have "(uint a - uint b) AND 7 = (uint a - uint b) mod 8"
    using take_bit_eq_mask [of 3 "uint a - uint b"] by (simp add: mask_eq_exp_minus_1 take_bit_eq_mod)
  also have "\<dots> = (uint a - uint b + 8) mod 8"
    by simp
  also have "uint a - uint b + 8 = int (unat a + 8 - unat b)"
    using assms by simp
  also have "\<dots> mod 8 = int ((unat a + 8 - unat b) mod 8)"
    by (simp add: zmod_int)
  finally show ?thesis
    by (simp add: mask8_dist_def unat_of_nat take_bit_nat_eq_self)
qed

lemma unat_u8_less [simp]: "unat (x :: u8) < 256"
  using unsigned_less [of x, where 'a = nat] by simp

lemma unat_u16_less [simp]: "unat (x :: u16) < 65536"
  using unsigned_less [of x, where 'a = nat] by simp

lemma unat_u8_u32 [simp]: "unat (ucast (x :: u8) :: u32) = unat x"
proof -
  have "unat x < 2 ^ 32"
    using unat_u8_less [of x] by (rule less_trans) simp
  then have "take_bit 32 (unat x) = unat x"
    by (rule take_bit_nat_eq_self)
  then show ?thesis
    by (simp add: unsigned_ucast_eq)
qed

lemma unat_u16_u32 [simp]: "unat (ucast (x :: u16) :: u32) = unat x"
proof -
  have "unat x < 2 ^ 32"
    using unat_u16_less [of x] by (rule less_trans) simp
  then have "take_bit 32 (unat x) = unat x"
    by (rule take_bit_nat_eq_self)
  then show ?thesis
    by (simp add: unsigned_ucast_eq)
qed

text \<open>An index into a ring of \<open>w\<close> slots, computed by the remainder.\<close>

lemma c_mod_slot:
  assumes "0 < unat w" "0 \<le> a"
  shows "\<exists>r. c_mod a (uint w) = Some r \<and> r < w \<and> unat r = nat (a mod uint w)"
proof -
  define m where "m = uint w"
  have m: "0 < m" "m < 256"
    using assms(1) unat_u8_less [of w] unfolding m_def uint_nat by linarith+
  define r where "r = a mod m"
  have r: "0 \<le> r" "r < m"
    using m(1) by (simp_all add: r_def)
  have u: "uint (word_of_int r :: u8) = r"
    using r m(2) by (simp add: unsigned_of_int take_bit_int_eq_self)
  have "(word_of_int r :: u8) < w"
    using r(2) unfolding word_less_def u m_def by simp
  moreover have "unat (word_of_int r :: u8) = nat r"
    using u by (simp add: unat_eq_nat_uint)
  moreover have "c_mod a m = Some (word_of_int r)"
    using m(1) assms(2) by (simp add: c_mod_def int_smod_pos r_def)
  ultimately show ?thesis
    unfolding r_def m_def by blast
qed

lemma c_mod_one: "c_mod a 1 = Some 0"
  by (simp add: c_mod_def signed_modulo_int_def signed_divide_int_def)

lemma unat_succ:
  fixes x y :: "'a::len word"
  assumes "x < y"
  shows "unat (x + 1) = Suc (unat x)"
proof -
  have "unat x < unat y"
    using assms by (simp add: word_less_nat_alt)
  then have "Suc (unat x) < 2 ^ LENGTH('a)"
    using unsigned_less [of y, where 'a = nat] by linarith
  then show ?thesis
    by (simp add: unat_word_ariths)
qed

lemma c_mod_succ:
  assumes "i < k"
  shows "c_mod (uint i + 1) (uint k) = Some (if i + 1 = k then 0 else i + 1)"
proof -
  have i: "unat i < unat k"
    using assms by (simp add: word_less_nat_alt)
  then obtain r where r: "c_mod (uint i + 1) (uint k) = Some r" "unat r = nat ((uint i + 1) mod uint k)"
    using c_mod_slot [of k "uint i + 1"] by auto
  have s: "unat (i + 1) = Suc (unat i)"
    using assms by (rule unat_succ)
  have m: "nat ((uint i + 1) mod uint k) = Suc (unat i) mod unat k"
  proof -
    have "(uint i + 1) mod uint k = int (Suc (unat i)) mod int (unat k)"
      by (simp add: add.commute)
    also have "\<dots> = int (Suc (unat i) mod unat k)"
      by (simp only: zmod_int)
    finally show ?thesis by (simp only: nat_int)
  qed
  have "r = (if i + 1 = k then 0 else i + 1)"
  proof (cases "i + 1 = k")
    case True
    then have "unat k = Suc (unat i)" using s by auto
    then have "unat r = 0" using r(2) m by simp
    with True show ?thesis by (simp add: unat_eq_zero)
  next
    case False
    then have "Suc (unat i) < unat k"
      using i s by (metis Suc_lessI word_unat_eq_iff)
    then show ?thesis using r(2) m s False by (simp only: word_unat_eq_iff mod_less if_False)
  qed
  with r(1) show ?thesis by simp
qed

end
