(* ===== verification/Hdlc_Types.thy ===== *)
theory Hdlc_Types
  imports Hdlc_Prelude
begin

text \<open>
  The data of \<open>inc/atc_hdlc/hdlc_types.h\<close>: enumerations as datatypes with the source's
  names, structures as records, the flag macros of the context.

  Pointers are options (\<^const>\<open>None\<close> is \<open>NULL\<close>). A callback pointer of the platform
  structure is a Boolean (set or \<open>NULL\<close>); calling it appends a \<open>callback\<close> to the
  \<open>trace\<close> of the context, the one field that is not in the C structure. The return
  value of \<open>on_send\<close> is ignored by the code, and callbacks are taken not to call back
  into the library, so the trace is all they can observe.
\<close>

section \<open>Enumerations\<close>

datatype atc_hdlc_state_t =
    ATC_HDLC_STATE_DISCONNECTED
  | ATC_HDLC_STATE_CONNECTING
  | ATC_HDLC_STATE_CONNECTED
  | ATC_HDLC_STATE_FRMR_ERROR
  | ATC_HDLC_STATE_DISCONNECTING

datatype atc_hdlc_event_t =
    ATC_HDLC_EVENT_SETUP_REQ
  | ATC_HDLC_EVENT_CONN_ACCEPTED
  | ATC_HDLC_EVENT_CONN_REQ
  | ATC_HDLC_EVENT_RESET
  | ATC_HDLC_EVENT_DISC_REQ
  | ATC_HDLC_EVENT_DISC_DONE
  | ATC_HDLC_EVENT_PEER_DISC
  | ATC_HDLC_EVENT_PEER_REJECT
  | ATC_HDLC_EVENT_PROTOCOL_ERROR
  | ATC_HDLC_EVENT_LINK_FAILURE
  | ATC_HDLC_EVENT_PEER_BUSY
  | ATC_HDLC_EVENT_PEER_READY
  | ATC_HDLC_EVENT_WINDOW_OPEN

datatype atc_hdlc_error_t =
    ATC_HDLC_OK
  | ATC_HDLC_ERR_FCS
  | ATC_HDLC_ERR_SHORT_FRAME
  | ATC_HDLC_ERR_BUFFER_FULL
  | ATC_HDLC_ERR_NO_BUFFER
  | ATC_HDLC_ERR_SEQUENCE
  | ATC_HDLC_ERR_BAD_CMD
  | ATC_HDLC_ERR_FRMR
  | ATC_HDLC_ERR_BAD_STATE
  | ATC_HDLC_ERR_BAD_MODE
  | ATC_HDLC_ERR_MAX_RETRY
  | ATC_HDLC_ERR_BAD_PARAM
  | ATC_HDLC_ERR_BAD_BUF
  | ATC_HDLC_ERR_REMOTE_BUSY
  | ATC_HDLC_ERR_WINDOW_FULL
  | ATC_HDLC_ERR_FRAME_SIZE

text \<open>The one mode of the enumeration, and any other value a caller may store in the field.\<close>

datatype atc_hdlc_mode_t = ATC_HDLC_MODE_ABM | ATC_HDLC_MODE_OTHER int

text \<open>The receiver states of \<open>src/hdlc_frame.h\<close>.\<close>

datatype rx_state_t = RX_HUNT | RX_ADDR | RX_DATA | RX_ESC

definition ATC_HDLC_BROADCAST_ADDRESS :: u8 where
  "ATC_HDLC_BROADCAST_ADDRESS = 0xFF"

section \<open>Structures\<close>

record atc_hdlc_config_t =
  mode :: atc_hdlc_mode_t
  cfg_address :: u8
  max_info_size :: u32
  max_retries :: u8
  t1_ms :: u32
  t2_ms :: u32

record atc_hdlc_plat_ops_t =
  has_on_send :: bool
  has_on_data :: bool
  has_on_event :: bool
  has_t1_start :: bool
  has_t1_stop :: bool
  has_t2_start :: bool
  has_t2_stop :: bool

record atc_hdlc_txwin_t =
  slots :: octets
  slot_lens :: "u32 list option"
  slot_capacity :: u32
  slot_count :: u8

record atc_hdlc_rxbuf_t =
  buffer :: octets
  capacity :: u32

text \<open>A CRC driver: \<open>compute crc buf len\<close>; undefined when it would read outside \<open>buf\<close>.\<close>

record atc_hdlc_crc_ops_t =
  compute :: "u16 \<Rightarrow> octets \<Rightarrow> u32 \<Rightarrow> u16 option"

record atc_hdlc_params_t =
  p_config :: "atc_hdlc_config_t option"
  p_platform :: "atc_hdlc_plat_ops_t option"
  p_tx_window :: "atc_hdlc_txwin_t option"
  p_rx_buf :: "atc_hdlc_rxbuf_t option"
  p_crc :: "atc_hdlc_crc_ops_t option"

datatype callback =
    On_send u8 bool
  | On_data octets u16
  | On_event atc_hdlc_event_t
  | T1_start u32
  | T1_stop
  | T2_start u32
  | T2_stop

record atc_hdlc_ctx_t =
  config :: "atc_hdlc_config_t option"
  platform :: "atc_hdlc_plat_ops_t option"
  crc :: "atc_hdlc_crc_ops_t option"
  tx_window :: "atc_hdlc_txwin_t option"
  rx_buf :: "atc_hdlc_rxbuf_t option"
  current_state :: atc_hdlc_state_t
  rx_index :: u32
  rx_crc :: u16
  tx_crc :: u16
  rx_state :: rx_state_t
  retransmit_from :: u8
  tx_next_slot :: u8
  my_address :: u8
  peer_address :: u8
  vs :: u8
  vr :: u8
  va :: u8
  n2 :: u8
  frmr_ctrl :: u8
  frmr_flags :: u8
  flags :: u8
  trace :: "callback list"

text \<open>A call through a callback pointer: nothing when the pointer is \<open>NULL\<close>.\<close>

definition callback_if :: "bool \<Rightarrow> callback \<Rightarrow> atc_hdlc_ctx_t \<Rightarrow> atc_hdlc_ctx_t" where
  "callback_if p a c = (if p then c\<lparr>trace := trace c @ [a]\<rparr> else c)"

section \<open>Flags\<close>

definition HDLC_F_T1_ACTIVE :: u8 where "HDLC_F_T1_ACTIVE = 0x01"
definition HDLC_F_T2_ACTIVE :: u8 where "HDLC_F_T2_ACTIVE = 0x02"
definition HDLC_F_REJ_EXCEPTION :: u8 where "HDLC_F_REJ_EXCEPTION = 0x04"
definition HDLC_F_REMOTE_BUSY :: u8 where "HDLC_F_REMOTE_BUSY = 0x08"
definition HDLC_F_LOCAL_BUSY :: u8 where "HDLC_F_LOCAL_BUSY = 0x10"
definition HDLC_F_RETRANSMIT_PENDING :: u8 where "HDLC_F_RETRANSMIT_PENDING = 0x20"

lemmas hdlc_flag_defs =
  HDLC_F_T1_ACTIVE_def HDLC_F_T2_ACTIVE_def HDLC_F_REJ_EXCEPTION_def
  HDLC_F_REMOTE_BUSY_def HDLC_F_LOCAL_BUSY_def HDLC_F_RETRANSMIT_PENDING_def

text \<open>The macro's value is the masked octet; it is used as a truth value.\<close>

definition CTX_FLAG :: "atc_hdlc_ctx_t \<Rightarrow> u8 \<Rightarrow> bool" where
  "CTX_FLAG c f \<longleftrightarrow> flags c AND f \<noteq> 0"

definition CTX_SET :: "atc_hdlc_ctx_t \<Rightarrow> u8 \<Rightarrow> atc_hdlc_ctx_t" where
  "CTX_SET c f = c\<lparr>flags := flags c OR f\<rparr>"

definition CTX_CLR :: "atc_hdlc_ctx_t \<Rightarrow> u8 \<Rightarrow> atc_hdlc_ctx_t" where
  "CTX_CLR c f = c\<lparr>flags := flags c AND NOT f\<rparr>"

lemma flag_set_and:
  fixes x f g :: u8
  assumes "g AND f = 0"
  shows "(x OR g) AND f = x AND f"
  using assms by (simp add: bit.conj_disj_distrib2)

lemma flag_clr_and:
  fixes x f g :: u8
  assumes "g AND f = 0"
  shows "(x AND NOT g) AND f = x AND f"
proof (rule bit_word_eqI)
  fix n assume "n < LENGTH(8)"
  have "bit (g AND f) n = bit (0::u8) n"
    using assms by simp
  then show "bit ((x AND NOT g) AND f) n = bit (x AND f) n"
    using \<open>n < LENGTH(8)\<close> by (auto simp: bit_and_iff bit_not_iff)
qed

text \<open>The six masks are disjoint single bits.\<close>

lemma hdlc_flags_disjoint [simp]:
  "HDLC_F_T1_ACTIVE AND HDLC_F_T2_ACTIVE = 0" "HDLC_F_T2_ACTIVE AND HDLC_F_T1_ACTIVE = 0"
  "HDLC_F_T1_ACTIVE AND HDLC_F_REJ_EXCEPTION = 0" "HDLC_F_REJ_EXCEPTION AND HDLC_F_T1_ACTIVE = 0"
  "HDLC_F_T1_ACTIVE AND HDLC_F_REMOTE_BUSY = 0" "HDLC_F_REMOTE_BUSY AND HDLC_F_T1_ACTIVE = 0"
  "HDLC_F_T1_ACTIVE AND HDLC_F_LOCAL_BUSY = 0" "HDLC_F_LOCAL_BUSY AND HDLC_F_T1_ACTIVE = 0"
  "HDLC_F_T1_ACTIVE AND HDLC_F_RETRANSMIT_PENDING = 0"
  "HDLC_F_RETRANSMIT_PENDING AND HDLC_F_T1_ACTIVE = 0"
  "HDLC_F_T2_ACTIVE AND HDLC_F_REJ_EXCEPTION = 0" "HDLC_F_REJ_EXCEPTION AND HDLC_F_T2_ACTIVE = 0"
  "HDLC_F_T2_ACTIVE AND HDLC_F_REMOTE_BUSY = 0" "HDLC_F_REMOTE_BUSY AND HDLC_F_T2_ACTIVE = 0"
  "HDLC_F_T2_ACTIVE AND HDLC_F_LOCAL_BUSY = 0" "HDLC_F_LOCAL_BUSY AND HDLC_F_T2_ACTIVE = 0"
  "HDLC_F_T2_ACTIVE AND HDLC_F_RETRANSMIT_PENDING = 0"
  "HDLC_F_RETRANSMIT_PENDING AND HDLC_F_T2_ACTIVE = 0"
  "HDLC_F_REJ_EXCEPTION AND HDLC_F_REMOTE_BUSY = 0" "HDLC_F_REMOTE_BUSY AND HDLC_F_REJ_EXCEPTION = 0"
  "HDLC_F_REJ_EXCEPTION AND HDLC_F_LOCAL_BUSY = 0" "HDLC_F_LOCAL_BUSY AND HDLC_F_REJ_EXCEPTION = 0"
  "HDLC_F_REJ_EXCEPTION AND HDLC_F_RETRANSMIT_PENDING = 0"
  "HDLC_F_RETRANSMIT_PENDING AND HDLC_F_REJ_EXCEPTION = 0"
  "HDLC_F_REMOTE_BUSY AND HDLC_F_LOCAL_BUSY = 0" "HDLC_F_LOCAL_BUSY AND HDLC_F_REMOTE_BUSY = 0"
  "HDLC_F_REMOTE_BUSY AND HDLC_F_RETRANSMIT_PENDING = 0"
  "HDLC_F_RETRANSMIT_PENDING AND HDLC_F_REMOTE_BUSY = 0"
  "HDLC_F_LOCAL_BUSY AND HDLC_F_RETRANSMIT_PENDING = 0"
  "HDLC_F_RETRANSMIT_PENDING AND HDLC_F_LOCAL_BUSY = 0"
  by (simp_all add: hdlc_flag_defs)

lemma hdlc_flags_nonzero [simp]:
  "HDLC_F_T1_ACTIVE \<noteq> 0" "HDLC_F_T2_ACTIVE \<noteq> 0" "HDLC_F_REJ_EXCEPTION \<noteq> 0"
  "HDLC_F_REMOTE_BUSY \<noteq> 0" "HDLC_F_LOCAL_BUSY \<noteq> 0" "HDLC_F_RETRANSMIT_PENDING \<noteq> 0"
  by (simp_all add: hdlc_flag_defs)

lemma CTX_FLAG_SET_same [simp]: "CTX_FLAG (CTX_SET c f) f \<longleftrightarrow> f \<noteq> 0"
  by (simp add: CTX_FLAG_def CTX_SET_def)

lemma CTX_FLAG_SET [simp]: "g AND f = 0 \<Longrightarrow> CTX_FLAG (CTX_SET c g) f = CTX_FLAG c f"
  by (simp add: CTX_FLAG_def CTX_SET_def flag_set_and)

lemma CTX_FLAG_CLR_same [simp]: "\<not> CTX_FLAG (CTX_CLR c f) f"
  by (simp add: CTX_FLAG_def CTX_CLR_def and.assoc)

lemma CTX_FLAG_CLR [simp]: "g AND f = 0 \<Longrightarrow> CTX_FLAG (CTX_CLR c g) f = CTX_FLAG c f"
  by (simp add: CTX_FLAG_def CTX_CLR_def flag_clr_and)

section \<open>Record fields\<close>

text \<open>The flag operations change no other field, and no other field changes the flags.\<close>

lemma CTX_SET_fields [simp]:
  "config (CTX_SET c f) = config c" "platform (CTX_SET c f) = platform c"
  "crc (CTX_SET c f) = crc c" "tx_window (CTX_SET c f) = tx_window c"
  "rx_buf (CTX_SET c f) = rx_buf c" "current_state (CTX_SET c f) = current_state c"
  "rx_index (CTX_SET c f) = rx_index c" "rx_crc (CTX_SET c f) = rx_crc c"
  "tx_crc (CTX_SET c f) = tx_crc c" "rx_state (CTX_SET c f) = rx_state c"
  "retransmit_from (CTX_SET c f) = retransmit_from c" "tx_next_slot (CTX_SET c f) = tx_next_slot c"
  "my_address (CTX_SET c f) = my_address c" "peer_address (CTX_SET c f) = peer_address c"
  "vs (CTX_SET c f) = vs c" "vr (CTX_SET c f) = vr c"
  "va (CTX_SET c f) = va c" "n2 (CTX_SET c f) = n2 c"
  "frmr_ctrl (CTX_SET c f) = frmr_ctrl c" "frmr_flags (CTX_SET c f) = frmr_flags c"
  "trace (CTX_SET c f) = trace c"
  by (simp_all add: CTX_SET_def)

lemma CTX_CLR_fields [simp]:
  "config (CTX_CLR c f) = config c" "platform (CTX_CLR c f) = platform c"
  "crc (CTX_CLR c f) = crc c" "tx_window (CTX_CLR c f) = tx_window c"
  "rx_buf (CTX_CLR c f) = rx_buf c" "current_state (CTX_CLR c f) = current_state c"
  "rx_index (CTX_CLR c f) = rx_index c" "rx_crc (CTX_CLR c f) = rx_crc c"
  "tx_crc (CTX_CLR c f) = tx_crc c" "rx_state (CTX_CLR c f) = rx_state c"
  "retransmit_from (CTX_CLR c f) = retransmit_from c" "tx_next_slot (CTX_CLR c f) = tx_next_slot c"
  "my_address (CTX_CLR c f) = my_address c" "peer_address (CTX_CLR c f) = peer_address c"
  "vs (CTX_CLR c f) = vs c" "vr (CTX_CLR c f) = vr c"
  "va (CTX_CLR c f) = va c" "n2 (CTX_CLR c f) = n2 c"
  "frmr_ctrl (CTX_CLR c f) = frmr_ctrl c" "frmr_flags (CTX_CLR c f) = frmr_flags c"
  "trace (CTX_CLR c f) = trace c"
  by (simp_all add: CTX_CLR_def)

lemma CTX_FLAG_fields [simp]:
  "CTX_FLAG (c\<lparr>config := x0\<rparr>) f = CTX_FLAG c f"
  "CTX_FLAG (c\<lparr>platform := x1\<rparr>) f = CTX_FLAG c f"
  "CTX_FLAG (c\<lparr>crc := x2\<rparr>) f = CTX_FLAG c f"
  "CTX_FLAG (c\<lparr>tx_window := x3\<rparr>) f = CTX_FLAG c f"
  "CTX_FLAG (c\<lparr>rx_buf := x4\<rparr>) f = CTX_FLAG c f"
  "CTX_FLAG (c\<lparr>current_state := x5\<rparr>) f = CTX_FLAG c f"
  "CTX_FLAG (c\<lparr>rx_index := x6\<rparr>) f = CTX_FLAG c f"
  "CTX_FLAG (c\<lparr>rx_crc := x7\<rparr>) f = CTX_FLAG c f"
  "CTX_FLAG (c\<lparr>tx_crc := x8\<rparr>) f = CTX_FLAG c f"
  "CTX_FLAG (c\<lparr>rx_state := x9\<rparr>) f = CTX_FLAG c f"
  "CTX_FLAG (c\<lparr>retransmit_from := x10\<rparr>) f = CTX_FLAG c f"
  "CTX_FLAG (c\<lparr>tx_next_slot := x11\<rparr>) f = CTX_FLAG c f"
  "CTX_FLAG (c\<lparr>my_address := x12\<rparr>) f = CTX_FLAG c f"
  "CTX_FLAG (c\<lparr>peer_address := x13\<rparr>) f = CTX_FLAG c f"
  "CTX_FLAG (c\<lparr>vs := x14\<rparr>) f = CTX_FLAG c f"
  "CTX_FLAG (c\<lparr>vr := x15\<rparr>) f = CTX_FLAG c f"
  "CTX_FLAG (c\<lparr>va := x16\<rparr>) f = CTX_FLAG c f"
  "CTX_FLAG (c\<lparr>n2 := x17\<rparr>) f = CTX_FLAG c f"
  "CTX_FLAG (c\<lparr>frmr_ctrl := x18\<rparr>) f = CTX_FLAG c f"
  "CTX_FLAG (c\<lparr>frmr_flags := x19\<rparr>) f = CTX_FLAG c f"
  "CTX_FLAG (c\<lparr>trace := x20\<rparr>) f = CTX_FLAG c f"
  by (simp_all add: CTX_FLAG_def)

section \<open>Calls made so far\<close>

text \<open>
  \<open>say c as\<close> is \<open>c\<close> after the callbacks \<open>as\<close>. The simplifier moves it outermost, so a
  result reads as the new field values followed by the calls that were made.
\<close>

definition say :: "atc_hdlc_ctx_t \<Rightarrow> callback list \<Rightarrow> atc_hdlc_ctx_t" where
  "say c xs = c\<lparr>trace := trace c @ xs\<rparr>"

lemma callback_if_say: "callback_if p a c = say c (if p then [a] else [])"
  by (simp add: callback_if_def say_def)

lemma say_Nil [simp]: "say c [] = c"
  by (simp add: say_def)

lemma say_say [simp]: "say (say c xs) ys = say c (xs @ ys)"
  by (simp add: say_def)

lemma trace_say [simp]: "trace (say c xs) = trace c @ xs"
  by (simp add: say_def)

lemma CTX_FLAG_say [simp]: "CTX_FLAG (say c xs) f = CTX_FLAG c f"
  by (simp add: say_def)

lemma say_CTX [simp]:
  "CTX_SET (say c xs) f = say (CTX_SET c f) xs" "CTX_CLR (say c xs) f = say (CTX_CLR c f) xs"
  by (simp_all add: say_def CTX_SET_def CTX_CLR_def)

lemma say_fields [simp]:
  "config (say c xs) = config c" "platform (say c xs) = platform c"
  "crc (say c xs) = crc c" "tx_window (say c xs) = tx_window c"
  "rx_buf (say c xs) = rx_buf c" "current_state (say c xs) = current_state c"
  "rx_index (say c xs) = rx_index c" "rx_crc (say c xs) = rx_crc c"
  "tx_crc (say c xs) = tx_crc c" "rx_state (say c xs) = rx_state c"
  "retransmit_from (say c xs) = retransmit_from c" "tx_next_slot (say c xs) = tx_next_slot c"
  "my_address (say c xs) = my_address c" "peer_address (say c xs) = peer_address c"
  "vs (say c xs) = vs c" "vr (say c xs) = vr c"
  "va (say c xs) = va c" "n2 (say c xs) = n2 c"
  "frmr_ctrl (say c xs) = frmr_ctrl c" "frmr_flags (say c xs) = frmr_flags c"
  "flags (say c xs) = flags c"
  by (simp_all add: say_def)

lemma say_update [simp]:
  "(say c xs)\<lparr>config := x0\<rparr> = say (c\<lparr>config := x0\<rparr>) xs"
  "(say c xs)\<lparr>platform := x1\<rparr> = say (c\<lparr>platform := x1\<rparr>) xs"
  "(say c xs)\<lparr>crc := x2\<rparr> = say (c\<lparr>crc := x2\<rparr>) xs"
  "(say c xs)\<lparr>tx_window := x3\<rparr> = say (c\<lparr>tx_window := x3\<rparr>) xs"
  "(say c xs)\<lparr>rx_buf := x4\<rparr> = say (c\<lparr>rx_buf := x4\<rparr>) xs"
  "(say c xs)\<lparr>current_state := x5\<rparr> = say (c\<lparr>current_state := x5\<rparr>) xs"
  "(say c xs)\<lparr>rx_index := x6\<rparr> = say (c\<lparr>rx_index := x6\<rparr>) xs"
  "(say c xs)\<lparr>rx_crc := x7\<rparr> = say (c\<lparr>rx_crc := x7\<rparr>) xs"
  "(say c xs)\<lparr>tx_crc := x8\<rparr> = say (c\<lparr>tx_crc := x8\<rparr>) xs"
  "(say c xs)\<lparr>rx_state := x9\<rparr> = say (c\<lparr>rx_state := x9\<rparr>) xs"
  "(say c xs)\<lparr>retransmit_from := x10\<rparr> = say (c\<lparr>retransmit_from := x10\<rparr>) xs"
  "(say c xs)\<lparr>tx_next_slot := x11\<rparr> = say (c\<lparr>tx_next_slot := x11\<rparr>) xs"
  "(say c xs)\<lparr>my_address := x12\<rparr> = say (c\<lparr>my_address := x12\<rparr>) xs"
  "(say c xs)\<lparr>peer_address := x13\<rparr> = say (c\<lparr>peer_address := x13\<rparr>) xs"
  "(say c xs)\<lparr>vs := x14\<rparr> = say (c\<lparr>vs := x14\<rparr>) xs"
  "(say c xs)\<lparr>vr := x15\<rparr> = say (c\<lparr>vr := x15\<rparr>) xs"
  "(say c xs)\<lparr>va := x16\<rparr> = say (c\<lparr>va := x16\<rparr>) xs"
  "(say c xs)\<lparr>n2 := x17\<rparr> = say (c\<lparr>n2 := x17\<rparr>) xs"
  "(say c xs)\<lparr>frmr_ctrl := x18\<rparr> = say (c\<lparr>frmr_ctrl := x18\<rparr>) xs"
  "(say c xs)\<lparr>frmr_flags := x19\<rparr> = say (c\<lparr>frmr_flags := x19\<rparr>) xs"
  "(say c xs)\<lparr>flags := x20\<rparr> = say (c\<lparr>flags := x20\<rparr>) xs"
  by (simp_all add: say_def)

section \<open>A context that is ready\<close>

text \<open>
  What \<open>atc_hdlc_init\<close> establishes for the callbacks and the CRC driver and no operation
  changes. \<open>plat\<close> and \<open>drv\<close> name the structures behind the two pointers.
\<close>

definition plat :: "atc_hdlc_ctx_t \<Rightarrow> atc_hdlc_plat_ops_t" where
  "plat c = the (platform c)"

definition drv :: "atc_hdlc_ctx_t \<Rightarrow> atc_hdlc_crc_ops_t" where
  "drv c = the (crc c)"

text \<open>The octet a driver's \<open>compute\<close> consumes, one at a time.\<close>

definition driver_step :: "atc_hdlc_crc_ops_t \<Rightarrow> u16 \<Rightarrow> u8 \<Rightarrow> u16" where
  "driver_step d fcs b = (case compute d fcs (Some [b]) 1 of Some v \<Rightarrow> v | None \<Rightarrow> 0)"

definition driver_ok :: "atc_hdlc_crc_ops_t \<Rightarrow> bool" where
  "driver_ok d \<longleftrightarrow> (\<forall>fcs b xs. compute d fcs (Some (b # xs)) 1 = Some (driver_step d fcs b))"

definition ready :: "atc_hdlc_ctx_t \<Rightarrow> bool" where
  "ready c \<longleftrightarrow> platform c \<noteq> None \<and> has_on_send (plat c) \<and> crc c \<noteq> None \<and> driver_ok (drv c)"

lemma platform_ready [simp]: "ready c \<Longrightarrow> platform c = Some (plat c)"
  by (auto simp: ready_def plat_def)

lemma crc_ready [simp]: "ready c \<Longrightarrow> crc c = Some (drv c)"
  by (auto simp: ready_def drv_def)

lemma on_send_ready [simp]: "ready c \<Longrightarrow> has_on_send (plat c)"
  unfolding ready_def by blast

lemma compute_ready [simp]:
  "ready c \<Longrightarrow> compute (drv c) fcs (Some (b # xs)) 1 = Some (driver_step (drv c) fcs b)"
  unfolding ready_def driver_ok_def by blast

lemma plat_fields [simp]:
  "plat (say c xs) = plat c"
  "plat (CTX_SET c f) = plat c"
  "plat (CTX_CLR c f) = plat c"
  "plat (c\<lparr>config := x0\<rparr>) = plat c"
  "plat (c\<lparr>tx_window := x1\<rparr>) = plat c"
  "plat (c\<lparr>rx_buf := x2\<rparr>) = plat c"
  "plat (c\<lparr>current_state := x3\<rparr>) = plat c"
  "plat (c\<lparr>rx_index := x4\<rparr>) = plat c"
  "plat (c\<lparr>rx_crc := x5\<rparr>) = plat c"
  "plat (c\<lparr>tx_crc := x6\<rparr>) = plat c"
  "plat (c\<lparr>rx_state := x7\<rparr>) = plat c"
  "plat (c\<lparr>retransmit_from := x8\<rparr>) = plat c"
  "plat (c\<lparr>tx_next_slot := x9\<rparr>) = plat c"
  "plat (c\<lparr>my_address := x10\<rparr>) = plat c"
  "plat (c\<lparr>peer_address := x11\<rparr>) = plat c"
  "plat (c\<lparr>vs := x12\<rparr>) = plat c"
  "plat (c\<lparr>vr := x13\<rparr>) = plat c"
  "plat (c\<lparr>va := x14\<rparr>) = plat c"
  "plat (c\<lparr>n2 := x15\<rparr>) = plat c"
  "plat (c\<lparr>frmr_ctrl := x16\<rparr>) = plat c"
  "plat (c\<lparr>frmr_flags := x17\<rparr>) = plat c"
  "plat (c\<lparr>flags := x18\<rparr>) = plat c"
  by (simp_all add: plat_def)

lemma drv_fields [simp]:
  "drv (say c xs) = drv c"
  "drv (CTX_SET c f) = drv c"
  "drv (CTX_CLR c f) = drv c"
  "drv (c\<lparr>config := x0\<rparr>) = drv c"
  "drv (c\<lparr>tx_window := x1\<rparr>) = drv c"
  "drv (c\<lparr>rx_buf := x2\<rparr>) = drv c"
  "drv (c\<lparr>current_state := x3\<rparr>) = drv c"
  "drv (c\<lparr>rx_index := x4\<rparr>) = drv c"
  "drv (c\<lparr>rx_crc := x5\<rparr>) = drv c"
  "drv (c\<lparr>tx_crc := x6\<rparr>) = drv c"
  "drv (c\<lparr>rx_state := x7\<rparr>) = drv c"
  "drv (c\<lparr>retransmit_from := x8\<rparr>) = drv c"
  "drv (c\<lparr>tx_next_slot := x9\<rparr>) = drv c"
  "drv (c\<lparr>my_address := x10\<rparr>) = drv c"
  "drv (c\<lparr>peer_address := x11\<rparr>) = drv c"
  "drv (c\<lparr>vs := x12\<rparr>) = drv c"
  "drv (c\<lparr>vr := x13\<rparr>) = drv c"
  "drv (c\<lparr>va := x14\<rparr>) = drv c"
  "drv (c\<lparr>n2 := x15\<rparr>) = drv c"
  "drv (c\<lparr>frmr_ctrl := x16\<rparr>) = drv c"
  "drv (c\<lparr>frmr_flags := x17\<rparr>) = drv c"
  "drv (c\<lparr>flags := x18\<rparr>) = drv c"
  by (simp_all add: drv_def)

lemma ready_fields [simp]:
  "ready (say c xs) = ready c"
  "ready (CTX_SET c f) = ready c"
  "ready (CTX_CLR c f) = ready c"
  "ready (c\<lparr>config := x0\<rparr>) = ready c"
  "ready (c\<lparr>tx_window := x1\<rparr>) = ready c"
  "ready (c\<lparr>rx_buf := x2\<rparr>) = ready c"
  "ready (c\<lparr>current_state := x3\<rparr>) = ready c"
  "ready (c\<lparr>rx_index := x4\<rparr>) = ready c"
  "ready (c\<lparr>rx_crc := x5\<rparr>) = ready c"
  "ready (c\<lparr>tx_crc := x6\<rparr>) = ready c"
  "ready (c\<lparr>rx_state := x7\<rparr>) = ready c"
  "ready (c\<lparr>retransmit_from := x8\<rparr>) = ready c"
  "ready (c\<lparr>tx_next_slot := x9\<rparr>) = ready c"
  "ready (c\<lparr>my_address := x10\<rparr>) = ready c"
  "ready (c\<lparr>peer_address := x11\<rparr>) = ready c"
  "ready (c\<lparr>vs := x12\<rparr>) = ready c"
  "ready (c\<lparr>vr := x13\<rparr>) = ready c"
  "ready (c\<lparr>va := x14\<rparr>) = ready c"
  "ready (c\<lparr>n2 := x15\<rparr>) = ready c"
  "ready (c\<lparr>frmr_ctrl := x16\<rparr>) = ready c"
  "ready (c\<lparr>frmr_flags := x17\<rparr>) = ready c"
  "ready (c\<lparr>flags := x18\<rparr>) = ready c"
  by (simp_all add: ready_def del: platform_ready crc_ready on_send_ready)

end
