(* ===== verification/Hdlc_Crc.thy ===== *)
theory Hdlc_Crc
  imports Hdlc_Types
begin

text \<open>
  The FCS engine of \<open>src/hdlc_crc.c\<close>: the lookup table, the per-octet update and the
  software driver \<open>soft_compute\<close>. The lemmas show that the table lookup is the reflected
  CRC-CCITT shift register run for eight bits, that the driver is a fold over the
  octets, and that a difference in one octet, or in two adjacent octets, never cancels.

  The locale \<open>crc_driver\<close> is the contract the framing code needs of any driver plugged in
  through \<open>atc_hdlc_crc_ops_t\<close>; \<open>crc_detecting\<close> adds what makes it an error check.
\<close>

section \<open>The table and the software driver\<close>

definition ATC_HDLC_FCS_INIT_VALUE :: u16 where
  "ATC_HDLC_FCS_INIT_VALUE = 0xFFFF"

definition fcstab :: "u16 list" where
  "fcstab = [
     0x0000, 0x1189, 0x2312, 0x329B, 0x4624, 0x57ad, 0x6536, 0x74bf, 0x8c48, 0x9dc1, 0xaf5a, 0xbed3,
     0xca6c, 0xdbe5, 0xe97e, 0xf8f7, 0x1081, 0x0108, 0x3393, 0x221a, 0x56a5, 0x472c, 0x75b7, 0x643e,
     0x9cc9, 0x8d40, 0xbfdb, 0xae52, 0xdaed, 0xcb64, 0xf9ff, 0xe876, 0x2102, 0x308b, 0x0210, 0x1399,
     0x6726, 0x76af, 0x4434, 0x55bd, 0xad4a, 0xbcc3, 0x8e58, 0x9fd1, 0xeb6e, 0xfae7, 0xc87c, 0xd9f5,
     0x3183, 0x200a, 0x1291, 0x0318, 0x77a7, 0x662e, 0x54b5, 0x453c, 0xbdcb, 0xac42, 0x9ed9, 0x8f50,
     0xfbef, 0xea66, 0xd8fd, 0xc974, 0x4204, 0x538d, 0x6116, 0x709f, 0x0420, 0x15a9, 0x2732, 0x36bb,
     0xce4c, 0xdfc5, 0xed5e, 0xfcd7, 0x8868, 0x99e1, 0xab7a, 0xbaf3, 0x5285, 0x430c, 0x7197, 0x601e,
     0x14a1, 0x0528, 0x37b3, 0x263a, 0xdecd, 0xcf44, 0xfddf, 0xec56, 0x98e9, 0x8960, 0xbbfb, 0xaa72,
     0x6306, 0x728f, 0x4014, 0x519d, 0x2522, 0x34ab, 0x0630, 0x17b9, 0xef4e, 0xfec7, 0xcc5c, 0xddd5,
     0xa96a, 0xb8e3, 0x8a78, 0x9bf1, 0x7387, 0x620e, 0x5095, 0x411c, 0x35a3, 0x242a, 0x16b1, 0x0738,
     0xffcf, 0xee46, 0xdcdd, 0xcd54, 0xb9eb, 0xa862, 0x9af9, 0x8b70, 0x8408, 0x9581, 0xa71a, 0xb693,
     0xc22c, 0xd3a5, 0xe13e, 0xf0b7, 0x0840, 0x19c9, 0x2b52, 0x3adb, 0x4e64, 0x5fed, 0x6d76, 0x7cff,
     0x9489, 0x8500, 0xb79b, 0xa612, 0xd2ad, 0xc324, 0xf1bf, 0xe036, 0x18c1, 0x0948, 0x3bd3, 0x2a5a,
     0x5ee5, 0x4f6c, 0x7df7, 0x6c7e, 0xa50a, 0xb483, 0x8618, 0x9791, 0xe32e, 0xf2a7, 0xc03c, 0xd1b5,
     0x2942, 0x38cb, 0x0a50, 0x1bd9, 0x6f66, 0x7eef, 0x4c74, 0x5dfd, 0xb58b, 0xa402, 0x9699, 0x8710,
     0xf3af, 0xe226, 0xd0bd, 0xc134, 0x39c3, 0x284a, 0x1ad1, 0x0b58, 0x7fe7, 0x6e6e, 0x5cf5, 0x4d7c,
     0xc60c, 0xd785, 0xe51e, 0xf497, 0x8028, 0x91a1, 0xa33a, 0xb2b3, 0x4a44, 0x5bcd, 0x6956, 0x78df,
     0x0c60, 0x1de9, 0x2f72, 0x3efb, 0xd68d, 0xc704, 0xf59f, 0xe416, 0x90a9, 0x8120, 0xb3bb, 0xa232,
     0x5ac5, 0x4b4c, 0x79d7, 0x685e, 0x1ce1, 0x0d68, 0x3ff3, 0x2e7a, 0xe70e, 0xf687, 0xc41c, 0xd595,
     0xa12a, 0xb0a3, 0x8238, 0x93b1, 0x6b46, 0x7acf, 0x4854, 0x59dd, 0x2d62, 0x3ceb, 0x0e70, 0x1ff9,
     0xf78f, 0xe606, 0xd49d, 0xc514, 0xb1ab, 0xa022, 0x92b9, 0x8330, 0x7bc7, 0x6a4e, 0x58d5, 0x495c,
     0x3de3, 0x2c6a, 0x1ef1, 0x0f78]"

definition atc_hdlc_crc_ccitt_update :: "u16 \<Rightarrow> u8 \<Rightarrow> u16" where
  "atc_hdlc_crc_ccitt_update fcs data =
     drop_bit 8 fcs XOR fcstab ! unat ((fcs XOR ucast data) AND 0xff)"

text \<open>The loop \<open>for (i = 0; i < len; i++)\<close>; \<open>n\<close> is the number of iterations left.\<close>

fun soft_compute_loop :: "u16 \<Rightarrow> octets \<Rightarrow> nat \<Rightarrow> nat \<Rightarrow> u16 option" where
  "soft_compute_loop fcs buf i 0 = Some fcs"
| "soft_compute_loop fcs buf i (Suc n) = do {
     b \<leftarrow> get_at buf i;
     soft_compute_loop (atc_hdlc_crc_ccitt_update fcs b) buf (Suc i) n
   }"

definition soft_compute :: "u16 \<Rightarrow> octets \<Rightarrow> u32 \<Rightarrow> u16 option" where
  "soft_compute fcs buf len = soft_compute_loop fcs buf 0 (unat len)"

definition atc_hdlc_crc_ops_default :: atc_hdlc_crc_ops_t where
  "atc_hdlc_crc_ops_default = \<lparr>compute = soft_compute\<rparr>"

section \<open>The shift register the table stands for\<close>

text \<open>One bit of the reflected register with polynomial \<open>0x8408\<close> (\<open>0x1021\<close> reversed).\<close>

definition crc_shift :: "u16 \<Rightarrow> u16" where
  "crc_shift x = (if x AND 1 = 0 then drop_bit 1 x else drop_bit 1 x XOR 0x8408)"

text \<open>The bits of an octet enter the register least significant bit first.\<close>

definition octet_bits :: "u8 \<Rightarrow> bool list" where
  "octet_bits b = map (bit b) [0..<8]"

definition crc_bit :: "u16 \<Rightarrow> bool \<Rightarrow> u16" where
  "crc_bit fcs b = crc_shift (fcs XOR of_bool b)"

definition crc_bits :: "u16 \<Rightarrow> bool list \<Rightarrow> u16" where
  "crc_bits fcs bs = foldl crc_bit fcs bs"

definition stream_bits :: "u8 list \<Rightarrow> bool list" where
  "stream_bits xs = concat (map octet_bits xs)"

definition crc_octets :: "u16 \<Rightarrow> u8 list \<Rightarrow> u16" where
  "crc_octets fcs xs = foldl atc_hdlc_crc_ccitt_update fcs xs"

lemma word_xor_cancel [simp]:
  fixes a b c :: "'a::len word"
  shows "a XOR c = b XOR c \<longleftrightarrow> a = b" and "c XOR a = c XOR b \<longleftrightarrow> a = b"
    and "a = b XOR a \<longleftrightarrow> b = 0"
  by (metis xor.assoc xor_self_eq xor.right_neutral xor.left_neutral xor.commute)+

lemma crc_shift_alt: "crc_shift x = drop_bit 1 x XOR (if bit x 0 then 0x8408 else 0)"
  by (simp add: crc_shift_def bit_0 and_one_eq odd_iff_mod_2_eq_one even_iff_mod_2_eq_zero)

lemma crc_shift_xor: "crc_shift (x XOR y) = crc_shift x XOR crc_shift y"
  by (auto simp: crc_shift_alt bit_xor_iff ac_simps)

lemma crc_shift_0 [simp]: "crc_shift 0 = 0"
  by (simp add: crc_shift_def)

lemma crc_shift_top: "bit (crc_shift x) 15 = bit x 0"
proof -
  have "bit (0x8408::u16) 15"
    by (simp add: bit_simps)
  then show ?thesis
    by (simp add: crc_shift_alt bit_xor_iff bit_drop_bit_eq impossible_bit)
qed

lemma crc_shift_inj: "crc_shift x = crc_shift y \<longleftrightarrow> x = y"
proof
  assume eq: "crc_shift x = crc_shift y"
  then have b0: "bit x 0 = bit y 0"
    by (metis crc_shift_top)
  with eq have d: "drop_bit 1 x = drop_bit 1 y"
    by (simp add: crc_shift_alt split: if_splits)
  show "x = y"
  proof (rule bit_word_eqI)
    fix n assume "n < LENGTH(16)"
    show "bit x n = bit y n"
    proof (cases n)
      case 0
      with b0 show ?thesis by simp
    next
      case (Suc m)
      have "bit (drop_bit 1 x) m = bit (drop_bit 1 y) m"
        using d by simp
      then show ?thesis
        using Suc by (simp add: bit_drop_bit_eq)
    qed
  qed
qed simp

lemma crc_shifts_xor: "(crc_shift ^^ k) (x XOR y) = (crc_shift ^^ k) x XOR (crc_shift ^^ k) y"
  by (induction k) (simp_all add: crc_shift_xor)

lemma crc_shifts_0 [simp]: "(crc_shift ^^ k) 0 = 0"
  by (induction k) simp_all

lemma crc_shifts_inj: "(crc_shift ^^ k) x = (crc_shift ^^ k) y \<longleftrightarrow> x = y"
  by (induction k) (simp_all add: crc_shift_inj)

text \<open>Zero bits leave the register at the low end without feeding back.\<close>

lemma crc_shifts_drop:
  "(\<forall>n<k. \<not> bit x n) \<Longrightarrow> (crc_shift ^^ k) x = drop_bit k x"
proof (induction k)
  case 0
  then show ?case by simp
next
  case (Suc k)
  then have "(crc_shift ^^ k) x = drop_bit k x" and "\<not> bit (drop_bit k x) 0"
    by (auto simp: bit_drop_bit_eq)
  moreover from this have "(crc_shift ^^ Suc k) x = crc_shift (drop_bit k x)"
    by simp
  ultimately show ?case
    by (simp add: crc_shift_alt [of "drop_bit k x"])
qed

lemma crc_shifts_push: "k \<le> 16 \<Longrightarrow> x = take_bit (16 - k) x \<Longrightarrow> (crc_shift ^^ k) (push_bit k x) = x"
proof -
  assume k: "k \<le> 16" and x: "x = take_bit (16 - k) x"
  have "(crc_shift ^^ k) (push_bit k x) = drop_bit k (push_bit k x)"
    by (rule crc_shifts_drop) (simp add: bit_push_bit_iff)
  also have "\<dots> = x"
    by (subst (2) x, rule bit_word_eqI) (use k in \<open>auto simp: bit_simps\<close>)
  finally show ?thesis .
qed

section \<open>The table is the register run for eight bits\<close>

text \<open>
  The table is built by doubling: the entries from \<open>2 ^ k\<close> on are the entries before,
  each combined with the entry at \<open>2 ^ k\<close>.
\<close>

definition crc_double :: "u16 \<Rightarrow> u16 list \<Rightarrow> u16 list" where
  "crc_double e xs = xs @ map (\<lambda>x. x XOR e) xs"

lemma fcstab_doubling:
  "fcstab = crc_double 0x8408 (crc_double 0x4204 (crc_double 0x2102 (crc_double 0x1081
     (crc_double 0x8c48 (crc_double 0x4624 (crc_double 0x2312 (crc_double 0x1189 [0])))))))"
  by (simp add: crc_double_def fcstab_def)

lemma nat_pow_xor:
  assumes "i < 2 ^ k"
  shows "word_of_nat (2 ^ k + i) = (word_of_nat i XOR word_of_nat (2 ^ k) :: 'a::len word)"
proof -
  have "take_bit k i = i"
    using assms by (simp add: take_bit_nat_eq_self)
  then have "(2 ^ k) AND i = (0::nat)"
    by (intro bit_eqI) (metis bit_and_iff bit_exp_iff bit_take_bit_iff bit_0_eq less_irrefl bot_apply bot_bool_def)
  then have "2 ^ k + i = i XOR 2 ^ k"
    by (simp add: disjunctive_add_eq_xor xor.commute)
  then show ?thesis
    by (simp only: of_nat_xor_eq)
qed

lemma crc_double_step:
  assumes "xs = map (\<lambda>i. (crc_shift ^^ 8) (word_of_nat i)) [0..<2 ^ k]"
    and "e = (crc_shift ^^ 8) (word_of_nat (2 ^ k))"
  shows "crc_double e xs = map (\<lambda>i. (crc_shift ^^ 8) (word_of_nat i)) [0..<2 ^ Suc k]"
proof -
  have "map (\<lambda>i. (crc_shift ^^ 8) (word_of_nat i)) [2 ^ k..<2 ^ Suc k]
     = map (\<lambda>x. x XOR e) xs"
    by (rule nth_equalityI) (use assms in \<open>auto simp: nat_pow_xor crc_shifts_xor
        simp del: of_nat_add of_nat_power\<close>)
  moreover have "[0..<2 ^ Suc k] = [0..<2 ^ k] @ [2 ^ k..<2 ^ Suc k]"
    using upt_add_eq_append [of 0 "2 ^ k" "2 ^ k"] by (simp add: mult_2)
  ultimately show ?thesis
    using assms(1) by (simp add: crc_double_def)
qed

lemma funpow_8: "(f ^^ 8) x = f (f (f (f (f (f (f (f x)))))))"
  by (simp add: eval_nat_numeral)

lemma fcstab_register: "fcstab = map (\<lambda>i. (crc_shift ^^ 8) (word_of_nat i)) [0..<256]"
proof -
  let ?t = "\<lambda>k::nat. map (\<lambda>i. (crc_shift ^^ 8) (word_of_nat i)) [0..<2 ^ k]"
  have "crc_double 0x1189 [0] = ?t (Suc 0)"
    by (rule crc_double_step) (simp_all add: funpow_8 crc_shift_def)
  then have "crc_double 0x2312 (crc_double 0x1189 [0]) = ?t (Suc (Suc 0))"
    by (rule crc_double_step) (simp add: funpow_8 crc_shift_def)
  then have "crc_double 0x4624 (crc_double 0x2312 (crc_double 0x1189 [0])) = ?t (Suc (Suc (Suc 0)))"
    by (rule crc_double_step) (simp add: funpow_8 crc_shift_def)
  then have "crc_double 0x8c48 (crc_double 0x4624 (crc_double 0x2312 (crc_double 0x1189 [0])))
     = ?t (Suc (Suc (Suc (Suc 0))))"
    by (rule crc_double_step) (simp add: funpow_8 crc_shift_def)
  then have "crc_double 0x1081 (crc_double 0x8c48 (crc_double 0x4624 (crc_double 0x2312
     (crc_double 0x1189 [0])))) = ?t (Suc (Suc (Suc (Suc (Suc 0)))))"
    by (rule crc_double_step) (simp add: funpow_8 crc_shift_def)
  then have "crc_double 0x2102 (crc_double 0x1081 (crc_double 0x8c48 (crc_double 0x4624
     (crc_double 0x2312 (crc_double 0x1189 [0]))))) = ?t (Suc (Suc (Suc (Suc (Suc (Suc 0))))))"
    by (rule crc_double_step) (simp add: funpow_8 crc_shift_def)
  then have "crc_double 0x4204 (crc_double 0x2102 (crc_double 0x1081 (crc_double 0x8c48
     (crc_double 0x4624 (crc_double 0x2312 (crc_double 0x1189 [0]))))))
     = ?t (Suc (Suc (Suc (Suc (Suc (Suc (Suc 0)))))))"
    by (rule crc_double_step) (simp add: funpow_8 crc_shift_def)
  then have "fcstab = ?t (Suc (Suc (Suc (Suc (Suc (Suc (Suc (Suc 0))))))))"
    unfolding fcstab_doubling by (rule crc_double_step) (simp add: funpow_8 crc_shift_def)
  then show ?thesis by simp
qed

text \<open>The simplifier reads a bit of a word literal off the same literal as an integer.\<close>

lemma bit_0xff: "bit (0xff :: int) n \<longleftrightarrow> n < 8"
proof -
  have "(0xff :: int) = mask 8"
    by (simp add: mask_eq_exp_minus_1)
  then have "bit (0xff :: int) n = bit (mask 8 :: int) n"
    by (rule arg_cong)
  then show ?thesis
    by (simp only: bit_mask_iff) simp
qed

lemma bit_octet: "bit (d :: u8) n \<Longrightarrow> n < 8"
  using bit_imp_le_length [of d n] by simp

lemma octet_split: "x = (x AND 0xff) XOR push_bit 8 (drop_bit 8 x)" for x :: u16
  by (rule bit_word_eqI)
    (auto simp add: bit_and_iff bit_xor_iff bit_push_bit_iff bit_drop_bit_eq bit_0xff)

lemma fcstab_nth: "fcstab ! unat (x AND 0xff) = (crc_shift ^^ 8) (x AND 0xff)"
proof -
  have "x AND 0xff = take_bit 8 x"
    by (simp add: take_bit_eq_mask mask_eq_exp_minus_1)
  then have "unat (x AND 0xff) < 256"
    using take_bit_nat_less_exp [of 8 "unat x"] by (simp add: unsigned_take_bit_eq)
  then show ?thesis
    by (simp add: fcstab_register)
qed

lemma update_register: "atc_hdlc_crc_ccitt_update fcs d = (crc_shift ^^ 8) (fcs XOR ucast d)"
proof -
  let ?x = "fcs XOR ucast d :: u16"
  have "(crc_shift ^^ 8) (push_bit 8 (drop_bit 8 ?x)) = drop_bit 8 (push_bit 8 (drop_bit 8 ?x))"
    by (rule crc_shifts_drop) (simp add: bit_push_bit_iff del: push_bit_xor drop_bit_xor)
  also have "\<dots> = drop_bit 8 fcs"
    by (rule bit_word_eqI) (auto simp: bit_simps dest: bit_octet bit_imp_le_length)
  finally have "(crc_shift ^^ 8) ?x = (crc_shift ^^ 8) (?x AND 0xff) XOR drop_bit 8 fcs"
    by (subst octet_split [of ?x]) (simp only: crc_shifts_xor)
  then show ?thesis
    by (simp add: atc_hdlc_crc_ccitt_update_def fcstab_nth xor.commute)
qed

section \<open>The register, bit by bit\<close>

lemma crc_bits_simps [simp]:
  "crc_bits c [] = c" "crc_bits c (b # bs) = crc_bits (crc_bit c b) bs"
  "crc_bits c (bs @ cs) = crc_bits (crc_bits c bs) cs"
  by (simp_all add: crc_bits_def)

lemma crc_octets_simps [simp]:
  "crc_octets c [] = c" "crc_octets c (x # xs) = crc_octets (atc_hdlc_crc_ccitt_update c x) xs"
  "crc_octets c (xs @ ys) = crc_octets (crc_octets c xs) ys"
  by (simp_all add: crc_octets_def)

text \<open>Up to sixteen bits can be put into the register at once.\<close>

lemma crc_bits_window:
  "length bs \<le> 16 \<Longrightarrow>
   crc_bits c bs = (crc_shift ^^ length bs) (c XOR horner_sum of_bool 2 bs)"
proof (induction bs arbitrary: c)
  case Nil
  then show ?case by simp
next
  case (Cons b bs)
  let ?w = "horner_sum of_bool 2 bs :: u16"
  have "?w = take_bit 15 ?w"
    using Cons.prems by (intro bit_word_eqI) (auto simp: bit_simps bit_horner_sum_bit_word_iff)
  then have push: "crc_shift (push_bit 1 ?w) = ?w"
    using crc_shifts_push [of 1 ?w] by simp
  then have step: "crc_bit c b XOR ?w = crc_shift ((c XOR of_bool b) XOR push_bit 1 ?w)"
    by (simp only: crc_bit_def crc_shift_xor [of "c XOR of_bool b"])
  have "(of_bool b :: u16) AND push_bit 1 ?w = 0"
    by (rule bit_word_eqI) (simp only: bit_and_iff bit_of_bool_iff bit_push_bit_iff, auto)
  then have "horner_sum of_bool 2 (b # bs) = of_bool b XOR push_bit 1 ?w"
    by (simp add: disjunctive_add_eq_xor [symmetric] push_bit_eq_mult mult.commute)
  then have "crc_bit c b XOR ?w = crc_shift (c XOR horner_sum of_bool 2 (b # bs))"
    by (simp add: step xor.assoc)
  then show ?case
    using Cons by (simp add: funpow_swap1)
qed

lemma octet_bits_word: "horner_sum of_bool 2 (octet_bits d) = (ucast d :: u16)"
proof (rule bit_word_eqI)
  fix n assume "n < LENGTH(16)"
  then show "bit (horner_sum of_bool 2 (octet_bits d) :: u16) n = bit (ucast d :: u16) n"
    by (cases "n < 8")
      (auto simp: bit_horner_sum_bit_word_iff octet_bits_def bit_ucast_iff dest: bit_octet)
qed

lemma length_octet_bits [simp]: "length (octet_bits d) = 8"
  by (simp add: octet_bits_def)

lemma update_bits: "atc_hdlc_crc_ccitt_update fcs d = crc_bits fcs (octet_bits d)"
  by (simp add: update_register crc_bits_window octet_bits_word)

lemma crc_octets_bits: "crc_octets fcs xs = crc_bits fcs (stream_bits xs)"
  by (induction xs arbitrary: fcs) (simp_all add: update_bits stream_bits_def)

section \<open>Error detection\<close>

lemma crc_bits_inj: "crc_bits c bs = crc_bits d bs \<longleftrightarrow> c = d"
  by (induction bs arbitrary: c d) (simp_all add: crc_bit_def crc_shift_inj)

lemma horner_bits_inj:
  assumes "length u = length v" "length u \<le> 16"
    and "horner_sum of_bool 2 u = (horner_sum of_bool 2 v :: u16)"
  shows "u = v"
proof (rule nth_equalityI)
  fix i assume i: "i < length u"
  have "bit (horner_sum of_bool 2 u :: u16) i = bit (horner_sum of_bool 2 v :: u16) i"
    using assms(3) by simp
  with i assms(1,2) show "u ! i = v ! i"
    by (simp add: bit_horner_sum_bit_word_iff)
qed (use assms in simp)

lemma crc_burst_bits:
  assumes "length u = length v" "length u \<le> 16" "u \<noteq> v"
  shows "crc_bits c (p @ u @ s) \<noteq> crc_bits c (p @ v @ s)"
proof
  assume "crc_bits c (p @ u @ s) = crc_bits c (p @ v @ s)"
  then have "crc_bits (crc_bits c p) u = crc_bits (crc_bits c p) v"
    by (simp add: crc_bits_inj)
  then have "horner_sum of_bool 2 u = (horner_sum of_bool 2 v :: u16)"
    using assms by (simp add: crc_bits_window crc_shifts_inj)
  then show False
    using assms horner_bits_inj by blast
qed

lemma update_inj_fcs [simp]:
  "atc_hdlc_crc_ccitt_update c d = atc_hdlc_crc_ccitt_update c' d \<longleftrightarrow> c = c'"
  by (simp add: update_register crc_shifts_inj)

text \<open>A register value and the two octets it is sent as, low octet first.\<close>

lemma fcs_octets:
  "c = ucast lo OR push_bit 8 (ucast hi)
     \<longleftrightarrow> lo = ucast (c AND 0xff) \<and> hi = ucast (drop_bit 8 c)" for c :: u16 and lo hi :: u8
proof
  assume c: "c = ucast lo OR push_bit 8 (ucast hi)"
  show "lo = ucast (c AND 0xff) \<and> hi = ucast (drop_bit 8 c)"
    unfolding c by (intro conjI bit_word_eqI)
      (auto simp: bit_and_iff bit_or_iff bit_ucast_iff bit_push_bit_iff bit_drop_bit_eq bit_0xff
        dest: bit_octet)
next
  assume a: "lo = ucast (c AND 0xff) \<and> hi = ucast (drop_bit 8 c)"
  show "c = ucast lo OR push_bit 8 (ucast hi)"
    by (rule bit_word_eqI)
      (use a in \<open>auto simp: bit_and_iff bit_or_iff bit_ucast_iff bit_push_bit_iff bit_drop_bit_eq bit_0xff\<close>)
qed

text \<open>Appending the register, low octet first, empties it.\<close>

lemma crc_residue:
  "crc_octets c [lo, hi] = 0 \<longleftrightarrow> lo = ucast (c AND 0xff) \<and> hi = ucast (drop_bit 8 c)"
proof -
  have "crc_octets c [lo, hi] = crc_bits c (octet_bits lo @ octet_bits hi)"
    by (simp add: crc_octets_bits stream_bits_def)
  also have "\<dots> = (crc_shift ^^ 16) (c XOR horner_sum of_bool 2 (octet_bits lo @ octet_bits hi))"
    by (subst crc_bits_window) simp_all
  finally have "crc_octets c [lo, hi] = 0 \<longleftrightarrow> c XOR horner_sum of_bool 2 (octet_bits lo @ octet_bits hi) = 0"
    using crc_shifts_inj [of 16 _ 0] by simp
  also have "\<dots> \<longleftrightarrow> c = horner_sum of_bool 2 (octet_bits lo @ octet_bits hi)"
    by (metis xor_self_eq word_xor_cancel(1))
  also have "\<dots> \<longleftrightarrow> lo = ucast (c AND 0xff) \<and> hi = ucast (drop_bit 8 c)"
  proof -
    have lo: "bit lo n \<longleftrightarrow> n < 8 \<and> octet_bits lo ! n" for n
      using bit_octet [of lo n] by (auto simp: octet_bits_def)
    have hi: "bit hi n \<longleftrightarrow> n < 8 \<and> octet_bits hi ! n" for n
      using bit_octet [of hi n] by (auto simp: octet_bits_def)
    have "horner_sum of_bool 2 (octet_bits lo @ octet_bits hi) = (ucast lo OR push_bit 8 (ucast hi) :: u16)"
      by (rule bit_word_eqI) (auto simp: bit_horner_sum_bit_word_iff nth_append bit_simps lo hi)
    moreover have "c = ucast lo OR push_bit 8 (ucast hi)
       \<longleftrightarrow> lo = ucast (c AND 0xff) \<and> hi = ucast (drop_bit 8 c)"
      by (rule fcs_octets)
    ultimately show ?thesis by simp
  qed
  finally show ?thesis .
qed

section \<open>The driver contract\<close>

text \<open>
  What the library relies on in a CRC driver: \<open>compute\<close> is defined on every readable
  range, and feeding a range is feeding its octets one by one into a fixed step. The code
  only ever feeds single octets, so \<open>driver_ok\<close> is the part of the contract it uses.
\<close>

definition driver_fcs :: "atc_hdlc_crc_ops_t \<Rightarrow> u8 list \<Rightarrow> u16" where
  "driver_fcs d xs = foldl (driver_step d) ATC_HDLC_FCS_INIT_VALUE xs"

locale crc_driver =
  fixes ops :: atc_hdlc_crc_ops_t
  assumes compute_fold:
    "unat len \<le> length xs \<Longrightarrow>
     compute ops fcs (Some xs) len = Some (foldl (driver_step ops) fcs (take (unat len) xs))"
begin

lemma driver_ok: "driver_ok ops"
  unfolding driver_ok_def
proof (intro allI)
  fix fcs b and xs :: "u8 list"
  show "compute ops fcs (Some (b # xs)) 1 = Some (driver_step ops fcs b)"
    by (subst compute_fold) simp_all
qed

lemma compute_append:
  assumes "unat l = unat l1 + unat l2" "unat l1 = length xs" "unat l2 \<le> length ys"
  shows "compute ops fcs (Some (xs @ ys)) l
     = compute ops fcs (Some xs) l1 \<bind> (\<lambda>m. compute ops m (Some ys) l2)"
  using assms by (simp add: compute_fold)

end

text \<open>A driver whose step is one to one in the register and in the octet separately.\<close>

locale crc_detecting = crc_driver +
  assumes step_fcs_inj: "driver_step ops c b = driver_step ops c' b \<Longrightarrow> c = c'"
    and step_octet_inj: "driver_step ops c b = driver_step ops c b' \<Longrightarrow> b = b'"
begin

lemma fold_inj: "foldl (driver_step ops) c xs = foldl (driver_step ops) c' xs \<Longrightarrow> c = c'"
  by (induction xs arbitrary: c c') (auto dest: step_fcs_inj)

lemma fcs_octet_change:
  "driver_fcs ops (xs @ [a] @ ys) = driver_fcs ops (xs @ [b] @ ys) \<longleftrightarrow> a = b"
  unfolding driver_fcs_def by (auto dest: fold_inj step_octet_inj)

end

lemma soft_compute_loop_eq:
  "i + n \<le> length xs \<Longrightarrow>
   soft_compute_loop c (Some xs) i n = Some (crc_octets c (take n (drop i xs)))"
proof (induction n arbitrary: i c)
  case 0
  then show ?case by simp
next
  case (Suc n)
  then have "drop i xs = xs ! i # drop (Suc i) xs"
    by (simp add: Cons_nth_drop_Suc)
  with Suc show ?case by simp
qed

lemma soft_compute_eq:
  "unat len \<le> length xs \<Longrightarrow> soft_compute c (Some xs) len = Some (crc_octets c (take (unat len) xs))"
  by (simp add: soft_compute_def soft_compute_loop_eq)

lemma soft_step [simp]: "driver_step atc_hdlc_crc_ops_default = atc_hdlc_crc_ccitt_update"
  by (intro ext) (simp add: driver_step_def atc_hdlc_crc_ops_default_def soft_compute_eq)

lemma soft_fcs: "driver_fcs atc_hdlc_crc_ops_default xs = crc_octets ATC_HDLC_FCS_INIT_VALUE xs"
  by (simp add: driver_fcs_def crc_octets_def)

lemma ucast_octet_inj: "(ucast a :: u16) = ucast b \<longleftrightarrow> a = b" for a b :: u8
proof
  assume eq: "(ucast a :: u16) = ucast b"
  show "a = b"
  proof (rule bit_word_eqI)
    fix n assume n: "n < LENGTH(8)"
    have "bit (ucast a :: u16) n = bit (ucast b :: u16) n"
      by (simp only: eq)
    with n show "bit a n = bit b n"
      by (simp add: bit_ucast_iff)
  qed
qed simp

lemma update_inj_octet [simp]:
  "atc_hdlc_crc_ccitt_update c a = atc_hdlc_crc_ccitt_update c b \<longleftrightarrow> a = b"
  by (simp add: update_register crc_shifts_inj ucast_octet_inj)

interpretation soft: crc_detecting atc_hdlc_crc_ops_default
proof unfold_locales
  fix len :: u32 and xs :: "u8 list" and fcs :: u16
  assume "unat len \<le> length xs"
  then show "compute atc_hdlc_crc_ops_default fcs (Some xs) len =
    Some (foldl (driver_step atc_hdlc_crc_ops_default) fcs (take (unat len) xs))"
    by (simp only: soft_step) (simp add: atc_hdlc_crc_ops_default_def soft_compute_eq crc_octets_def)
qed (simp_all add: update_inj_octet)

end
