(* ===== verification/Hdlc_Private.thy ===== *)
theory Hdlc_Private
  imports Hdlc_Crc
begin

text \<open>
  The timer helpers of \<open>src/hdlc_private.h\<close> and the two functions it declares for the
  rest of the code: \<open>set_state\<close> (\<open>src/hdlc_station.c\<close>) and \<open>reset_state\<close>
  (\<open>src/hdlc_dispatch.c\<close>). Dereferencing a \<open>NULL\<close> platform is undefined.

  The lemmas rewrite each helper to the record update and the calls it makes in a context
  that is ready; \<open>hdlc_run\<close> collects such rewrites for all components.
\<close>

definition t1_start :: "atc_hdlc_ctx_t \<Rightarrow> atc_hdlc_ctx_t option" where
  "t1_start c = do {
     p \<leftarrow> platform c;
     let c = (case config c of Some cfg \<Rightarrow> callback_if (has_t1_start p) (T1_start (t1_ms cfg)) c
              | None \<Rightarrow> c);
     Some (CTX_SET c HDLC_F_T1_ACTIVE)
   }"

definition t1_stop :: "atc_hdlc_ctx_t \<Rightarrow> atc_hdlc_ctx_t option" where
  "t1_stop c = do {
     c \<leftarrow> (if CTX_FLAG c HDLC_F_T1_ACTIVE
          then do { p \<leftarrow> platform c; Some (callback_if (has_t1_stop p) T1_stop c) } else Some c);
     Some (CTX_CLR c HDLC_F_T1_ACTIVE)
   }"

definition t2_start :: "atc_hdlc_ctx_t \<Rightarrow> atc_hdlc_ctx_t option" where
  "t2_start c = do {
     p \<leftarrow> platform c;
     let c = (case config c of Some cfg \<Rightarrow> callback_if (has_t2_start p) (T2_start (t2_ms cfg)) c
              | None \<Rightarrow> c);
     Some (CTX_SET c HDLC_F_T2_ACTIVE)
   }"

definition t2_stop :: "atc_hdlc_ctx_t \<Rightarrow> atc_hdlc_ctx_t option" where
  "t2_stop c = do {
     c \<leftarrow> (if CTX_FLAG c HDLC_F_T2_ACTIVE
          then do { p \<leftarrow> platform c; Some (callback_if (has_t2_stop p) T2_stop c) } else Some c);
     Some (CTX_CLR c HDLC_F_T2_ACTIVE)
   }"

text \<open>The guarded event call \<open>if (ctx->platform->on_event) ctx->platform->on_event(event, ...)\<close>.\<close>

definition fire_event :: "atc_hdlc_ctx_t \<Rightarrow> atc_hdlc_event_t \<Rightarrow> atc_hdlc_ctx_t option" where
  "fire_event c ev = do { p \<leftarrow> platform c; Some (callback_if (has_on_event p) (On_event ev) c) }"

definition deliver :: "atc_hdlc_ctx_t \<Rightarrow> octets \<Rightarrow> u16 \<Rightarrow> atc_hdlc_ctx_t option" where
  "deliver c info info_len = do {
     p \<leftarrow> platform c;
     Some (callback_if (has_on_data p) (On_data (map_option (take (unat info_len)) info) info_len) c)
   }"

definition set_state :: "atc_hdlc_ctx_t \<Rightarrow> atc_hdlc_state_t \<Rightarrow> atc_hdlc_event_t \<Rightarrow> atc_hdlc_ctx_t option" where
  "set_state c new_state event =
     (let state_changed = (current_state c \<noteq> new_state) in
      if state_changed \<or> event = ATC_HDLC_EVENT_CONN_REQ
      then fire_event (c\<lparr>current_state := new_state\<rparr>) event
      else Some c)"

text \<open>
  \<open>memset(ctx->tx_window->slot_lens, 0, slot_count * sizeof(slot_lens[0]))\<close>, only when the
  window and its length array are set.
\<close>

definition clear_slot_lens :: "atc_hdlc_ctx_t \<Rightarrow> atc_hdlc_ctx_t option" where
  "clear_slot_lens c = (case tx_window c of
       None \<Rightarrow> Some c
     | Some w \<Rightarrow> if slot_lens w = None then Some c else do {
         ls \<leftarrow> mem_zero (slot_lens w) (unat (slot_count w));
         Some (c\<lparr>tx_window := Some (w\<lparr>slot_lens := ls\<rparr>)\<rparr>)
       })"

definition reset_state :: "atc_hdlc_ctx_t \<Rightarrow> atc_hdlc_ctx_t option" where
  "reset_state c = do {
     let c = c\<lparr>vs := 0, vr := 0, va := 0, tx_next_slot := 0\<rparr>;
     c \<leftarrow> clear_slot_lens c;
     let c = CTX_CLR c HDLC_F_REJ_EXCEPTION;
     let c = CTX_CLR c HDLC_F_REMOTE_BUSY;
     let c = CTX_CLR c HDLC_F_LOCAL_BUSY;
     let c = c\<lparr>n2 := 0\<rparr>;
     c \<leftarrow> t1_stop c;
     t2_stop c
   }"

section \<open>What the helpers compute\<close>

definition t1_start_calls :: "atc_hdlc_ctx_t \<Rightarrow> callback list" where
  "t1_start_calls c = (case config c of None \<Rightarrow> []
     | Some cfg \<Rightarrow> if has_t1_start (plat c) then [T1_start (t1_ms cfg)] else [])"

definition t2_start_calls :: "atc_hdlc_ctx_t \<Rightarrow> callback list" where
  "t2_start_calls c = (case config c of None \<Rightarrow> []
     | Some cfg \<Rightarrow> if has_t2_start (plat c) then [T2_start (t2_ms cfg)] else [])"

definition t1_stop_calls :: "atc_hdlc_ctx_t \<Rightarrow> callback list" where
  "t1_stop_calls c = (if CTX_FLAG c HDLC_F_T1_ACTIVE \<and> has_t1_stop (plat c) then [T1_stop] else [])"

definition t2_stop_calls :: "atc_hdlc_ctx_t \<Rightarrow> callback list" where
  "t2_stop_calls c = (if CTX_FLAG c HDLC_F_T2_ACTIVE \<and> has_t2_stop (plat c) then [T2_stop] else [])"

definition event_calls :: "atc_hdlc_ctx_t \<Rightarrow> atc_hdlc_event_t \<Rightarrow> callback list" where
  "event_calls c ev = (if has_on_event (plat c) then [On_event ev] else [])"

definition data_calls :: "atc_hdlc_ctx_t \<Rightarrow> octets \<Rightarrow> u16 \<Rightarrow> callback list" where
  "data_calls c info n =
     (if has_on_data (plat c) then [On_data (map_option (take (unat n)) info) n] else [])"

lemmas call_defs = t1_start_calls_def t2_start_calls_def t1_stop_calls_def t2_stop_calls_def
  event_calls_def data_calls_def

text \<open>The calls depend on the platform, the configuration and the timer flags only.\<close>

lemma t1_start_calls_fields [simp]:
  "t1_start_calls (say c xs) = t1_start_calls c"
  "t1_start_calls (CTX_SET c f) = t1_start_calls c"
  "t1_start_calls (CTX_CLR c f) = t1_start_calls c"
  "t1_start_calls (c\<lparr>tx_window := x1\<rparr>) = t1_start_calls c"
  "t1_start_calls (c\<lparr>rx_buf := x2\<rparr>) = t1_start_calls c"
  "t1_start_calls (c\<lparr>current_state := x3\<rparr>) = t1_start_calls c"
  "t1_start_calls (c\<lparr>rx_index := x4\<rparr>) = t1_start_calls c"
  "t1_start_calls (c\<lparr>rx_crc := x5\<rparr>) = t1_start_calls c"
  "t1_start_calls (c\<lparr>tx_crc := x6\<rparr>) = t1_start_calls c"
  "t1_start_calls (c\<lparr>rx_state := x7\<rparr>) = t1_start_calls c"
  "t1_start_calls (c\<lparr>retransmit_from := x8\<rparr>) = t1_start_calls c"
  "t1_start_calls (c\<lparr>tx_next_slot := x9\<rparr>) = t1_start_calls c"
  "t1_start_calls (c\<lparr>my_address := x10\<rparr>) = t1_start_calls c"
  "t1_start_calls (c\<lparr>peer_address := x11\<rparr>) = t1_start_calls c"
  "t1_start_calls (c\<lparr>vs := x12\<rparr>) = t1_start_calls c"
  "t1_start_calls (c\<lparr>vr := x13\<rparr>) = t1_start_calls c"
  "t1_start_calls (c\<lparr>va := x14\<rparr>) = t1_start_calls c"
  "t1_start_calls (c\<lparr>n2 := x15\<rparr>) = t1_start_calls c"
  "t1_start_calls (c\<lparr>frmr_ctrl := x16\<rparr>) = t1_start_calls c"
  "t1_start_calls (c\<lparr>frmr_flags := x17\<rparr>) = t1_start_calls c"
  by (simp_all add: call_defs plat_def cong: option.case_cong)

lemma t2_start_calls_fields [simp]:
  "t2_start_calls (say c xs) = t2_start_calls c"
  "t2_start_calls (CTX_SET c f) = t2_start_calls c"
  "t2_start_calls (CTX_CLR c f) = t2_start_calls c"
  "t2_start_calls (c\<lparr>tx_window := x1\<rparr>) = t2_start_calls c"
  "t2_start_calls (c\<lparr>rx_buf := x2\<rparr>) = t2_start_calls c"
  "t2_start_calls (c\<lparr>current_state := x3\<rparr>) = t2_start_calls c"
  "t2_start_calls (c\<lparr>rx_index := x4\<rparr>) = t2_start_calls c"
  "t2_start_calls (c\<lparr>rx_crc := x5\<rparr>) = t2_start_calls c"
  "t2_start_calls (c\<lparr>tx_crc := x6\<rparr>) = t2_start_calls c"
  "t2_start_calls (c\<lparr>rx_state := x7\<rparr>) = t2_start_calls c"
  "t2_start_calls (c\<lparr>retransmit_from := x8\<rparr>) = t2_start_calls c"
  "t2_start_calls (c\<lparr>tx_next_slot := x9\<rparr>) = t2_start_calls c"
  "t2_start_calls (c\<lparr>my_address := x10\<rparr>) = t2_start_calls c"
  "t2_start_calls (c\<lparr>peer_address := x11\<rparr>) = t2_start_calls c"
  "t2_start_calls (c\<lparr>vs := x12\<rparr>) = t2_start_calls c"
  "t2_start_calls (c\<lparr>vr := x13\<rparr>) = t2_start_calls c"
  "t2_start_calls (c\<lparr>va := x14\<rparr>) = t2_start_calls c"
  "t2_start_calls (c\<lparr>n2 := x15\<rparr>) = t2_start_calls c"
  "t2_start_calls (c\<lparr>frmr_ctrl := x16\<rparr>) = t2_start_calls c"
  "t2_start_calls (c\<lparr>frmr_flags := x17\<rparr>) = t2_start_calls c"
  by (simp_all add: call_defs plat_def cong: option.case_cong)

lemma t1_stop_calls_fields [simp]:
  "t1_stop_calls (say c xs) = t1_stop_calls c"
  "f AND HDLC_F_T1_ACTIVE = 0 \<Longrightarrow> t1_stop_calls (CTX_SET c f) = t1_stop_calls c"
  "f AND HDLC_F_T1_ACTIVE = 0 \<Longrightarrow> t1_stop_calls (CTX_CLR c f) = t1_stop_calls c"
  "t1_stop_calls (c\<lparr>config := x0\<rparr>) = t1_stop_calls c"
  "t1_stop_calls (c\<lparr>tx_window := x1\<rparr>) = t1_stop_calls c"
  "t1_stop_calls (c\<lparr>rx_buf := x2\<rparr>) = t1_stop_calls c"
  "t1_stop_calls (c\<lparr>current_state := x3\<rparr>) = t1_stop_calls c"
  "t1_stop_calls (c\<lparr>rx_index := x4\<rparr>) = t1_stop_calls c"
  "t1_stop_calls (c\<lparr>rx_crc := x5\<rparr>) = t1_stop_calls c"
  "t1_stop_calls (c\<lparr>tx_crc := x6\<rparr>) = t1_stop_calls c"
  "t1_stop_calls (c\<lparr>rx_state := x7\<rparr>) = t1_stop_calls c"
  "t1_stop_calls (c\<lparr>retransmit_from := x8\<rparr>) = t1_stop_calls c"
  "t1_stop_calls (c\<lparr>tx_next_slot := x9\<rparr>) = t1_stop_calls c"
  "t1_stop_calls (c\<lparr>my_address := x10\<rparr>) = t1_stop_calls c"
  "t1_stop_calls (c\<lparr>peer_address := x11\<rparr>) = t1_stop_calls c"
  "t1_stop_calls (c\<lparr>vs := x12\<rparr>) = t1_stop_calls c"
  "t1_stop_calls (c\<lparr>vr := x13\<rparr>) = t1_stop_calls c"
  "t1_stop_calls (c\<lparr>va := x14\<rparr>) = t1_stop_calls c"
  "t1_stop_calls (c\<lparr>n2 := x15\<rparr>) = t1_stop_calls c"
  "t1_stop_calls (c\<lparr>frmr_ctrl := x16\<rparr>) = t1_stop_calls c"
  "t1_stop_calls (c\<lparr>frmr_flags := x17\<rparr>) = t1_stop_calls c"
  by (simp_all add: call_defs plat_def cong: option.case_cong)

lemma t2_stop_calls_fields [simp]:
  "t2_stop_calls (say c xs) = t2_stop_calls c"
  "f AND HDLC_F_T2_ACTIVE = 0 \<Longrightarrow> t2_stop_calls (CTX_SET c f) = t2_stop_calls c"
  "f AND HDLC_F_T2_ACTIVE = 0 \<Longrightarrow> t2_stop_calls (CTX_CLR c f) = t2_stop_calls c"
  "t2_stop_calls (c\<lparr>config := x0\<rparr>) = t2_stop_calls c"
  "t2_stop_calls (c\<lparr>tx_window := x1\<rparr>) = t2_stop_calls c"
  "t2_stop_calls (c\<lparr>rx_buf := x2\<rparr>) = t2_stop_calls c"
  "t2_stop_calls (c\<lparr>current_state := x3\<rparr>) = t2_stop_calls c"
  "t2_stop_calls (c\<lparr>rx_index := x4\<rparr>) = t2_stop_calls c"
  "t2_stop_calls (c\<lparr>rx_crc := x5\<rparr>) = t2_stop_calls c"
  "t2_stop_calls (c\<lparr>tx_crc := x6\<rparr>) = t2_stop_calls c"
  "t2_stop_calls (c\<lparr>rx_state := x7\<rparr>) = t2_stop_calls c"
  "t2_stop_calls (c\<lparr>retransmit_from := x8\<rparr>) = t2_stop_calls c"
  "t2_stop_calls (c\<lparr>tx_next_slot := x9\<rparr>) = t2_stop_calls c"
  "t2_stop_calls (c\<lparr>my_address := x10\<rparr>) = t2_stop_calls c"
  "t2_stop_calls (c\<lparr>peer_address := x11\<rparr>) = t2_stop_calls c"
  "t2_stop_calls (c\<lparr>vs := x12\<rparr>) = t2_stop_calls c"
  "t2_stop_calls (c\<lparr>vr := x13\<rparr>) = t2_stop_calls c"
  "t2_stop_calls (c\<lparr>va := x14\<rparr>) = t2_stop_calls c"
  "t2_stop_calls (c\<lparr>n2 := x15\<rparr>) = t2_stop_calls c"
  "t2_stop_calls (c\<lparr>frmr_ctrl := x16\<rparr>) = t2_stop_calls c"
  "t2_stop_calls (c\<lparr>frmr_flags := x17\<rparr>) = t2_stop_calls c"
  by (simp_all add: call_defs plat_def cong: option.case_cong)

lemma event_calls_fields [simp]:
  "event_calls (say c xs) ev = event_calls c ev"
  "event_calls (CTX_SET c f) ev = event_calls c ev"
  "event_calls (CTX_CLR c f) ev = event_calls c ev"
  "event_calls (c\<lparr>config := x0\<rparr>) ev = event_calls c ev"
  "event_calls (c\<lparr>tx_window := x1\<rparr>) ev = event_calls c ev"
  "event_calls (c\<lparr>rx_buf := x2\<rparr>) ev = event_calls c ev"
  "event_calls (c\<lparr>current_state := x3\<rparr>) ev = event_calls c ev"
  "event_calls (c\<lparr>rx_index := x4\<rparr>) ev = event_calls c ev"
  "event_calls (c\<lparr>rx_crc := x5\<rparr>) ev = event_calls c ev"
  "event_calls (c\<lparr>tx_crc := x6\<rparr>) ev = event_calls c ev"
  "event_calls (c\<lparr>rx_state := x7\<rparr>) ev = event_calls c ev"
  "event_calls (c\<lparr>retransmit_from := x8\<rparr>) ev = event_calls c ev"
  "event_calls (c\<lparr>tx_next_slot := x9\<rparr>) ev = event_calls c ev"
  "event_calls (c\<lparr>my_address := x10\<rparr>) ev = event_calls c ev"
  "event_calls (c\<lparr>peer_address := x11\<rparr>) ev = event_calls c ev"
  "event_calls (c\<lparr>vs := x12\<rparr>) ev = event_calls c ev"
  "event_calls (c\<lparr>vr := x13\<rparr>) ev = event_calls c ev"
  "event_calls (c\<lparr>va := x14\<rparr>) ev = event_calls c ev"
  "event_calls (c\<lparr>n2 := x15\<rparr>) ev = event_calls c ev"
  "event_calls (c\<lparr>frmr_ctrl := x16\<rparr>) ev = event_calls c ev"
  "event_calls (c\<lparr>frmr_flags := x17\<rparr>) ev = event_calls c ev"
  by (simp_all add: call_defs plat_def cong: option.case_cong)

lemma data_calls_fields [simp]:
  "data_calls (say c xs) info n = data_calls c info n"
  "data_calls (CTX_SET c f) info n = data_calls c info n"
  "data_calls (CTX_CLR c f) info n = data_calls c info n"
  "data_calls (c\<lparr>config := x0\<rparr>) info n = data_calls c info n"
  "data_calls (c\<lparr>tx_window := x1\<rparr>) info n = data_calls c info n"
  "data_calls (c\<lparr>rx_buf := x2\<rparr>) info n = data_calls c info n"
  "data_calls (c\<lparr>current_state := x3\<rparr>) info n = data_calls c info n"
  "data_calls (c\<lparr>rx_index := x4\<rparr>) info n = data_calls c info n"
  "data_calls (c\<lparr>rx_crc := x5\<rparr>) info n = data_calls c info n"
  "data_calls (c\<lparr>tx_crc := x6\<rparr>) info n = data_calls c info n"
  "data_calls (c\<lparr>rx_state := x7\<rparr>) info n = data_calls c info n"
  "data_calls (c\<lparr>retransmit_from := x8\<rparr>) info n = data_calls c info n"
  "data_calls (c\<lparr>tx_next_slot := x9\<rparr>) info n = data_calls c info n"
  "data_calls (c\<lparr>my_address := x10\<rparr>) info n = data_calls c info n"
  "data_calls (c\<lparr>peer_address := x11\<rparr>) info n = data_calls c info n"
  "data_calls (c\<lparr>vs := x12\<rparr>) info n = data_calls c info n"
  "data_calls (c\<lparr>vr := x13\<rparr>) info n = data_calls c info n"
  "data_calls (c\<lparr>va := x14\<rparr>) info n = data_calls c info n"
  "data_calls (c\<lparr>n2 := x15\<rparr>) info n = data_calls c info n"
  "data_calls (c\<lparr>frmr_ctrl := x16\<rparr>) info n = data_calls c info n"
  "data_calls (c\<lparr>frmr_flags := x17\<rparr>) info n = data_calls c info n"
  by (simp_all add: call_defs plat_def cong: option.case_cong)

lemma t1_start_run [hdlc_run]:
  "ready c \<Longrightarrow> t1_start c = Some (say (CTX_SET c HDLC_F_T1_ACTIVE) (t1_start_calls c))"
  by (simp add: t1_start_def t1_start_calls_def callback_if_say split: option.split)

lemma t2_start_run [hdlc_run]:
  "ready c \<Longrightarrow> t2_start c = Some (say (CTX_SET c HDLC_F_T2_ACTIVE) (t2_start_calls c))"
  by (simp add: t2_start_def t2_start_calls_def callback_if_say split: option.split)

lemma t1_stop_run [hdlc_run]:
  "ready c \<Longrightarrow> t1_stop c = Some (say (CTX_CLR c HDLC_F_T1_ACTIVE) (t1_stop_calls c))"
  by (simp add: t1_stop_def t1_stop_calls_def callback_if_say)

lemma t2_stop_run [hdlc_run]:
  "ready c \<Longrightarrow> t2_stop c = Some (say (CTX_CLR c HDLC_F_T2_ACTIVE) (t2_stop_calls c))"
  by (simp add: t2_stop_def t2_stop_calls_def callback_if_say)

lemma fire_event_run [hdlc_run]:
  "ready c \<Longrightarrow> fire_event c ev = Some (say c (event_calls c ev))"
  by (simp add: fire_event_def event_calls_def callback_if_say)

lemma deliver_run [hdlc_run]:
  "ready c \<Longrightarrow> deliver c info n = Some (say c (data_calls c info n))"
  by (simp add: deliver_def data_calls_def callback_if_say)

lemma set_state_run [hdlc_run]:
  "ready c \<Longrightarrow> set_state c st ev = Some (say (c\<lparr>current_state := st\<rparr>)
     (if current_state c \<noteq> st \<or> ev = ATC_HDLC_EVENT_CONN_REQ then event_calls c ev else []))"
  by (simp add: set_state_def fire_event_run)

text \<open>
  \<open>reset_fields\<close> is the context \<open>reset_state\<close> leaves, before its timer calls. It needs
  the length array of the window to be as long as the window is deep.
\<close>

definition zero_lens :: "atc_hdlc_txwin_t \<Rightarrow> atc_hdlc_txwin_t" where
  "zero_lens w = (case slot_lens w of None \<Rightarrow> w
     | Some ls \<Rightarrow> w\<lparr>slot_lens := Some (replicate (unat (slot_count w)) 0 @ drop (unat (slot_count w)) ls)\<rparr>)"

definition lens_fit :: "atc_hdlc_ctx_t \<Rightarrow> bool" where
  "lens_fit c \<longleftrightarrow> (\<forall>w ls. tx_window c = Some w \<longrightarrow> slot_lens w = Some ls
     \<longrightarrow> unat (slot_count w) \<le> length ls)"

definition reset_fields :: "atc_hdlc_ctx_t \<Rightarrow> atc_hdlc_ctx_t" where
  "reset_fields c = CTX_CLR (CTX_CLR ((CTX_CLR (CTX_CLR (CTX_CLR (c\<lparr>vs := 0, vr := 0, va := 0,
     tx_next_slot := 0, tx_window := map_option zero_lens (tx_window c)\<rparr>) HDLC_F_REJ_EXCEPTION)
     HDLC_F_REMOTE_BUSY) HDLC_F_LOCAL_BUSY)\<lparr>n2 := 0\<rparr>) HDLC_F_T1_ACTIVE) HDLC_F_T2_ACTIVE"

lemma reset_fields_simps [simp]:
  "vs (reset_fields c) = 0" "vr (reset_fields c) = 0" "va (reset_fields c) = 0"
  "tx_next_slot (reset_fields c) = 0" "n2 (reset_fields c) = 0"
  "tx_window (reset_fields c) = map_option zero_lens (tx_window c)"
  "config (reset_fields c) = config c" "platform (reset_fields c) = platform c"
  "crc (reset_fields c) = crc c" "rx_buf (reset_fields c) = rx_buf c"
  "current_state (reset_fields c) = current_state c" "rx_index (reset_fields c) = rx_index c"
  "rx_crc (reset_fields c) = rx_crc c" "tx_crc (reset_fields c) = tx_crc c"
  "rx_state (reset_fields c) = rx_state c" "retransmit_from (reset_fields c) = retransmit_from c"
  "my_address (reset_fields c) = my_address c" "peer_address (reset_fields c) = peer_address c"
  "frmr_ctrl (reset_fields c) = frmr_ctrl c" "frmr_flags (reset_fields c) = frmr_flags c"
  "trace (reset_fields c) = trace c"
  "plat (reset_fields c) = plat c" "drv (reset_fields c) = drv c"
  "ready (reset_fields c) = ready c"
  by (simp_all add: reset_fields_def)

lemma reset_fields_flags [simp]:
  "\<not> CTX_FLAG (reset_fields c) HDLC_F_T1_ACTIVE" "\<not> CTX_FLAG (reset_fields c) HDLC_F_T2_ACTIVE"
  "\<not> CTX_FLAG (reset_fields c) HDLC_F_REJ_EXCEPTION"
  "\<not> CTX_FLAG (reset_fields c) HDLC_F_REMOTE_BUSY" "\<not> CTX_FLAG (reset_fields c) HDLC_F_LOCAL_BUSY"
  "CTX_FLAG (reset_fields c) HDLC_F_RETRANSMIT_PENDING = CTX_FLAG c HDLC_F_RETRANSMIT_PENDING"
  by (simp_all add: reset_fields_def)

lemma reset_fields_say [simp]: "reset_fields (say c xs) = say (reset_fields c) xs"
  by (simp add: reset_fields_def)

lemma calls_cong:
  "platform c = platform c' \<Longrightarrow> config c = config c' \<Longrightarrow> t1_start_calls c = t1_start_calls c'"
  "platform c = platform c' \<Longrightarrow> config c = config c' \<Longrightarrow> t2_start_calls c = t2_start_calls c'"
  "platform c = platform c' \<Longrightarrow> event_calls c ev = event_calls c' ev"
  "platform c = platform c' \<Longrightarrow> data_calls c info n = data_calls c' info n"
  "platform c = platform c' \<Longrightarrow> CTX_FLAG c HDLC_F_T1_ACTIVE = CTX_FLAG c' HDLC_F_T1_ACTIVE \<Longrightarrow>
     t1_stop_calls c = t1_stop_calls c'"
  "platform c = platform c' \<Longrightarrow> CTX_FLAG c HDLC_F_T2_ACTIVE = CTX_FLAG c' HDLC_F_T2_ACTIVE \<Longrightarrow>
     t2_stop_calls c = t2_stop_calls c'"
  by (simp_all add: call_defs plat_def split: option.split)

lemma clear_slot_lens_run:
  "lens_fit c \<Longrightarrow> clear_slot_lens c = Some (c\<lparr>tx_window := map_option zero_lens (tx_window c)\<rparr>)"
  by (auto simp: clear_slot_lens_def lens_fit_def zero_lens_def split: option.splits)

lemma reset_state_run [hdlc_run]:
  assumes "ready c" "lens_fit c"
  shows "reset_state c = Some (say (reset_fields c) (t1_stop_calls c @ t2_stop_calls c))"
proof -
  have fit: "lens_fit (c\<lparr>vs := 0, vr := 0, va := 0, tx_next_slot := 0\<rparr>)"
    using assms(2) by (simp add: lens_fit_def)
  show ?thesis
    using assms(1) by (simp add: reset_state_def clear_slot_lens_run [OF fit] t1_stop_run t2_stop_run
        reset_fields_def t1_stop_calls_def t2_stop_calls_def Let_def)
qed

end
