(* ===== verification/Hdlc_Frame.thy ===== *)
theory Hdlc_Frame
  imports Hdlc_Private
begin

text \<open>
  \<open>src/hdlc_frame.h\<close>: the frame constants and control-field macros, and the functions
  that put a frame on the line through \<open>on_send\<close>. \<open>frame_octets\<close> is the reference
  encoding: an opening flag, the stuffed address, control, information and FCS octets, and
  a closing flag. The lemmas show that \<open>frame_send\<close> and the short senders emit exactly
  that encoding, with the flush mark on the closing flag only.
\<close>

section \<open>Constants and control fields\<close>

definition FLAG :: u8 where "FLAG = 0x7E"
definition ESC :: u8 where "ESC = 0x7D"
definition XOR_MASK :: u8 where "XOR_MASK = 0x20"

definition ADDR_LEN :: nat where "ADDR_LEN = 1"
definition CTRL_LEN :: nat where "CTRL_LEN = 1"
definition FCS_LEN :: nat where "FCS_LEN = 2"
definition MIN_FRAME_LEN :: nat where "MIN_FRAME_LEN = ADDR_LEN + CTRL_LEN + FCS_LEN"

lemmas hdlc_len_defs = ADDR_LEN_def CTRL_LEN_def FCS_LEN_def MIN_FRAME_LEN_def

definition CTRL_PF :: "u8 \<Rightarrow> u8" where "CTRL_PF ctrl = drop_bit 4 ctrl AND 0x01"
definition CTRL_NR :: "u8 \<Rightarrow> u8" where "CTRL_NR ctrl = drop_bit 5 ctrl AND 0x07"
definition CTRL_NS :: "u8 \<Rightarrow> u8" where "CTRL_NS ctrl = drop_bit 1 ctrl AND 0x07"
definition CTRL_S :: "u8 \<Rightarrow> u8" where "CTRL_S ctrl = drop_bit 2 ctrl AND 0x03"

definition PF_BIT :: u8 where "PF_BIT = 0x10"

definition I_CTRL :: "u8 \<Rightarrow> u8 \<Rightarrow> u8 \<Rightarrow> u8" where
  "I_CTRL ns nr pf = push_bit 1 (ns AND 0x07) OR push_bit 4 (pf AND 0x01) OR push_bit 5 (nr AND 0x07)"

definition S_CTRL :: "u8 \<Rightarrow> u8 \<Rightarrow> u8 \<Rightarrow> u8" where
  "S_CTRL s nr pf =
     0x01 OR push_bit 2 (s AND 0x03) OR push_bit 4 (pf AND 0x01) OR push_bit 5 (nr AND 0x07)"

definition U_CTRL :: "u8 \<Rightarrow> u8 \<Rightarrow> u8" where
  "U_CTRL cmd pf = cmd OR (if pf \<noteq> 0 then PF_BIT else 0)"

definition S_RR :: u8 where "S_RR = 0"
definition S_RNR :: u8 where "S_RNR = 1"
definition S_REJ :: u8 where "S_REJ = 2"

definition U_SABM :: u8 where "U_SABM = 0x2F"
definition U_DISC :: u8 where "U_DISC = 0x43"
definition U_UA :: u8 where "U_UA = 0x63"
definition U_DM :: u8 where "U_DM = 0x0F"
definition U_FRMR :: u8 where "U_FRMR = 0x87"
definition U_UI :: u8 where "U_UI = 0x03"
definition U_TEST :: u8 where "U_TEST = 0xE3"
definition U_SNRM :: u8 where "U_SNRM = 0x83"
definition U_SABME :: u8 where "U_SABME = 0x6F"
definition U_SNRME :: u8 where "U_SNRME = 0xCF"
definition U_SARME :: u8 where "U_SARME = 0x4F"

definition FRMR_W :: u8 where "FRMR_W = 0x01"
definition FRMR_X :: u8 where "FRMR_X = 0x02"
definition FRMR_Y :: u8 where "FRMR_Y = 0x04"
definition FRMR_Z :: u8 where "FRMR_Z = 0x08"

definition is_iframe :: "u8 \<Rightarrow> bool" where "is_iframe ctrl \<longleftrightarrow> ctrl AND 0x01 = 0"
definition is_sframe :: "u8 \<Rightarrow> bool" where "is_sframe ctrl \<longleftrightarrow> ctrl AND 0x03 = 0x01"
definition is_uframe :: "u8 \<Rightarrow> bool" where "is_uframe ctrl \<longleftrightarrow> ctrl AND 0x03 = 0x03"

definition is_cmd :: "atc_hdlc_ctx_t \<Rightarrow> u8 \<Rightarrow> bool" where
  "is_cmd c addr \<longleftrightarrow> addr = my_address c"

lemmas hdlc_u_defs = U_SABM_def U_DISC_def U_UA_def U_DM_def U_FRMR_def U_UI_def U_TEST_def
  U_SNRM_def U_SABME_def U_SNRME_def U_SARME_def
lemmas hdlc_s_defs = S_RR_def S_RNR_def S_REJ_def
lemmas hdlc_ctrl_defs = CTRL_PF_def CTRL_NR_def CTRL_NS_def CTRL_S_def PF_BIT_def
  I_CTRL_def S_CTRL_def U_CTRL_def
lemmas hdlc_kind_defs = is_iframe_def is_sframe_def is_uframe_def

section \<open>Sending octets\<close>

definition put_raw :: "atc_hdlc_ctx_t \<Rightarrow> u8 \<Rightarrow> bool \<Rightarrow> atc_hdlc_ctx_t option" where
  "put_raw c byte flush = do {
     p \<leftarrow> platform c;
     Some (callback_if (has_on_send p) (On_send byte flush) c)
   }"

definition put_escaped :: "atc_hdlc_ctx_t \<Rightarrow> u8 \<Rightarrow> atc_hdlc_ctx_t option" where
  "put_escaped c byte =
     (if byte = FLAG \<or> byte = ESC
      then do { c \<leftarrow> put_raw c ESC False; put_raw c (byte XOR XOR_MASK) False }
      else put_raw c byte False)"

definition emit :: "atc_hdlc_ctx_t \<Rightarrow> u8 \<Rightarrow> atc_hdlc_ctx_t option" where
  "emit c byte = do {
     d \<leftarrow> crc c;
     fcs \<leftarrow> compute d (tx_crc c) (Some [byte]) 1;
     put_escaped (c\<lparr>tx_crc := fcs\<rparr>) byte
   }"

definition frame_begin :: "atc_hdlc_ctx_t \<Rightarrow> u8 \<Rightarrow> u8 \<Rightarrow> atc_hdlc_ctx_t option" where
  "frame_begin c addr control = do {
     let c = c\<lparr>tx_crc := ATC_HDLC_FCS_INIT_VALUE\<rparr>;
     c \<leftarrow> put_raw c FLAG False;
     c \<leftarrow> emit c addr;
     emit c control
   }"

definition frame_end :: "atc_hdlc_ctx_t \<Rightarrow> atc_hdlc_ctx_t option" where
  "frame_end c = do {
     c \<leftarrow> put_escaped c (ucast (tx_crc c AND 0xFF));
     c \<leftarrow> put_escaped c (ucast (drop_bit 8 (tx_crc c)));
     put_raw c FLAG True
   }"

text \<open>The loop \<open>for (i = 0; i < len; i++) emit(ctx, data[i])\<close>; \<open>n\<close> iterations are left.\<close>

fun emit_loop :: "atc_hdlc_ctx_t \<Rightarrow> octets \<Rightarrow> nat \<Rightarrow> nat \<Rightarrow> atc_hdlc_ctx_t option" where
  "emit_loop c data i 0 = Some c"
| "emit_loop c data i (Suc n) = do {
     b \<leftarrow> get_at data i;
     c \<leftarrow> emit c b;
     emit_loop c data (Suc i) n
   }"

definition frame_send :: "atc_hdlc_ctx_t \<Rightarrow> u8 \<Rightarrow> u8 \<Rightarrow> octets \<Rightarrow> u32 \<Rightarrow> atc_hdlc_ctx_t option" where
  "frame_send c addr ctrl data len = do {
     c \<leftarrow> frame_begin c addr ctrl;
     c \<leftarrow> emit_loop c data 0 (unat len);
     frame_end c
   }"

definition send_u :: "atc_hdlc_ctx_t \<Rightarrow> u8 \<Rightarrow> u8 \<Rightarrow> atc_hdlc_ctx_t option" where
  "send_u c addr ctrl = do { c \<leftarrow> frame_begin c addr ctrl; frame_end c }"

definition send_ua :: "atc_hdlc_ctx_t \<Rightarrow> u8 \<Rightarrow> atc_hdlc_ctx_t option" where
  "send_ua c pf = send_u c (my_address c) (U_CTRL U_UA pf)"

definition send_dm :: "atc_hdlc_ctx_t \<Rightarrow> u8 \<Rightarrow> atc_hdlc_ctx_t option" where
  "send_dm c pf = send_u c (my_address c) (U_CTRL U_DM pf)"

definition send_s :: "atc_hdlc_ctx_t \<Rightarrow> u8 \<Rightarrow> u8 \<Rightarrow> u8 \<Rightarrow> u8 \<Rightarrow> atc_hdlc_ctx_t option" where
  "send_s c addr s nr pf = do { c \<leftarrow> frame_begin c addr (S_CTRL s nr pf); frame_end c }"

definition send_rr :: "atc_hdlc_ctx_t \<Rightarrow> u8 \<Rightarrow> atc_hdlc_ctx_t option" where
  "send_rr c pf = send_s c (peer_address c) S_RR (vr c) pf"

definition send_rr_resp :: "atc_hdlc_ctx_t \<Rightarrow> u8 \<Rightarrow> atc_hdlc_ctx_t option" where
  "send_rr_resp c pf = send_s c (my_address c) S_RR (vr c) pf"

definition send_rnr :: "atc_hdlc_ctx_t \<Rightarrow> u8 \<Rightarrow> atc_hdlc_ctx_t option" where
  "send_rnr c pf = send_s c (my_address c) S_RNR (vr c) pf"

definition send_rej :: "atc_hdlc_ctx_t \<Rightarrow> u8 \<Rightarrow> atc_hdlc_ctx_t option" where
  "send_rej c pf = send_s c (peer_address c) S_REJ (vr c) pf"

definition retransmit_frmr :: "atc_hdlc_ctx_t \<Rightarrow> atc_hdlc_ctx_t option" where
  "retransmit_frmr c = do {
     let status = push_bit 5 (vr c AND 0x07) OR push_bit 1 (vs c AND 0x07);
     c \<leftarrow> frame_begin c (my_address c) (U_CTRL U_FRMR 0);
     c \<leftarrow> emit c (frmr_ctrl c);
     c \<leftarrow> emit c status;
     c \<leftarrow> emit c (frmr_flags c);
     frame_end c
   }"

definition send_frmr ::
  "atc_hdlc_ctx_t \<Rightarrow> u8 \<Rightarrow> bool \<Rightarrow> bool \<Rightarrow> bool \<Rightarrow> bool \<Rightarrow> atc_hdlc_ctx_t option" where
  "send_frmr c rejected_ctrl w x y z = do {
     let c = c\<lparr>frmr_ctrl := rejected_ctrl\<rparr>;
     let c = c\<lparr>frmr_flags := (if w then FRMR_W else 0) OR (if x then FRMR_X else 0)
                OR (if y then FRMR_Y else 0) OR (if z then FRMR_Z else 0)\<rparr>;
     c \<leftarrow> t2_stop c;
     c \<leftarrow> retransmit_frmr c;
     t1_start c
   }"

section \<open>The reference encoding\<close>

definition escape :: "u8 \<Rightarrow> u8 list" where
  "escape b = (if b = FLAG \<or> b = ESC then [ESC, b XOR XOR_MASK] else [b])"

definition stuff :: "u8 list \<Rightarrow> u8 list" where
  "stuff xs = concat (map escape xs)"

definition fcs_field :: "u16 \<Rightarrow> u8 list" where
  "fcs_field fcs = [ucast (fcs AND 0xFF), ucast (drop_bit 8 fcs)]"

text \<open>The octets between the flags before stuffing.\<close>

definition frame_body :: "atc_hdlc_crc_ops_t \<Rightarrow> u8 \<Rightarrow> u8 \<Rightarrow> u8 list \<Rightarrow> u8 list" where
  "frame_body d addr ctrl info = addr # ctrl # info @ fcs_field (driver_fcs d (addr # ctrl # info))"

definition frame_octets :: "atc_hdlc_crc_ops_t \<Rightarrow> u8 \<Rightarrow> u8 \<Rightarrow> u8 list \<Rightarrow> u8 list" where
  "frame_octets d addr ctrl info = FLAG # stuff (frame_body d addr ctrl info) @ [FLAG]"

text \<open>A frame as \<open>on_send\<close> calls: every octet but the last without the flush mark.\<close>

definition frame_calls :: "atc_hdlc_crc_ops_t \<Rightarrow> u8 \<Rightarrow> u8 \<Rightarrow> u8 list \<Rightarrow> callback list" where
  "frame_calls d addr ctrl info =
     map (\<lambda>b. On_send b False) (FLAG # stuff (frame_body d addr ctrl info)) @ [On_send FLAG True]"

text \<open>The octets a list of callbacks puts on the line.\<close>

fun line_octets :: "callback list \<Rightarrow> u8 list" where
  "line_octets [] = []"
| "line_octets (On_send b f # as) = b # line_octets as"
| "line_octets (_ # as) = line_octets as"

lemma stuff_simps [simp]:
  "stuff [] = []" "stuff (x # xs) = escape x @ stuff xs" "stuff (xs @ ys) = stuff xs @ stuff ys"
  by (simp_all add: stuff_def)

lemma line_octets_append [simp]: "line_octets (xs @ ys) = line_octets xs @ line_octets ys"
  by (induction xs rule: line_octets.induct) simp_all

lemma line_octets_sends [simp]: "line_octets (map (\<lambda>b. On_send b f) xs) = xs"
  by (induction xs) simp_all

lemma line_octets_frame [simp]: "line_octets (frame_calls d addr ctrl info) = frame_octets d addr ctrl info"
  by (simp add: frame_calls_def frame_octets_def)

text \<open>The payloads handed to the application.\<close>

fun delivered :: "callback list \<Rightarrow> (octets \<times> u16) list" where
  "delivered [] = []"
| "delivered (On_data info n # as) = (info, n) # delivered as"
| "delivered (_ # as) = delivered as"

lemma delivered_append [simp]: "delivered (xs @ ys) = delivered xs @ delivered ys"
  by (induction xs rule: delivered.induct) simp_all

lemma delivered_sends [simp]: "delivered (map (\<lambda>b. On_send b f) xs) = []"
  by (induction xs) simp_all

lemma delivered_frame [simp]: "delivered (frame_calls d addr ctrl info) = []"
  by (simp add: frame_calls_def)

section \<open>What the senders emit\<close>

lemma put_raw_run [hdlc_run]:
  "ready c \<Longrightarrow> put_raw c b f = Some (say c [On_send b f])"
  by (simp add: put_raw_def callback_if_say)

lemma put_escaped_run [hdlc_run]:
  "ready c \<Longrightarrow> put_escaped c b = Some (say c (map (\<lambda>b. On_send b False) (escape b)))"
  by (simp add: put_escaped_def escape_def put_raw_run)

lemma emit_run [hdlc_run]:
  "ready c \<Longrightarrow> emit c b = Some (say (c\<lparr>tx_crc := driver_step (drv c) (tx_crc c) b\<rparr>)
     (map (\<lambda>b. On_send b False) (escape b)))"
  by (simp add: emit_def put_escaped_run)

lemma emit_loop_run:
  "ready c \<Longrightarrow> i + n \<le> length xs \<Longrightarrow> emit_loop c (Some xs) i n =
     Some (say (c\<lparr>tx_crc := foldl (driver_step (drv c)) (tx_crc c) (take n (drop i xs))\<rparr>)
       (map (\<lambda>b. On_send b False) (stuff (take n (drop i xs)))))"
proof (induction n arbitrary: i c)
  case 0
  then show ?case by simp
next
  case (Suc n)
  then have "drop i xs = xs ! i # drop (Suc i) xs"
    by (simp add: Cons_nth_drop_Suc)
  with Suc show ?case by (simp add: emit_run)
qed

lemma frame_begin_run [hdlc_run]:
  "ready c \<Longrightarrow> frame_begin c addr ctrl = Some (say (c\<lparr>tx_crc := driver_fcs (drv c) [addr, ctrl]\<rparr>)
     (map (\<lambda>b. On_send b False) (FLAG # stuff [addr, ctrl])))"
  by (simp add: frame_begin_def put_raw_run emit_run driver_fcs_def)

lemma frame_end_run [hdlc_run]:
  "ready c \<Longrightarrow> frame_end c = Some (say c
     (map (\<lambda>b. On_send b False) (stuff (fcs_field (tx_crc c))) @ [On_send FLAG True]))"
  by (simp add: frame_end_def put_raw_run put_escaped_run fcs_field_def)

lemma frame_send_run:
  assumes "ready c" "unat len \<le> length xs"
  shows "frame_send c addr ctrl (Some xs) len =
     Some (say (c\<lparr>tx_crc := driver_fcs (drv c) (addr # ctrl # take (unat len) xs)\<rparr>)
       (frame_calls (drv c) addr ctrl (take (unat len) xs)))"
  using assms
  by (simp add: frame_send_def frame_begin_run emit_loop_run frame_end_run frame_calls_def
      frame_body_def driver_fcs_def)

lemma frame_send_null_run [hdlc_run]:
  "ready c \<Longrightarrow> frame_send c addr ctrl data 0 =
     Some (say (c\<lparr>tx_crc := driver_fcs (drv c) [addr, ctrl]\<rparr>) (frame_calls (drv c) addr ctrl []))"
  by (simp add: frame_send_def frame_begin_run frame_end_run frame_calls_def frame_body_def)

lemma send_u_run [hdlc_run]:
  "ready c \<Longrightarrow> send_u c addr ctrl =
     Some (say (c\<lparr>tx_crc := driver_fcs (drv c) [addr, ctrl]\<rparr>) (frame_calls (drv c) addr ctrl []))"
  by (simp add: send_u_def frame_begin_run frame_end_run frame_calls_def frame_body_def)

lemma send_s_run [hdlc_run]:
  "ready c \<Longrightarrow> send_s c addr s nr pf =
     Some (say (c\<lparr>tx_crc := driver_fcs (drv c) [addr, S_CTRL s nr pf]\<rparr>)
       (frame_calls (drv c) addr (S_CTRL s nr pf) []))"
  by (simp add: send_s_def frame_begin_run frame_end_run frame_calls_def frame_body_def)

lemmas [hdlc_run] = send_ua_def send_dm_def send_rr_def send_rr_resp_def send_rnr_def send_rej_def

definition frmr_info :: "atc_hdlc_ctx_t \<Rightarrow> u8 list" where
  "frmr_info c = [frmr_ctrl c, push_bit 5 (vr c AND 0x07) OR push_bit 1 (vs c AND 0x07), frmr_flags c]"

lemma retransmit_frmr_run [hdlc_run]:
  "ready c \<Longrightarrow> retransmit_frmr c =
     Some (say (c\<lparr>tx_crc := driver_fcs (drv c) (my_address c # U_CTRL U_FRMR 0 # frmr_info c)\<rparr>)
       (frame_calls (drv c) (my_address c) (U_CTRL U_FRMR 0) (frmr_info c)))"
  by (simp add: retransmit_frmr_def frame_begin_run emit_run frame_end_run frame_calls_def
      frame_body_def frmr_info_def driver_fcs_def Let_def)

end
