(* ===== verification/Hdlc_Out.thy ===== *)
theory Hdlc_Out
  imports Hdlc_Frame
begin

text \<open>
  \<open>src/hdlc_out.c\<close>: the transmit entry points for a context that is not \<open>NULL\<close>, returning
  the context and the error code. A payload is a pointer and a length.
\<close>

type_synonym 'a api = "(atc_hdlc_ctx_t \<times> 'a) option"

text \<open>\<open>ctx->config && len > ctx->config->max_info_size\<close>.\<close>

definition too_long :: "atc_hdlc_ctx_t \<Rightarrow> u32 \<Rightarrow> bool" where
  "too_long c len = (case config c of None \<Rightarrow> False | Some cfg \<Rightarrow> len > max_info_size cfg)"

definition atc_hdlc_transmit_ui ::
  "atc_hdlc_ctx_t \<Rightarrow> u8 \<Rightarrow> octets \<Rightarrow> u32 \<Rightarrow> atc_hdlc_error_t api" where
  "atc_hdlc_transmit_ui c addr data len =
     (if data = None \<and> len > 0 then Some (c, ATC_HDLC_ERR_BAD_PARAM)
      else if too_long c len then Some (c, ATC_HDLC_ERR_FRAME_SIZE)
      else do {
        c \<leftarrow> frame_send c addr (U_CTRL U_UI 0) data len;
        Some (c, ATC_HDLC_OK)
      })"

definition atc_hdlc_transmit_test ::
  "atc_hdlc_ctx_t \<Rightarrow> u8 \<Rightarrow> octets \<Rightarrow> u32 \<Rightarrow> atc_hdlc_error_t api" where
  "atc_hdlc_transmit_test c addr data len =
     (if data = None \<and> len > 0 then Some (c, ATC_HDLC_ERR_BAD_PARAM)
      else if too_long c len then Some (c, ATC_HDLC_ERR_FRAME_SIZE)
      else do {
        c \<leftarrow> frame_send c addr (U_CTRL U_TEST 1) data len;
        Some (c, ATC_HDLC_OK)
      })"

text \<open>The payload copy into the slot and the length entry of \<open>atc_hdlc_transmit_i\<close>.\<close>

definition store_slot :: "atc_hdlc_ctx_t \<Rightarrow> u8 \<Rightarrow> octets \<Rightarrow> u32 \<Rightarrow> atc_hdlc_ctx_t option" where
  "store_slot c slot data len = do {
     w \<leftarrow> tx_window c;
     w \<leftarrow> (if len > 0 \<and> data \<noteq> None then do {
            mem \<leftarrow> mem_copy (slots w) (unat (ucast slot * slot_capacity w)) data (unat len);
            Some (w\<lparr>slots := mem\<rparr>) }
          else Some w);
     lens \<leftarrow> put_at (slot_lens w) (unat slot) len;
     Some (c\<lparr>tx_window := Some (w\<lparr>slot_lens := lens\<rparr>)\<rparr>)
   }"

definition atc_hdlc_transmit_i :: "atc_hdlc_ctx_t \<Rightarrow> octets \<Rightarrow> u32 \<Rightarrow> atc_hdlc_error_t api" where
  "atc_hdlc_transmit_i c data len =
     (if current_state c \<noteq> ATC_HDLC_STATE_CONNECTED then Some (c, ATC_HDLC_ERR_BAD_STATE)
      else if CTX_FLAG c HDLC_F_REMOTE_BUSY then Some (c, ATC_HDLC_ERR_REMOTE_BUSY)
      else case tx_window c of None \<Rightarrow> Some (c, ATC_HDLC_ERR_NO_BUFFER)
      | Some w \<Rightarrow>
        if too_long c len then Some (c, ATC_HDLC_ERR_FRAME_SIZE)
        else if len > 0 \<and> data \<noteq> None \<and> len > slot_capacity w then Some (c, ATC_HDLC_ERR_FRAME_SIZE)
        else let outstanding = mod8_dist (vs c) (va c) in
        if outstanding \<ge> slot_count w then Some (c, ATC_HDLC_ERR_WINDOW_FULL)
        else do {
          let slot = tx_next_slot c;
          next_slot \<leftarrow> c_mod (uint slot + 1) (uint (slot_count w));
          let c = c\<lparr>tx_next_slot := next_slot\<rparr>;
          c \<leftarrow> store_slot c slot data len;
          c \<leftarrow> frame_send c (peer_address c) (I_CTRL (vs c) (vr c) 0) data len;
          let c = c\<lparr>vs := mod8_succ (vs c)\<rparr>;
          c \<leftarrow> t2_stop c;
          c \<leftarrow> (if outstanding = 0 then t1_start c else Some c);
          Some (c, ATC_HDLC_OK)
        })"

definition atc_hdlc_transmit_ui_start :: "atc_hdlc_ctx_t \<Rightarrow> u8 \<Rightarrow> atc_hdlc_ctx_t option" where
  "atc_hdlc_transmit_ui_start c addr = frame_begin c addr (U_CTRL U_UI 0)"

definition atc_hdlc_transmit_ui_data :: "atc_hdlc_ctx_t \<Rightarrow> octets \<Rightarrow> u32 \<Rightarrow> atc_hdlc_ctx_t option" where
  "atc_hdlc_transmit_ui_data c data len =
     (if data = None \<and> len > 0 then Some c else emit_loop c data 0 (unat len))"

definition atc_hdlc_transmit_ui_end :: "atc_hdlc_ctx_t \<Rightarrow> atc_hdlc_ctx_t option" where
  "atc_hdlc_transmit_ui_end c = frame_end c"

end
