(* ===== verification/Hdlc_Dispatch.thy ===== *)
theory Hdlc_Dispatch
  imports Hdlc_Frame
begin

text \<open>
  \<open>src/hdlc_dispatch.c\<close>: what the station does with a frame that passed the FCS check,
  one handler per link state. An information field is a pointer (\<^const>\<open>None\<close> when the
  frame has none) and a 16-bit length.
\<close>

section \<open>Acknowledgements\<close>

definition frames_acked :: "atc_hdlc_ctx_t \<Rightarrow> u8 \<Rightarrow> atc_hdlc_ctx_t option" where
  "frames_acked c nr =
     (if nr = va c then Some c
      else do {
        let prev_out = mask8_dist (vs c) (va c);
        let c = c\<lparr>va := nr\<rparr>;
        let c = c\<lparr>n2 := 0\<rparr>;
        w \<leftarrow> tx_window c;
        if prev_out \<ge> slot_count w then fire_event c ATC_HDLC_EVENT_WINDOW_OPEN else Some c
      })"

definition process_nr :: "atc_hdlc_ctx_t \<Rightarrow> u8 \<Rightarrow> atc_hdlc_ctx_t option" where
  "process_nr c nr =
     (if vs c = nr then do { c \<leftarrow> frames_acked c nr; t1_stop c }
      else if va c \<noteq> nr then do { c \<leftarrow> frames_acked c nr; t1_start c }
      else Some c)"

definition trigger_retransmit :: "atc_hdlc_ctx_t \<Rightarrow> u8 \<Rightarrow> atc_hdlc_ctx_t" where
  "trigger_retransmit c from_seq =
     (if tx_window c = None \<or> vs c = from_seq then c
      else CTX_SET (c\<lparr>retransmit_from := from_seq\<rparr>) HDLC_F_RETRANSMIT_PENDING)"

text \<open>\<open>validate_nr\<close> returns the context and whether the frame may be processed further.\<close>

definition validate_nr :: "atc_hdlc_ctx_t \<Rightarrow> u8 \<Rightarrow> u8 \<Rightarrow> (atc_hdlc_ctx_t \<times> bool) option" where
  "validate_nr c ctrl nr =
     (let diff_nr = mask8_dist nr (va c); diff_vs = mask8_dist (vs c) (va c) in
      if diff_nr \<le> diff_vs then Some (c, True)
      else do {
        c \<leftarrow> send_frmr c ctrl False False False True;
        c \<leftarrow> set_state c ATC_HDLC_STATE_FRMR_ERROR ATC_HDLC_EVENT_PROTOCOL_ERROR;
        Some (c, False)
      })"

section \<open>Disconnected and connecting\<close>

definition state_disconnected ::
  "atc_hdlc_ctx_t \<Rightarrow> u8 \<Rightarrow> u8 \<Rightarrow> octets \<Rightarrow> u16 \<Rightarrow> atc_hdlc_ctx_t option" where
  "state_disconnected c addr ctrl info info_len =
     (if \<not> is_uframe ctrl then Some c
      else let cmd = ctrl AND NOT PF_BIT in
      if cmd = U_SABM then do {
        c \<leftarrow> reset_state c;
        c \<leftarrow> send_ua c (CTRL_PF ctrl);
        set_state c ATC_HDLC_STATE_CONNECTED ATC_HDLC_EVENT_CONN_REQ }
      else if cmd = U_DISC then send_ua c (CTRL_PF ctrl)
      else if cmd = U_UI then deliver c info info_len
      else if cmd = U_SNRM \<or> cmd = U_SABME \<or> cmd = U_SNRME \<or> cmd = U_SARME
      then send_dm c (CTRL_PF ctrl)
      else Some c)"

definition state_connecting ::
  "atc_hdlc_ctx_t \<Rightarrow> u8 \<Rightarrow> u8 \<Rightarrow> octets \<Rightarrow> u16 \<Rightarrow> atc_hdlc_ctx_t option" where
  "state_connecting c addr ctrl info info_len =
     (if \<not> is_uframe ctrl then Some c
      else let cmd = ctrl AND NOT PF_BIT in
      if cmd = U_SABM then send_ua c (CTRL_PF ctrl)
      else if cmd = U_UA then
        (if CTRL_PF ctrl \<noteq> 0 then do {
           c \<leftarrow> t1_stop c;
           c \<leftarrow> reset_state c;
           set_state c ATC_HDLC_STATE_CONNECTED ATC_HDLC_EVENT_CONN_ACCEPTED }
         else Some c)
      else if cmd = U_DM then
        (if CTRL_PF ctrl \<noteq> 0 then do {
           c \<leftarrow> t1_stop c;
           set_state c ATC_HDLC_STATE_DISCONNECTED ATC_HDLC_EVENT_PEER_REJECT }
         else Some c)
      else if cmd = U_DISC then send_dm c (CTRL_PF ctrl)
      else Some c)"

section \<open>Connected\<close>

definition handle_in_sequence_iframe ::
  "atc_hdlc_ctx_t \<Rightarrow> u8 \<Rightarrow> octets \<Rightarrow> u16 \<Rightarrow> atc_hdlc_ctx_t option" where
  "handle_in_sequence_iframe c pf info info_len = do {
     let c = c\<lparr>vr := mod8_succ (vr c)\<rparr>;
     let c = CTX_CLR c HDLC_F_REJ_EXCEPTION;
     c \<leftarrow> deliver c info info_len;
     if pf \<noteq> 0 then do {
       c \<leftarrow> (if CTX_FLAG c HDLC_F_LOCAL_BUSY then send_rnr c 1 else send_rr_resp c 1);
       t2_stop c }
     else if \<not> CTX_FLAG c HDLC_F_T2_ACTIVE then
       (if CTX_FLAG c HDLC_F_LOCAL_BUSY then send_rnr c 0 else t2_start c)
     else Some c
   }"

definition handle_out_of_sequence_iframe ::
  "atc_hdlc_ctx_t \<Rightarrow> u8 \<Rightarrow> u8 \<Rightarrow> atc_hdlc_ctx_t option" where
  "handle_out_of_sequence_iframe c ns pf =
     (if CTX_FLAG c HDLC_F_REJ_EXCEPTION then
        (if pf \<noteq> 0 then send_rr_resp c 1 else Some c)
      else do {
        let c = CTX_SET c HDLC_F_REJ_EXCEPTION;
        c \<leftarrow> send_rej c pf;
        t2_stop c
      })"

definition handle_iframe :: "atc_hdlc_ctx_t \<Rightarrow> u8 \<Rightarrow> octets \<Rightarrow> u16 \<Rightarrow> atc_hdlc_ctx_t option" where
  "handle_iframe c ctrl info info_len = do {
     let ns = CTRL_NS ctrl;
     let nr = CTRL_NR ctrl;
     let pf = CTRL_PF ctrl;
     (c, ok) \<leftarrow> validate_nr c ctrl nr;
     if \<not> ok then Some c
     else do {
       c \<leftarrow> process_nr c nr;
       if ns = vr c then handle_in_sequence_iframe c pf info info_len
       else handle_out_of_sequence_iframe c ns pf
     }
   }"

text \<open>The busy bookkeeping at the head of \<open>handle_sframe\<close>.\<close>

definition sframe_busy :: "atc_hdlc_ctx_t \<Rightarrow> u8 \<Rightarrow> atc_hdlc_ctx_t option" where
  "sframe_busy c s =
     (if s = S_RR then do {
        let was_busy = CTX_FLAG c HDLC_F_REMOTE_BUSY;
        let c = CTX_CLR c HDLC_F_REMOTE_BUSY;
        if was_busy then fire_event c ATC_HDLC_EVENT_PEER_READY else Some c }
      else if s = S_RNR then
        (if \<not> CTX_FLAG c HDLC_F_REMOTE_BUSY then
           fire_event (CTX_SET c HDLC_F_REMOTE_BUSY) ATC_HDLC_EVENT_PEER_BUSY
         else Some c)
      else if s = S_REJ then Some (CTX_CLR c HDLC_F_REMOTE_BUSY)
      else Some c)"

definition handle_sframe :: "atc_hdlc_ctx_t \<Rightarrow> u8 \<Rightarrow> u8 \<Rightarrow> atc_hdlc_ctx_t option" where
  "handle_sframe c addr ctrl = do {
     let s = CTRL_S ctrl;
     let nr = CTRL_NR ctrl;
     let pf = CTRL_PF ctrl;
     let cmd = is_cmd c addr;
     c \<leftarrow> sframe_busy c s;
     c \<leftarrow> (if cmd \<and> pf \<noteq> 0 then do { c \<leftarrow> send_rr_resp c 1; t2_stop c } else Some c);
     (c, ok) \<leftarrow> validate_nr c ctrl nr;
     if \<not> ok then Some c
     else do {
       c \<leftarrow> (if s = S_REJ then do {
              c \<leftarrow> frames_acked c nr;
              c \<leftarrow> t1_stop c;
              Some (if va c \<noteq> vs c then trigger_retransmit c nr else c) }
            else process_nr c nr);
       Some (if \<not> cmd \<and> pf \<noteq> 0 \<and> va c \<noteq> vs c then trigger_retransmit c (va c) else c)
     }
   }"

definition handle_uframe ::
  "atc_hdlc_ctx_t \<Rightarrow> u8 \<Rightarrow> u8 \<Rightarrow> octets \<Rightarrow> u16 \<Rightarrow> atc_hdlc_ctx_t option" where
  "handle_uframe c addr ctrl info info_len =
     (let pf = CTRL_PF ctrl; cmd = ctrl AND NOT PF_BIT in
      if cmd = U_SABM then do {
        c \<leftarrow> reset_state c;
        c \<leftarrow> send_ua c pf;
        set_state c ATC_HDLC_STATE_CONNECTED ATC_HDLC_EVENT_CONN_REQ }
      else if cmd = U_DISC then do {
        c \<leftarrow> reset_state c;
        c \<leftarrow> send_ua c pf;
        set_state c ATC_HDLC_STATE_DISCONNECTED ATC_HDLC_EVENT_PEER_DISC }
      else if cmd = U_DM then do {
        c \<leftarrow> reset_state c;
        set_state c ATC_HDLC_STATE_DISCONNECTED ATC_HDLC_EVENT_PEER_REJECT }
      else if cmd = U_FRMR then do {
        c \<leftarrow> reset_state c;
        set_state c ATC_HDLC_STATE_FRMR_ERROR ATC_HDLC_EVENT_PROTOCOL_ERROR }
      else if cmd = U_UI then deliver c info info_len
      else if cmd = U_TEST then
        (if is_cmd c addr then frame_send c (my_address c) (U_CTRL U_TEST pf) info (ucast info_len)
         else if info \<noteq> None then deliver c info info_len
         else do { p \<leftarrow> platform c; Some c })
      else if cmd = U_SNRM \<or> cmd = U_SABME \<or> cmd = U_SNRME \<or> cmd = U_SARME then send_dm c pf
      else send_frmr c ctrl True False False False)"

definition state_connected ::
  "atc_hdlc_ctx_t \<Rightarrow> u8 \<Rightarrow> u8 \<Rightarrow> octets \<Rightarrow> u16 \<Rightarrow> atc_hdlc_ctx_t option" where
  "state_connected c addr ctrl info info_len =
     (if is_iframe ctrl then handle_iframe c ctrl info info_len
      else if is_sframe ctrl then handle_sframe c addr ctrl
      else if is_uframe ctrl then handle_uframe c addr ctrl info info_len
      else Some c)"

section \<open>Disconnecting and frame-reject\<close>

definition state_disconnecting ::
  "atc_hdlc_ctx_t \<Rightarrow> u8 \<Rightarrow> u8 \<Rightarrow> octets \<Rightarrow> u16 \<Rightarrow> atc_hdlc_ctx_t option" where
  "state_disconnecting c addr ctrl info info_len =
     (if \<not> is_uframe ctrl then (if CTRL_PF ctrl \<noteq> 0 then send_dm c 1 else Some c)
      else let cmd = ctrl AND NOT PF_BIT in
      if cmd = U_SABM \<or> cmd = U_SABME then send_dm c (CTRL_PF ctrl)
      else if cmd = U_DISC then send_ua c (CTRL_PF ctrl)
      else if cmd = U_UA then
        (if CTRL_PF ctrl \<noteq> 0 then do {
           c \<leftarrow> t1_stop c;
           set_state c ATC_HDLC_STATE_DISCONNECTED ATC_HDLC_EVENT_DISC_DONE }
         else Some c)
      else if cmd = U_DM then
        (if CTRL_PF ctrl \<noteq> 0 then do {
           c \<leftarrow> t1_stop c;
           set_state c ATC_HDLC_STATE_DISCONNECTED ATC_HDLC_EVENT_PEER_REJECT }
         else Some c)
      else Some c)"

definition state_frmr_error ::
  "atc_hdlc_ctx_t \<Rightarrow> u8 \<Rightarrow> u8 \<Rightarrow> octets \<Rightarrow> u16 \<Rightarrow> atc_hdlc_ctx_t option" where
  "state_frmr_error c addr ctrl info info_len =
     (if \<not> is_uframe ctrl then Some c
      else if ctrl AND NOT PF_BIT = U_SABM then do {
        c \<leftarrow> reset_state c;
        c \<leftarrow> send_ua c (CTRL_PF ctrl);
        set_state c ATC_HDLC_STATE_CONNECTED ATC_HDLC_EVENT_CONN_REQ }
      else Some c)"

definition dispatch_frame ::
  "atc_hdlc_ctx_t \<Rightarrow> u8 \<Rightarrow> u8 \<Rightarrow> octets \<Rightarrow> u16 \<Rightarrow> atc_hdlc_ctx_t option" where
  "dispatch_frame c addr ctrl info info_len = (case current_state c of
       ATC_HDLC_STATE_DISCONNECTED \<Rightarrow> state_disconnected c addr ctrl info info_len
     | ATC_HDLC_STATE_CONNECTING \<Rightarrow> state_connecting c addr ctrl info info_len
     | ATC_HDLC_STATE_CONNECTED \<Rightarrow> state_connected c addr ctrl info info_len
     | ATC_HDLC_STATE_DISCONNECTING \<Rightarrow> state_disconnecting c addr ctrl info info_len
     | ATC_HDLC_STATE_FRMR_ERROR \<Rightarrow> state_frmr_error c addr ctrl info info_len)"

end
