(* ===== verification/Hdlc_In.thy ===== *)
theory Hdlc_In
  imports Hdlc_Dispatch
begin

text \<open>
  \<open>src/hdlc_in.c\<close>: the octet-by-octet receiver with flag detection, unstuffing, the
  running FCS that lags two octets behind, and the Go-Back-N retransmission made at the
  end of \<open>atc_hdlc_data_in\<close>.
\<close>

section \<open>Retransmission\<close>

text \<open>
  The loop \<open>while (ctx->vs != end_vs)\<close>. Every iteration adds one to \<open>vs\<close> modulo 8, so from
  a \<open>vs\<close> and an \<open>end_vs\<close> below 8 it makes at most seven rounds; \<open>n\<close> bounds them, and
  running out of it would be undefined. A slot is read at
  \<open>slots + (slot_idx * slot_capacity)\<close>, a product of \<open>u32\<close> type.
\<close>

fun retransmit_loop :: "nat \<Rightarrow> atc_hdlc_ctx_t \<Rightarrow> u8 \<Rightarrow> u8 \<Rightarrow> u8 \<Rightarrow> atc_hdlc_ctx_t option" where
  "retransmit_loop 0 c end_vs w slot_idx = (if vs c = end_vs then Some c else None)"
| "retransmit_loop (Suc n) c end_vs w slot_idx =
     (if vs c = end_vs then Some c
      else do {
        tw \<leftarrow> tx_window c;
        sd \<leftarrow> ptr_add (slots tw) (unat (ucast slot_idx * slot_capacity tw));
        slen \<leftarrow> get_at (slot_lens tw) (unat slot_idx);
        c \<leftarrow> frame_send c (peer_address c) (I_CTRL (vs c) (vr c) 0) sd slen;
        let c = c\<lparr>vs := mod8_succ (vs c)\<rparr>;
        slot_idx \<leftarrow> c_mod (uint slot_idx + 1) (uint w);
        retransmit_loop n c end_vs w slot_idx
      })"

definition retransmit_outstanding :: "atc_hdlc_ctx_t \<Rightarrow> atc_hdlc_ctx_t option" where
  "retransmit_outstanding c = do {
     let c = CTX_CLR c HDLC_F_RETRANSMIT_PENDING;
     let end_vs = vs c;
     tw \<leftarrow> tx_window c;
     let w = slot_count tw;
     let outstanding = mod8_dist end_vs (retransmit_from c);
     slot_idx \<leftarrow> c_mod (uint (tx_next_slot c) + uint w - uint outstanding) (uint w);
     let c = c\<lparr>vs := retransmit_from c\<rparr>;
     c \<leftarrow> retransmit_loop 8 c end_vs w slot_idx;
     t1_start c
   }"

section \<open>The receiver\<close>

definition rx_reset :: "rx_state_t \<Rightarrow> atc_hdlc_ctx_t \<Rightarrow> atc_hdlc_ctx_t" where
  "rx_reset st c = c\<lparr>rx_state := st, rx_index := 0, rx_crc := ATC_HDLC_FCS_INIT_VALUE\<rparr>"

definition handle_flag :: "atc_hdlc_ctx_t \<Rightarrow> atc_hdlc_ctx_t option" where
  "handle_flag c =
     (if rx_state c = RX_HUNT \<or> rx_index c < word_of_nat MIN_FRAME_LEN then Some (rx_reset RX_ADDR c)
      else do {
        let dlen = rx_index c - word_of_nat FCS_LEN;
        rb \<leftarrow> rx_buf c;
        lo \<leftarrow> get_at (buffer rb) (unat dlen);
        hi \<leftarrow> get_at (buffer rb) (unat (dlen + 1));
        let rx_fcs = ucast lo OR push_bit 8 (ucast hi);
        if rx_crc c \<noteq> rx_fcs then Some (rx_reset RX_ADDR c)
        else do {
          addr \<leftarrow> get_at (buffer rb) 0;
          ctrl \<leftarrow> get_at (buffer rb) 1;
          (info, info_len) \<leftarrow>
            (if dlen > word_of_nat (ADDR_LEN + CTRL_LEN)
             then do {
               info \<leftarrow> ptr_add (buffer rb) (ADDR_LEN + CTRL_LEN);
               Some (info, ucast (dlen - word_of_nat (ADDR_LEN + CTRL_LEN)) :: u16) }
             else Some (None, 0));
          c \<leftarrow> dispatch_frame c addr ctrl info info_len;
          Some (rx_reset RX_ADDR c)
        }
      })"

text \<open>The tail of \<open>rx_byte\<close>, after flag, escape and hunting have been dealt with.\<close>

definition rx_store :: "atc_hdlc_ctx_t \<Rightarrow> u8 \<Rightarrow> atc_hdlc_ctx_t option" where
  "rx_store c byte = do {
     rb \<leftarrow> rx_buf c;
     if rx_index c \<ge> capacity rb then Some (rx_reset RX_HUNT c)
     else do {
       buf \<leftarrow> put_at (buffer rb) (unat (rx_index c)) byte;
       let c = c\<lparr>rx_buf := Some (rb\<lparr>buffer := buf\<rparr>)\<rparr>;
       c \<leftarrow> (if rx_index c \<ge> word_of_nat FCS_LEN
            then do {
              d \<leftarrow> crc c;
              p \<leftarrow> ptr_add buf (unat (rx_index c - word_of_nat FCS_LEN));
              fcs \<leftarrow> compute d (rx_crc c) p 1;
              Some (c\<lparr>rx_crc := fcs\<rparr>) }
            else Some c);
       let c = c\<lparr>rx_index := rx_index c + 1\<rparr>;
       if rx_index c = 1 then
         (if byte \<noteq> my_address c \<and> byte \<noteq> peer_address c \<and> byte \<noteq> ATC_HDLC_BROADCAST_ADDRESS
          then Some (rx_reset RX_HUNT c)
          else Some (c\<lparr>rx_state := RX_DATA\<rparr>))
       else Some c
     }
   }"

definition rx_byte :: "atc_hdlc_ctx_t \<Rightarrow> u8 \<Rightarrow> atc_hdlc_ctx_t option" where
  "rx_byte c byte =
     (if byte = FLAG then handle_flag c
      else if rx_state c = RX_HUNT then Some c
      else if byte = ESC then Some (c\<lparr>rx_state := RX_ESC\<rparr>)
      else if rx_state c = RX_ESC then rx_store (c\<lparr>rx_state := RX_DATA\<rparr>) (byte XOR XOR_MASK)
      else rx_store c byte)"

text \<open>The loop \<open>for (i = 0; i < len; i++) rx_byte(ctx, data[i])\<close>; \<open>n\<close> iterations are left.\<close>

fun rx_loop :: "atc_hdlc_ctx_t \<Rightarrow> u8 list \<Rightarrow> nat \<Rightarrow> nat \<Rightarrow> atc_hdlc_ctx_t option" where
  "rx_loop c data i 0 = Some c"
| "rx_loop c data i (Suc n) = do {
     b \<leftarrow> get_at (Some data) i;
     c \<leftarrow> rx_byte c b;
     rx_loop c data (Suc i) n
   }"

definition atc_hdlc_data_in :: "atc_hdlc_ctx_t \<Rightarrow> octets \<Rightarrow> u32 \<Rightarrow> atc_hdlc_ctx_t option" where
  "atc_hdlc_data_in c data len = (case data of None \<Rightarrow> Some c
     | Some xs \<Rightarrow> do {
         c \<leftarrow> rx_loop c xs 0 (unat len);
         if CTX_FLAG c HDLC_F_RETRANSMIT_PENDING then retransmit_outstanding c else Some c
       })"

end
