(* ===== verification/Hdlc_Station.thy ===== *)
theory Hdlc_Station
  imports Hdlc_Out Hdlc_In
begin

text \<open>
  \<open>src/hdlc_station.c\<close>: initialisation, link set-up and tear-down, local busy, the two
  timer entry points and abort, for a context that is not \<open>NULL\<close>.
\<close>

section \<open>Initialisation\<close>

definition is_null :: "'a option \<Rightarrow> bool" where
  "is_null p = (case p of None \<Rightarrow> True | Some _ \<Rightarrow> False)"

text \<open>The checks of \<open>atc_hdlc_init\<close> on the optional transmit window.\<close>

definition txwin_error :: "atc_hdlc_config_t \<Rightarrow> atc_hdlc_txwin_t option \<Rightarrow> atc_hdlc_error_t option" where
  "txwin_error cfg tw = (case tw of None \<Rightarrow> None
     | Some w \<Rightarrow>
         if is_null (slots w) \<or> is_null (slot_lens w) then Some ATC_HDLC_ERR_BAD_BUF
         else if slot_count w < 1 \<or> slot_count w > 7 then Some ATC_HDLC_ERR_BAD_PARAM
         else if slot_capacity w < max_info_size cfg then Some ATC_HDLC_ERR_BAD_BUF
         else None)"

text \<open>The context after \<open>memset\<close>; calls made earlier stay made.\<close>

definition zero_ctx :: "atc_hdlc_ctx_t \<Rightarrow> atc_hdlc_ctx_t" where
  "zero_ctx c = \<lparr>config = None, platform = None, crc = None, tx_window = None, rx_buf = None,
     current_state = ATC_HDLC_STATE_DISCONNECTED, rx_index = 0, rx_crc = 0, tx_crc = 0,
     rx_state = RX_HUNT, retransmit_from = 0, tx_next_slot = 0, my_address = 0, peer_address = 0,
     vs = 0, vr = 0, va = 0, n2 = 0, frmr_ctrl = 0, frmr_flags = 0, flags = 0, trace = trace c\<rparr>"

definition atc_hdlc_init :: "atc_hdlc_ctx_t \<Rightarrow> atc_hdlc_params_t \<Rightarrow> atc_hdlc_ctx_t \<times> atc_hdlc_error_t" where
  "atc_hdlc_init c params = (case (p_config params, p_platform params, p_rx_buf params) of
       (Some cfg, Some plt, Some rb) \<Rightarrow>
         if \<not> has_on_send plt then (c, ATC_HDLC_ERR_BAD_PARAM)
         else if is_null (buffer rb) then (c, ATC_HDLC_ERR_BAD_PARAM)
         else if mode cfg \<noteq> ATC_HDLC_MODE_ABM then (c, ATC_HDLC_ERR_BAD_MODE)
         else
           let min_cap = max_info_size cfg + word_of_nat ADDR_LEN + word_of_nat CTRL_LEN
                 + word_of_nat FCS_LEN in
           if capacity rb < min_cap \<or> capacity rb < word_of_nat MIN_FRAME_LEN
           then (c, ATC_HDLC_ERR_BAD_BUF)
           else (case txwin_error cfg (p_tx_window params) of Some e \<Rightarrow> (c, e)
             | None \<Rightarrow>
                 let c = zero_ctx c;
                     c = c\<lparr>config := Some cfg, platform := Some plt,
                       crc := (case p_crc params of Some d \<Rightarrow> Some d
                               | None \<Rightarrow> Some atc_hdlc_crc_ops_default),
                       tx_window := p_tx_window params, rx_buf := Some rb\<rparr>;
                     c = c\<lparr>my_address := cfg_address cfg, rx_state := RX_HUNT,
                       rx_crc := ATC_HDLC_FCS_INIT_VALUE\<rparr>
                 in (c, ATC_HDLC_OK))
     | _ \<Rightarrow> (c, ATC_HDLC_ERR_BAD_PARAM))"

section \<open>Link management\<close>

definition atc_hdlc_link_setup :: "atc_hdlc_ctx_t \<Rightarrow> u8 \<Rightarrow> atc_hdlc_error_t api" where
  "atc_hdlc_link_setup c peer_addr =
     (if current_state c \<noteq> ATC_HDLC_STATE_DISCONNECTED then Some (c, ATC_HDLC_ERR_BAD_STATE)
      else do {
        let c = c\<lparr>peer_address := peer_addr\<rparr>;
        c \<leftarrow> send_u c (peer_address c) (U_CTRL U_SABM 1);
        c \<leftarrow> t1_start c;
        c \<leftarrow> set_state c ATC_HDLC_STATE_CONNECTING ATC_HDLC_EVENT_SETUP_REQ;
        Some (c, ATC_HDLC_OK)
      })"

definition atc_hdlc_disconnect :: "atc_hdlc_ctx_t \<Rightarrow> atc_hdlc_error_t api" where
  "atc_hdlc_disconnect c =
     (if current_state c \<noteq> ATC_HDLC_STATE_CONNECTED \<and> current_state c \<noteq> ATC_HDLC_STATE_FRMR_ERROR
      then Some (c, ATC_HDLC_ERR_BAD_STATE)
      else do {
        c \<leftarrow> send_u c (peer_address c) (U_CTRL U_DISC 1);
        c \<leftarrow> t1_start c;
        c \<leftarrow> set_state c ATC_HDLC_STATE_DISCONNECTING ATC_HDLC_EVENT_DISC_REQ;
        Some (c, ATC_HDLC_OK)
      })"

definition atc_hdlc_link_reset :: "atc_hdlc_ctx_t \<Rightarrow> atc_hdlc_error_t api" where
  "atc_hdlc_link_reset c = do {
     c \<leftarrow> reset_state c;
     c \<leftarrow> send_u c (peer_address c) (U_CTRL U_SABM 1);
     c \<leftarrow> t1_start c;
     c \<leftarrow> set_state c ATC_HDLC_STATE_CONNECTING ATC_HDLC_EVENT_RESET;
     Some (c, ATC_HDLC_OK)
   }"

definition atc_hdlc_set_local_busy :: "atc_hdlc_ctx_t \<Rightarrow> bool \<Rightarrow> atc_hdlc_error_t api" where
  "atc_hdlc_set_local_busy c busy =
     (if current_state c \<noteq> ATC_HDLC_STATE_CONNECTED then Some (c, ATC_HDLC_ERR_BAD_STATE)
      else if busy \<and> \<not> CTX_FLAG c HDLC_F_LOCAL_BUSY then
        Some (CTX_SET c HDLC_F_LOCAL_BUSY, ATC_HDLC_OK)
      else if \<not> busy \<and> CTX_FLAG c HDLC_F_LOCAL_BUSY then do {
        let c = CTX_CLR c HDLC_F_LOCAL_BUSY;
        c \<leftarrow> send_rr c 0;
        Some (c, ATC_HDLC_OK) }
      else Some (c, ATC_HDLC_OK))"

section \<open>Timers\<close>

definition atc_hdlc_t1_expired :: "atc_hdlc_ctx_t \<Rightarrow> atc_hdlc_ctx_t option" where
  "atc_hdlc_t1_expired c = do {
     let c = CTX_CLR c HDLC_F_T1_ACTIVE;
     let max_r = (case config c of Some cfg \<Rightarrow> max_retries cfg | None \<Rightarrow> 0);
     let c = c\<lparr>n2 := n2 c + 1\<rparr>;
     if max_r > 0 \<and> n2 c > max_r then do {
       c \<leftarrow> set_state c ATC_HDLC_STATE_DISCONNECTED ATC_HDLC_EVENT_LINK_FAILURE;
       reset_state c }
     else (case current_state c of
         ATC_HDLC_STATE_CONNECTING \<Rightarrow> do {
           c \<leftarrow> send_u c (peer_address c) (U_CTRL U_SABM 1);
           t1_start c }
       | ATC_HDLC_STATE_DISCONNECTING \<Rightarrow> do {
           c \<leftarrow> send_u c (peer_address c) (U_CTRL U_DISC 1);
           t1_start c }
       | ATC_HDLC_STATE_CONNECTED \<Rightarrow>
           (if va c \<noteq> vs c then do {
              c \<leftarrow> (if CTX_FLAG c HDLC_F_LOCAL_BUSY then send_rnr c 1 else send_rr c 1);
              t1_start c }
            else Some c)
       | ATC_HDLC_STATE_FRMR_ERROR \<Rightarrow> do { c \<leftarrow> retransmit_frmr c; t1_start c }
       | ATC_HDLC_STATE_DISCONNECTED \<Rightarrow> Some c)
   }"

definition atc_hdlc_t2_expired :: "atc_hdlc_ctx_t \<Rightarrow> atc_hdlc_ctx_t option" where
  "atc_hdlc_t2_expired c = do {
     let c = CTX_CLR c HDLC_F_T2_ACTIVE;
     if CTX_FLAG c HDLC_F_LOCAL_BUSY then send_rnr c 0 else send_rr c 0
   }"

definition atc_hdlc_get_state :: "atc_hdlc_ctx_t \<Rightarrow> atc_hdlc_state_t" where
  "atc_hdlc_get_state c = current_state c"

definition atc_hdlc_abort :: "atc_hdlc_ctx_t \<Rightarrow> atc_hdlc_ctx_t option" where
  "atc_hdlc_abort c = do {
     let c = (case platform c of None \<Rightarrow> c
       | Some p \<Rightarrow> callback_if (has_on_send p) (On_send FLAG True)
                    (callback_if (has_on_send p) (On_send FLAG False) c));
     c \<leftarrow> reset_state c;
     let c = c\<lparr>rx_state := RX_HUNT\<rparr>;
     Some (c\<lparr>current_state := ATC_HDLC_STATE_DISCONNECTED\<rparr>)
   }"

end
