(* ===== verification/Hdlc_Safety.thy ===== *)
theory Hdlc_Safety
  imports Hdlc_Station
begin

text \<open>
  The invariant of the station and the absence of undefined behaviour. \<open>core\<close> is what
  holds between any two octets; \<open>settled\<close> adds that no retransmission is pending, which
  holds between any two calls of the interface.
\<close>

section \<open>The invariant\<close>

abbreviation pending :: "atc_hdlc_ctx_t \<Rightarrow> bool" where
  "pending c \<equiv> CTX_FLAG c HDLC_F_RETRANSMIT_PENDING"

text \<open>Frames sent and not acknowledged: the distance from \<open>va\<close> to \<open>vs\<close> modulo 8.\<close>

definition dist8 :: "u8 \<Rightarrow> u8 \<Rightarrow> nat" where
  "dist8 a b = (unat a + 8 - unat b) mod 8"

definition out_count :: "atc_hdlc_ctx_t \<Rightarrow> nat" where
  "out_count c = dist8 (vs c) (va c)"

text \<open>
  The transmit window as its documentation asks for it: \<open>slot_count\<close> payloads of
  \<open>slot_capacity\<close> octets, one length per slot, at most 2^32 octets in all.
\<close>

definition win_geom :: "atc_hdlc_txwin_t \<Rightarrow> bool" where
  "win_geom w \<longleftrightarrow> (case (slots w, slot_lens w) of
       (Some ss, Some ls) \<Rightarrow> 1 \<le> unat (slot_count w) \<and> unat (slot_count w) \<le> 7
         \<and> unat (slot_count w) * unat (slot_capacity w) \<le> length ss
         \<and> unat (slot_count w) * unat (slot_capacity w) < 2 ^ 32
         \<and> unat (slot_count w) \<le> length ls
     | _ \<Rightarrow> False)"

definition lens_ok :: "atc_hdlc_txwin_t \<Rightarrow> bool" where
  "lens_ok w \<longleftrightarrow> (case slot_lens w of None \<Rightarrow> False
     | Some ls \<Rightarrow> list_all (\<lambda>n. n \<le> slot_capacity w) (take (unat (slot_count w)) ls))"

definition rx_geom :: "atc_hdlc_ctx_t \<Rightarrow> bool" where
  "rx_geom c \<longleftrightarrow> (case rx_buf c of None \<Rightarrow> False
     | Some rb \<Rightarrow> (case buffer rb of None \<Rightarrow> False
         | Some xs \<Rightarrow> unat (capacity rb) \<le> length xs \<and> unat (rx_index c) \<le> unat (capacity rb)))"

definition seq_ok :: "atc_hdlc_ctx_t \<Rightarrow> bool" where
  "seq_ok c \<longleftrightarrow> unat (vs c) < 8 \<and> unat (vr c) < 8 \<and> unat (va c) < 8"

definition tx_ok :: "atc_hdlc_ctx_t \<Rightarrow> bool" where
  "tx_ok c \<longleftrightarrow> (case tx_window c of None \<Rightarrow> vs c = va c
     | Some w \<Rightarrow> win_geom w \<and> tx_next_slot c < slot_count w \<and> out_count c \<le> unat (slot_count w)
         \<and> (lens_ok w \<or> vs c = va c \<and> \<not> pending c \<and> current_state c \<noteq> ATC_HDLC_STATE_CONNECTED))"

definition core :: "atc_hdlc_ctx_t \<Rightarrow> bool" where
  "core c \<longleftrightarrow> ready c \<and> rx_geom c \<and> seq_ok c \<and> tx_ok c"

text \<open>A retransmission that can be carried out: it goes back at most over the window.\<close>

definition retx_ok :: "atc_hdlc_ctx_t \<Rightarrow> bool" where
  "retx_ok c \<longleftrightarrow> (case tx_window c of None \<Rightarrow> False
     | Some w \<Rightarrow> unat (retransmit_from c) < 8
         \<and> (dist8 (vs c) (retransmit_from c) \<le> unat (slot_count w) \<or> slot_count w = 1))"

definition settled :: "atc_hdlc_ctx_t \<Rightarrow> bool" where
  "settled c \<longleftrightarrow> core c \<and> \<not> pending c"

text \<open>Fields that no frame handler changes.\<close>

definition same_env :: "atc_hdlc_ctx_t \<Rightarrow> atc_hdlc_ctx_t \<Rightarrow> bool" where
  "same_env c c' \<longleftrightarrow> config c' = config c \<and> platform c' = platform c \<and> crc c' = crc c
     \<and> rx_buf c' = rx_buf c \<and> rx_index c' = rx_index c \<and> rx_crc c' = rx_crc c
     \<and> rx_state c' = rx_state c \<and> my_address c' = my_address c \<and> peer_address c' = peer_address c
     \<and> map_option slot_count (tx_window c') = map_option slot_count (tx_window c)
     \<and> map_option slots (tx_window c') = map_option slots (tx_window c)"

text \<open>What one frame may do to a retransmission request.\<close>

definition retx_step :: "atc_hdlc_ctx_t \<Rightarrow> atc_hdlc_ctx_t \<Rightarrow> bool" where
  "retx_step c c' \<longleftrightarrow> (pending c' \<longrightarrow> retx_ok c' \<or>
     pending c \<and> retransmit_from c' = retransmit_from c)"

lemma dist8_self [simp]: "dist8 a a = 0"
  by (simp add: dist8_def)

lemma dist8_less: "dist8 a b < 8"
  by (simp add: dist8_def)

lemma dist8_0: "unat a < 8 \<Longrightarrow> unat b < 8 \<Longrightarrow> dist8 a b = 0 \<longleftrightarrow> a = b"
  by (auto simp: dist8_def word_unat_eq_iff mod_if)

lemma dist8_word:
  assumes "unat a < 8" "unat b < 8"
  shows "unat (mod8_dist a b) = dist8 a b" "unat (mask8_dist a b) = dist8 a b"
  using assms by (simp_all add: dist8_def unat_mod8_dist unat_mask8_dist)

lemma dist8_if:
  "unat a < 8 \<Longrightarrow> unat b < 8 \<Longrightarrow>
   dist8 a b = (if unat b \<le> unat a then unat a - unat b else unat a + 8 - unat b)"
  by (simp add: dist8_def mod_if)

text \<open>Acknowledging up to an \<open>nr\<close> in the window leaves the frames from \<open>nr\<close> on.\<close>

lemma dist8_ack:
  "unat a < 8 \<Longrightarrow> unat b < 8 \<Longrightarrow> unat n < 8 \<Longrightarrow> dist8 n a \<le> dist8 b a \<Longrightarrow>
   dist8 b n = dist8 b a - dist8 n a"
  by (simp add: dist8_if split: if_splits)

lemma zero_lens_fields [simp]:
  "slots (zero_lens w) = slots w" "slot_count (zero_lens w) = slot_count w"
  "slot_capacity (zero_lens w) = slot_capacity w"
  by (simp_all add: zero_lens_def split: option.split)

lemma win_geom_zero_lens [simp]: "win_geom w \<Longrightarrow> win_geom (zero_lens w)"
  by (auto simp: win_geom_def zero_lens_def split: option.splits)

lemma lens_ok_zero_lens [simp]: "win_geom w \<Longrightarrow> lens_ok (zero_lens w)"
  by (auto simp: win_geom_def lens_ok_def zero_lens_def list_all_iff split: option.splits)

lemma win_geom_lens: "win_geom w \<Longrightarrow> \<exists>ss ls. slots w = Some ss \<and> slot_lens w = Some ls"
  by (auto simp: win_geom_def split: option.splits)

lemma core_ready [simp]: "core c \<Longrightarrow> ready c"
  unfolding core_def by blast

lemma coreD: "core c \<Longrightarrow> rx_geom c" "core c \<Longrightarrow> seq_ok c" "core c \<Longrightarrow> tx_ok c"
  unfolding core_def by blast+

lemma coreI: "ready c \<Longrightarrow> rx_geom c \<Longrightarrow> seq_ok c \<Longrightarrow> tx_ok c \<Longrightarrow> core c"
  unfolding core_def by blast

lemma core_lens_fit [simp]: "core c \<Longrightarrow> lens_fit c"
  using coreD(3) [of c] by (auto simp: tx_ok_def lens_fit_def win_geom_def split: option.splits)

definition win_good :: "atc_hdlc_ctx_t \<Rightarrow> bool" where
  "win_good c \<longleftrightarrow> (case tx_window c of None \<Rightarrow> True | Some w \<Rightarrow> lens_ok w)"

section \<open>How the invariant moves through updates\<close>

lemma rx_geom_updates [simp]:
  "rx_geom (say c xs) = rx_geom c" "rx_geom (CTX_SET c f) = rx_geom c"
  "rx_geom (CTX_CLR c f) = rx_geom c" "rx_geom (reset_fields c) = rx_geom c"
  "rx_geom (c\<lparr>tx_crc := x0\<rparr>) = rx_geom c"
  "rx_geom (c\<lparr>n2 := x1\<rparr>) = rx_geom c"
  "rx_geom (c\<lparr>frmr_ctrl := x2\<rparr>) = rx_geom c"
  "rx_geom (c\<lparr>frmr_flags := x3\<rparr>) = rx_geom c"
  "rx_geom (c\<lparr>rx_crc := x4\<rparr>) = rx_geom c"
  "rx_geom (c\<lparr>rx_state := x5\<rparr>) = rx_geom c"
  "rx_geom (c\<lparr>my_address := x6\<rparr>) = rx_geom c"
  "rx_geom (c\<lparr>peer_address := x7\<rparr>) = rx_geom c"
  "rx_geom (c\<lparr>current_state := x8\<rparr>) = rx_geom c"
  "rx_geom (c\<lparr>vs := x9\<rparr>) = rx_geom c"
  "rx_geom (c\<lparr>vr := x10\<rparr>) = rx_geom c"
  "rx_geom (c\<lparr>va := x11\<rparr>) = rx_geom c"
  "rx_geom (c\<lparr>retransmit_from := x12\<rparr>) = rx_geom c"
  "rx_geom (c\<lparr>tx_next_slot := x13\<rparr>) = rx_geom c"
  "rx_geom (c\<lparr>tx_window := x14\<rparr>) = rx_geom c"
  unfolding rx_geom_def by (simp_all cong: option.case_cong)

lemma seq_ok_updates [simp]:
  "seq_ok (say c xs) = seq_ok c" "seq_ok (CTX_SET c f) = seq_ok c"
  "seq_ok (CTX_CLR c f) = seq_ok c" "seq_ok (reset_fields c)"
  "seq_ok (c\<lparr>tx_crc := x0\<rparr>) = seq_ok c"
  "seq_ok (c\<lparr>n2 := x1\<rparr>) = seq_ok c"
  "seq_ok (c\<lparr>frmr_ctrl := x2\<rparr>) = seq_ok c"
  "seq_ok (c\<lparr>frmr_flags := x3\<rparr>) = seq_ok c"
  "seq_ok (c\<lparr>rx_crc := x4\<rparr>) = seq_ok c"
  "seq_ok (c\<lparr>rx_state := x5\<rparr>) = seq_ok c"
  "seq_ok (c\<lparr>my_address := x6\<rparr>) = seq_ok c"
  "seq_ok (c\<lparr>peer_address := x7\<rparr>) = seq_ok c"
  "seq_ok (c\<lparr>current_state := x8\<rparr>) = seq_ok c"
  "seq_ok (c\<lparr>retransmit_from := x9\<rparr>) = seq_ok c"
  "seq_ok (c\<lparr>tx_next_slot := x10\<rparr>) = seq_ok c"
  "seq_ok (c\<lparr>tx_window := x11\<rparr>) = seq_ok c"
  "seq_ok (c\<lparr>rx_index := x12\<rparr>) = seq_ok c"
  "seq_ok (c\<lparr>rx_buf := x13\<rparr>) = seq_ok c"
  unfolding seq_ok_def by simp_all

lemma core_updates [simp]:
  "core (say c xs) = core c"
  "core (c\<lparr>tx_crc := x0\<rparr>) = core c"
  "core (c\<lparr>n2 := x1\<rparr>) = core c"
  "core (c\<lparr>frmr_ctrl := x2\<rparr>) = core c"
  "core (c\<lparr>frmr_flags := x3\<rparr>) = core c"
  "core (c\<lparr>rx_crc := x4\<rparr>) = core c"
  "core (c\<lparr>rx_state := x5\<rparr>) = core c"
  "core (c\<lparr>my_address := x6\<rparr>) = core c"
  "core (c\<lparr>peer_address := x7\<rparr>) = core c"
  "f AND HDLC_F_RETRANSMIT_PENDING = 0 \<Longrightarrow> core (CTX_SET c f) = core c"
  "f AND HDLC_F_RETRANSMIT_PENDING = 0 \<Longrightarrow> core (CTX_CLR c f) = core c"
  unfolding core_def rx_geom_def seq_ok_def tx_ok_def out_count_def
  by (simp_all cong: option.case_cong)

lemma win_good_updates [simp]:
  "win_good (say c xs) = win_good c"
  "win_good (c\<lparr>tx_crc := x0\<rparr>) = win_good c"
  "win_good (c\<lparr>n2 := x1\<rparr>) = win_good c"
  "win_good (c\<lparr>frmr_ctrl := x2\<rparr>) = win_good c"
  "win_good (c\<lparr>frmr_flags := x3\<rparr>) = win_good c"
  "win_good (c\<lparr>rx_crc := x4\<rparr>) = win_good c"
  "win_good (c\<lparr>rx_state := x5\<rparr>) = win_good c"
  "win_good (c\<lparr>my_address := x6\<rparr>) = win_good c"
  "win_good (c\<lparr>peer_address := x7\<rparr>) = win_good c"
  "win_good (c\<lparr>va := x8\<rparr>) = win_good c"
  "win_good (c\<lparr>vs := x9\<rparr>) = win_good c"
  "win_good (c\<lparr>vr := x10\<rparr>) = win_good c"
  "win_good (c\<lparr>current_state := x11\<rparr>) = win_good c"
  "win_good (c\<lparr>retransmit_from := x12\<rparr>) = win_good c"
  "win_good (CTX_SET c f) = win_good c" "win_good (CTX_CLR c f) = win_good c"
  unfolding win_good_def by simp_all

lemma core_win_good: "core c \<Longrightarrow> current_state c = ATC_HDLC_STATE_CONNECTED \<Longrightarrow> win_good c"
  using coreD(3) [of c] by (auto simp: tx_ok_def win_good_def split: option.splits)

lemma core_pending_good: "core c \<Longrightarrow> pending c \<Longrightarrow> win_good c"
  using coreD(3) [of c] by (auto simp: tx_ok_def win_good_def split: option.splits)

lemma core_win_geom: "core c \<Longrightarrow> tx_window c = Some w \<Longrightarrow> win_geom w"
  using coreD(3) [of c] by (auto simp: tx_ok_def)

lemma core_state:
  assumes "core c" "st \<noteq> ATC_HDLC_STATE_CONNECTED \<or> win_good c"
  shows "core (c\<lparr>current_state := st\<rparr>)"
proof (rule coreI)
  show "tx_ok (c\<lparr>current_state := st\<rparr>)"
    using coreD(3) [OF assms(1)] assms(2)
    by (auto simp: tx_ok_def win_good_def out_count_def split: option.splits)
qed (use coreD [OF assms(1)] assms(1) in simp_all)

lemma core_vr: "core c \<Longrightarrow> unat x < 8 \<Longrightarrow> core (c\<lparr>vr := x\<rparr>)"
  unfolding core_def by (simp add: rx_geom_def seq_ok_def tx_ok_def out_count_def cong: option.case_cong)

lemma core_ack:
  assumes "core c" "unat nr < 8" "dist8 nr (va c) \<le> out_count c"
  shows "core (c\<lparr>va := nr\<rparr>)"
proof (rule coreI)
  have seq: "unat (vs c) < 8" "unat (va c) < 8"
    using coreD(2) [OF assms(1)] by (simp_all add: seq_ok_def)
  have d: "dist8 (vs c) nr = out_count c - dist8 nr (va c)"
    using dist8_ack [of "va c" "vs c" nr] assms seq by (simp add: out_count_def)
  show "tx_ok (c\<lparr>va := nr\<rparr>)"
    using coreD(3) [OF assms(1)] assms(2,3) d seq dist8_0 [of nr "va c"]
    by (auto simp: tx_ok_def out_count_def split: option.splits)
qed (use coreD [OF assms(1)] assms in \<open>simp_all add: seq_ok_def\<close>)

lemma core_trigger:
  assumes "core c" "win_good c"
  shows "core (trigger_retransmit c n)"
proof -
  have "core (c\<lparr>retransmit_from := n\<rparr>)"
    using assms(1) unfolding core_def
    by (simp add: rx_geom_def seq_ok_def tx_ok_def out_count_def cong: option.case_cong)
  then have "core (CTX_SET (c\<lparr>retransmit_from := n\<rparr>) HDLC_F_RETRANSMIT_PENDING)"
    using assms(2) unfolding core_def
    by (auto simp: rx_geom_def seq_ok_def tx_ok_def out_count_def win_good_def split: option.splits)
  with assms(1) show ?thesis
    by (simp add: trigger_retransmit_def)
qed

lemma core_reset [simp]: "core c \<Longrightarrow> core (reset_fields c)"
proof (rule coreI)
  assume c: "core c"
  show "tx_ok (reset_fields c)"
  proof (cases "tx_window c")
    case (Some w)
    with c have w: "win_geom w" by (rule core_win_geom)
    then have "0 < slot_count w"
      by (auto simp: win_geom_def word_less_nat_alt split: option.splits)
    with Some w show ?thesis by (simp add: tx_ok_def out_count_def)
  qed (simp add: tx_ok_def)
qed (use coreD in simp_all)

lemma win_good_reset [simp]: "core c \<Longrightarrow> win_good (reset_fields c)"
  using core_win_geom [of c] by (cases "tx_window c") (simp_all add: win_good_def)

lemma same_env_updates [simp]:
  "same_env c (say c' xs) = same_env c c'" "same_env c (CTX_SET c' f) = same_env c c'"
  "same_env c (CTX_CLR c' f) = same_env c c'" "same_env c (reset_fields c') = same_env c c'"
  "same_env c (c'\<lparr>tx_crc := x0\<rparr>) = same_env c c'"
  "same_env c (c'\<lparr>n2 := x1\<rparr>) = same_env c c'"
  "same_env c (c'\<lparr>frmr_ctrl := x2\<rparr>) = same_env c c'"
  "same_env c (c'\<lparr>frmr_flags := x3\<rparr>) = same_env c c'"
  "same_env c (c'\<lparr>current_state := x4\<rparr>) = same_env c c'"
  "same_env c (c'\<lparr>vs := x5\<rparr>) = same_env c c'"
  "same_env c (c'\<lparr>vr := x6\<rparr>) = same_env c c'"
  "same_env c (c'\<lparr>va := x7\<rparr>) = same_env c c'"
  "same_env c (c'\<lparr>retransmit_from := x8\<rparr>) = same_env c c'"
  "same_env c (c'\<lparr>tx_next_slot := x9\<rparr>) = same_env c c'"
  unfolding same_env_def by (simp_all add: option.map_comp comp_def)

lemma retx_ok_updates [simp]:
  "retx_ok (say c xs) = retx_ok c" "retx_ok (CTX_SET c f) = retx_ok c" "retx_ok (CTX_CLR c f) = retx_ok c"
  "retx_ok (c\<lparr>rx_index := x0\<rparr>) = retx_ok c"
  "retx_ok (c\<lparr>rx_crc := x1\<rparr>) = retx_ok c"
  "retx_ok (c\<lparr>rx_state := x2\<rparr>) = retx_ok c"
  "retx_ok (c\<lparr>rx_buf := x3\<rparr>) = retx_ok c"
  unfolding retx_ok_def by (simp_all cong: option.case_cong)

lemma same_env_refl [simp]: "same_env c c"
  by (simp add: same_env_def)

lemma same_env_trans: "same_env a b \<Longrightarrow> same_env b c \<Longrightarrow> same_env a c"
  by (simp add: same_env_def)

section \<open>Frame handlers keep the invariant\<close>

text \<open>The information field a handler gets: as long as its length says, or absent.\<close>

definition info_ok :: "octets \<Rightarrow> u16 \<Rightarrow> bool" where
  "info_ok info n \<longleftrightarrow> (case info of None \<Rightarrow> n = 0 | Some xs \<Rightarrow> unat n \<le> length xs)"

definition frame_post :: "atc_hdlc_ctx_t \<Rightarrow> atc_hdlc_ctx_t \<Rightarrow> bool" where
  "frame_post c c' \<longleftrightarrow> core c' \<and> same_env c c' \<and> retx_step c c'"

lemma retx_step_quiet:
  "pending c' = pending c \<Longrightarrow> retransmit_from c' = retransmit_from c \<Longrightarrow> retx_step c c'"
  by (simp add: retx_step_def)

lemma frame_send_info_run:
  assumes "ready c" "info_ok info n"
  shows "\<exists>xs. frame_send c addr ctrl info (ucast n) =
     Some (say (c\<lparr>tx_crc := driver_fcs (drv c) (addr # ctrl # xs)\<rparr>) (frame_calls (drv c) addr ctrl xs))"
proof (cases info)
  case None
  with assms show ?thesis by (auto simp: info_ok_def frame_send_null_run)
next
  case (Some xs)
  with Some assms show ?thesis
    by (auto simp: info_ok_def intro!: exI [of _ "take (unat n) xs"] frame_send_run [of c "ucast n" xs, simplified])
qed

lemma state_disconnected_post:
  "core c \<Longrightarrow> runs (state_disconnected c addr ctrl info n) (frame_post c)"
  by (auto simp: state_disconnected_def hdlc_run Let_def frame_post_def core_state retx_step_def)

lemma state_connecting_post:
  "core c \<Longrightarrow> runs (state_connecting c addr ctrl info n) (frame_post c)"
  by (auto simp: state_connecting_def hdlc_run Let_def frame_post_def core_state retx_step_def)
lemma state_disconnecting_post:
  "core c \<Longrightarrow> runs (state_disconnecting c addr ctrl info n) (frame_post c)"
  by (auto simp: state_disconnecting_def hdlc_run Let_def frame_post_def core_state retx_step_def)

lemma state_frmr_error_post:
  "core c \<Longrightarrow> runs (state_frmr_error c addr ctrl info n) (frame_post c)"
  by (auto simp: state_frmr_error_def hdlc_run Let_def frame_post_def core_state retx_step_def)

lemma CTRL_NR_less: "unat (CTRL_NR x) < 8"
proof -
  have "CTRL_NR x = take_bit 3 (drop_bit 5 x)"
    by (simp add: CTRL_NR_def take_bit_eq_mask mask_eq_exp_minus_1)
  then show ?thesis
    using take_bit_nat_less_exp [of 3 "unat (drop_bit 5 x)"] by (simp add: unsigned_take_bit_eq)
qed

lemma mod8_succ_less [simp]: "unat (mod8_succ x) < 8"
  by (simp add: unat_mod8_succ)

text \<open>An acknowledgement that lies in the window.\<close>

definition acceptable :: "atc_hdlc_ctx_t \<Rightarrow> u8 \<Rightarrow> bool" where
  "acceptable c nr \<longleftrightarrow> unat nr < 8 \<and> dist8 nr (va c) \<le> out_count c"

lemma validate_nr_guard:
  "core c \<Longrightarrow> unat nr < 8 \<Longrightarrow>
   mask8_dist nr (va c) \<le> mask8_dist (vs c) (va c) \<longleftrightarrow> acceptable c nr"
  using coreD(2) [of c]
  by (simp add: acceptable_def out_count_def seq_ok_def word_le_nat_alt dist8_word)

lemma no_window_idle: "core c \<Longrightarrow> tx_window c = None \<Longrightarrow> vs c = va c"
  using coreD(3) [of c] by (simp add: tx_ok_def)

lemma acceptable_no_window:
  "core c \<Longrightarrow> acceptable c nr \<Longrightarrow> nr \<noteq> va c \<Longrightarrow> \<exists>w. tx_window c = Some w"
  using no_window_idle [of c] coreD(2) [of c] dist8_0 [of nr "va c"]
  by (cases "tx_window c") (auto simp: acceptable_def out_count_def seq_ok_def)

lemma frames_acked_post:
  assumes "core c" "acceptable c nr"
  shows "runs (frames_acked c nr) (\<lambda>c'. frame_post c c' \<and> va c' = nr \<and> vs c' = vs c
     \<and> current_state c' = current_state c \<and> pending c' = pending c \<and> retransmit_from c' = retransmit_from c
     \<and> tx_window c' = tx_window c)"
proof (cases "nr = va c")
  case True
  with assms show ?thesis
    by (simp add: frames_acked_def frame_post_def retx_step_def)
next
  case False
  then obtain w where w: "tx_window c = Some w"
    using assms acceptable_no_window by blast
  have "core (c\<lparr>va := nr\<rparr>)"
    using assms by (auto simp: acceptable_def intro: core_ack)
  with False w assms(1) show ?thesis
    by (simp add: frames_acked_def Let_def hdlc_run frame_post_def retx_step_def)
qed

lemma runs_Some_exists: "runs m Q \<Longrightarrow> \<exists>x. m = Some x \<and> Q x"
  by (simp add: runs_iff)

lemma process_nr_post:
  assumes "core c" "acceptable c nr"
  shows "runs (process_nr c nr) (\<lambda>c'. frame_post c c' \<and> va c' = nr \<and> vs c' = vs c
     \<and> current_state c' = current_state c \<and> pending c' = pending c \<and> retransmit_from c' = retransmit_from c
     \<and> tx_window c' = tx_window c)"
proof -
  obtain c' where c': "frames_acked c nr = Some c'" "frame_post c c'" "va c' = nr" "vs c' = vs c"
    "current_state c' = current_state c" "pending c' = pending c" "retransmit_from c' = retransmit_from c"
    "tx_window c' = tx_window c"
    using runs_Some_exists [OF frames_acked_post [OF assms]] by blast
  then have "core c'" "same_env c c'" by (simp_all add: frame_post_def)
  with c' assms(1) show ?thesis
    by (simp add: process_nr_def hdlc_run frame_post_def retx_step_def)
qed

lemma validate_nr_post:
  assumes "core c" "unat nr < 8"
  shows "runs (validate_nr c ctrl nr) (\<lambda>(c', ok). frame_post c c' \<and> ok = acceptable c nr
     \<and> (ok \<longrightarrow> c' = c))"
  using assms
  by (simp add: validate_nr_def validate_nr_guard Let_def hdlc_run send_frmr_def frame_post_def
      core_state retx_step_def)

lemma validate_nr_cases:
  assumes "core c"
  obtains c' ok where "validate_nr c ctrl (CTRL_NR ctrl) = Some (c', ok)" "frame_post c c'"
      "ok = acceptable c (CTRL_NR ctrl)" "ok \<longrightarrow> c' = c"
proof -
  have "runs (validate_nr c ctrl (CTRL_NR ctrl)) (\<lambda>(c', ok). frame_post c c'
      \<and> ok = acceptable c (CTRL_NR ctrl) \<and> (ok \<longrightarrow> c' = c))"
    using assms CTRL_NR_less by (rule validate_nr_post)
  with that show thesis by (auto simp: runs_iff)
qed

lemma frame_post_trans:
  assumes "frame_post a b" "frame_post b c" "pending b = pending a \<and> retransmit_from b = retransmit_from a"
  shows "frame_post a c"
  using assms by (auto simp: frame_post_def retx_step_def intro: same_env_trans)

lemma handle_in_sequence_iframe_post:
  "core c \<Longrightarrow> runs (handle_in_sequence_iframe c pf info n) (frame_post c)"
  by (simp add: handle_in_sequence_iframe_def Let_def hdlc_run frame_post_def core_vr retx_step_def)

lemma handle_out_of_sequence_iframe_post:
  "core c \<Longrightarrow> runs (handle_out_of_sequence_iframe c ns pf) (frame_post c)"
  by (simp add: handle_out_of_sequence_iframe_def Let_def hdlc_run frame_post_def retx_step_def)

lemma handle_iframe_post:
  assumes "core c"
  shows "runs (handle_iframe c ctrl info n) (frame_post c)"
proof -
  obtain c' ok where v: "validate_nr c ctrl (CTRL_NR ctrl) = Some (c', ok)" "frame_post c c'"
      "ok = acceptable c (CTRL_NR ctrl)" "ok \<longrightarrow> c' = c"
    by (rule validate_nr_cases [OF assms])
  show ?thesis
  proof (cases ok)
    case False
    with v show ?thesis by (simp add: handle_iframe_def Let_def)
  next
    case True
    with v have acc: "acceptable c (CTRL_NR ctrl)" "c' = c" by simp_all
    obtain d where d: "process_nr c (CTRL_NR ctrl) = Some d" "frame_post c d" "pending d = pending c"
        "retransmit_from d = retransmit_from c"
      using runs_Some_exists [OF process_nr_post [OF assms acc(1)]] by blast
    then have "core d" by (simp add: frame_post_def)
    then have "runs (if CTRL_NS ctrl = vr d then handle_in_sequence_iframe d (CTRL_PF ctrl) info n
        else handle_out_of_sequence_iframe d (CTRL_NS ctrl) (CTRL_PF ctrl)) (frame_post d)"
      by (simp add: handle_in_sequence_iframe_post handle_out_of_sequence_iframe_post)
    then have "runs (if CTRL_NS ctrl = vr d then handle_in_sequence_iframe d (CTRL_PF ctrl) info n
        else handle_out_of_sequence_iframe d (CTRL_NS ctrl) (CTRL_PF ctrl)) (frame_post c)"
      by (rule runs_mono) (use d in \<open>blast intro: frame_post_trans\<close>)
    with True v acc d show ?thesis
      by (simp add: handle_iframe_def Let_def)
  qed
qed

lemma trigger_post:
  assumes "core c" "current_state c = ATC_HDLC_STATE_CONNECTED" "acceptable c n"
  shows "frame_post c (trigger_retransmit c n)"
proof -
  have good: "win_good c" using assms core_win_good by blast
  have core: "core (trigger_retransmit c n)" using assms(1) good by (rule core_trigger)
  have seq: "unat (vs c) < 8" "unat (va c) < 8" "unat n < 8"
    using coreD(2) [OF assms(1)] assms(3) by (simp_all add: seq_ok_def acceptable_def)
  have "retx_ok (trigger_retransmit c n)" if w: "tx_window c = Some w" and "vs c \<noteq> n" for w
  proof -
    have "out_count c \<le> unat (slot_count w)"
      using coreD(3) [OF assms(1)] w by (simp add: tx_ok_def)
    moreover have "dist8 (vs c) n = out_count c - dist8 n (va c)"
      using dist8_ack [of "va c" "vs c" n] seq assms(3) by (simp add: out_count_def acceptable_def)
    ultimately show ?thesis
      using w that(2) seq by (auto simp: trigger_retransmit_def retx_ok_def)
  qed
  then have "retx_step c (trigger_retransmit c n)"
    by (cases "tx_window c") (auto simp: retx_step_def trigger_retransmit_def)
  with core show ?thesis
    by (simp add: frame_post_def trigger_retransmit_def)
qed

lemma sframe_busy_post:
  "core c \<Longrightarrow> runs (sframe_busy c s) (\<lambda>c'. frame_post c c' \<and> pending c' = pending c
     \<and> retransmit_from c' = retransmit_from c \<and> current_state c' = current_state c
     \<and> va c' = va c \<and> vs c' = vs c \<and> vr c' = vr c)"
  by (simp add: sframe_busy_def Let_def hdlc_run frame_post_def retx_step_def)

lemma acceptable_cong: "va c' = va c \<Longrightarrow> vs c' = vs c \<Longrightarrow> acceptable c' n = acceptable c n"
  by (simp add: acceptable_def out_count_def)

lemma acceptable_va: "core c \<Longrightarrow> acceptable c (va c)"
  using coreD(2) [of c] by (simp add: acceptable_def seq_ok_def)

lemma trigger_fields [simp]:
  "current_state (trigger_retransmit c n) = current_state c"
  "va (trigger_retransmit c n) = va c" "vs (trigger_retransmit c n) = vs c"
  "vr (trigger_retransmit c n) = vr c" "tx_window (trigger_retransmit c n) = tx_window c"
  by (simp_all add: trigger_retransmit_def)

text \<open>The two places of \<open>handle_sframe\<close> after the sequence number has been accepted.\<close>

lemma sframe_rej_post:
  assumes "core c" "acceptable c nr" "current_state c = ATC_HDLC_STATE_CONNECTED"
  shows "runs (do { c \<leftarrow> frames_acked c nr; c \<leftarrow> t1_stop c;
      Some (if va c \<noteq> vs c then trigger_retransmit c nr else c) })
    (\<lambda>c'. frame_post c c' \<and> current_state c' = current_state c \<and> va c' = nr \<and> vs c' = vs c)"
proof -
  obtain d where d: "frames_acked c nr = Some d" "frame_post c d" "va d = nr" "vs d = vs c"
    "current_state d = current_state c" "pending d = pending c" "retransmit_from d = retransmit_from c"
    using runs_Some_exists [OF frames_acked_post [OF assms(1,2)]] by blast
  define e where "e = say (CTX_CLR d HDLC_F_T1_ACTIVE) (t1_stop_calls d)"
  have e: "t1_stop d = Some e" "frame_post c e" "va e = nr" "vs e = vs c"
    "current_state e = ATC_HDLC_STATE_CONNECTED" "pending e = pending c" "retransmit_from e = retransmit_from c"
    using d assms(3) by (simp_all add: e_def frame_post_def t1_stop_run retx_step_def)
  then have "core e" by (simp add: frame_post_def)
  then have "frame_post e (trigger_retransmit e nr)"
    using e(3,5) acceptable_va [of e] by (intro trigger_post) simp_all
  then have "frame_post c (trigger_retransmit e nr)"
    using e by (blast intro: frame_post_trans)
  with d e assms(3) show ?thesis
    by (simp add: trigger_fields)
qed

lemma handle_sframe_post:
  assumes "core c" "current_state c = ATC_HDLC_STATE_CONNECTED"
  shows "runs (handle_sframe c addr ctrl) (frame_post c)"
proof -
  let ?nr = "CTRL_NR ctrl" and ?pf = "CTRL_PF ctrl" and ?s = "CTRL_S ctrl"
  obtain c1 where c1: "sframe_busy c ?s = Some c1" "frame_post c c1" "pending c1 = pending c"
      "retransmit_from c1 = retransmit_from c" "current_state c1 = current_state c"
    using runs_Some_exists [OF sframe_busy_post [OF assms(1)]] by blast
  then have core1: "core c1" by (simp add: frame_post_def)
  define answer where "answer d = (if is_cmd c addr \<and> ?pf \<noteq> 0
      then do { c \<leftarrow> send_rr_resp d 1; t2_stop c } else Some d)" for d
  have "runs (answer c1) (\<lambda>d. frame_post c d \<and> pending d = pending c
      \<and> retransmit_from d = retransmit_from c \<and> current_state d = current_state c)"
    using c1 core1 by (simp add: answer_def hdlc_run frame_post_def retx_step_def)
  then obtain c2 where c2: "answer c1 = Some c2" "frame_post c c2" "pending c2 = pending c"
      "retransmit_from c2 = retransmit_from c" "current_state c2 = current_state c"
    by (auto simp: runs_iff)
  then have core2: "core c2" by (simp add: frame_post_def)
  obtain c3 ok where v: "validate_nr c2 ctrl ?nr = Some (c3, ok)" "frame_post c2 c3"
      "ok = acceptable c2 ?nr" "ok \<longrightarrow> c3 = c2"
    by (rule validate_nr_cases [OF core2])
  have post3: "frame_post c c3"
    using c2 v(2) by (blast intro: frame_post_trans)
  define body where "body d = (if ?s = S_REJ then do { c \<leftarrow> frames_acked d ?nr; c \<leftarrow> t1_stop c;
      Some (if va c \<noteq> vs c then trigger_retransmit c ?nr else c) } else process_nr d ?nr)" for d
  have unfold: "handle_sframe c addr ctrl = (if \<not> ok then Some c3 else do {
      e \<leftarrow> body c3;
      Some (if \<not> is_cmd c addr \<and> ?pf \<noteq> 0 \<and> va e \<noteq> vs e then trigger_retransmit e (va e) else e) })"
    using c1(1) c2(1) v(1) by (simp add: handle_sframe_def Let_def answer_def body_def)
  show ?thesis
  proof (cases ok)
    case False
    with unfold post3 show ?thesis by simp
  next
    case True
    with v have acc: "acceptable c2 ?nr" and c3: "c3 = c2" by simp_all
    have "runs (body c2) (\<lambda>e. frame_post c2 e \<and> current_state e = ATC_HDLC_STATE_CONNECTED)"
    proof (cases "?s = S_REJ")
      case True
      then show ?thesis
        unfolding body_def using sframe_rej_post [OF core2 acc] c2(5) assms(2)
        by (auto elim!: runs_mono simp del: runs_bind)
    next
      case False
      then show ?thesis
        unfolding body_def using process_nr_post [OF core2 acc] c2(5) assms(2)
        by (auto elim!: runs_mono)
    qed
    then obtain e where e: "body c2 = Some e" "frame_post c2 e" "current_state e = ATC_HDLC_STATE_CONNECTED"
      by (auto simp: runs_iff)
    then have "core e" by (simp add: frame_post_def)
    then have trig: "frame_post e (trigger_retransmit e (va e))"
      using e(3) by (intro trigger_post) (simp_all add: acceptable_va)
    have "frame_post c2 (trigger_retransmit e (va e))"
      using e(2) trig by (auto simp: frame_post_def retx_step_def trigger_retransmit_def
          intro: same_env_trans split: if_splits)
    then have "frame_post c (trigger_retransmit e (va e))" "frame_post c e"
      using c2 e(2) by (blast intro: frame_post_trans)+
    with unfold True c3 e show ?thesis by simp
  qed
qed

lemma handle_uframe_post:
  assumes "core c" "info_ok info n" "current_state c = ATC_HDLC_STATE_CONNECTED"
  shows "runs (handle_uframe c addr ctrl info n) (frame_post c)"
proof -
  obtain xs where "frame_send c (my_address c) (U_CTRL U_TEST (CTRL_PF ctrl)) info (ucast n) =
     Some (say (c\<lparr>tx_crc := driver_fcs (drv c) (my_address c # U_CTRL U_TEST (CTRL_PF ctrl) # xs)\<rparr>)
       (frame_calls (drv c) (my_address c) (U_CTRL U_TEST (CTRL_PF ctrl)) xs))"
    using frame_send_info_run [OF core_ready [OF assms(1)] assms(2)] by blast
  with assms show ?thesis
    by (auto simp: handle_uframe_def hdlc_run Let_def frame_post_def core_state retx_step_def
        send_frmr_def)
qed

lemma dispatch_frame_post:
  assumes "core c" "info_ok info n"
  shows "runs (dispatch_frame c addr ctrl info n) (frame_post c)"
proof (cases "current_state c")
  case ATC_HDLC_STATE_CONNECTED
  then have "runs (state_connected c addr ctrl info n) (frame_post c)"
    using assms by (simp add: state_connected_def handle_iframe_post handle_sframe_post
        handle_uframe_post frame_post_def retx_step_def)
  with ATC_HDLC_STATE_CONNECTED show ?thesis by (simp add: dispatch_frame_def)
qed (simp_all add: dispatch_frame_def assms state_disconnected_post state_connecting_post
      state_disconnecting_post state_frmr_error_post)

end
