(* ===== verification/Hdlc_Rx_Safety.thy ===== *)
theory Hdlc_Rx_Safety
  imports Hdlc_Safety
begin

text \<open>
  The receive path keeps the invariant: the retransmission of the outstanding frames, the
  storing of an octet, the frame that a closing flag completes, and a whole chunk. The
  \<open>_run\<close> lemmas give \<open>rx_store\<close> and \<open>handle_flag\<close> without their memory accesses.
\<close>

section \<open>Retransmission keeps the invariant\<close>

text \<open>A slot of the window lies inside the slot memory.\<close>

lemma slot_offset:
  assumes "win_geom w" "i < slot_count w"
  shows "unat (ucast i * slot_capacity w) = unat i * unat (slot_capacity w)"
    and "unat i * unat (slot_capacity w) + unat (slot_capacity w)
           \<le> unat (slot_count w) * unat (slot_capacity w)"
proof -
  have "Suc (unat i) \<le> unat (slot_count w)"
    using assms(2) by (simp add: word_less_nat_alt)
  then have "Suc (unat i) * unat (slot_capacity w) \<le> unat (slot_count w) * unat (slot_capacity w)"
    by (rule mult_le_mono1)
  then show le: "unat i * unat (slot_capacity w) + unat (slot_capacity w)
      \<le> unat (slot_count w) * unat (slot_capacity w)"
    by simp
  have "unat (slot_count w) * unat (slot_capacity w) < 2 ^ 32"
    using assms(1) by (auto simp: win_geom_def split: option.splits)
  with le have lt: "unat i * unat (slot_capacity w) < 2 ^ 32" by linarith
  then show "unat (ucast i * slot_capacity w) = unat i * unat (slot_capacity w)"
    by (simp add: unat_word_ariths)
qed

text \<open>The payload kept in a slot, and the frames that carry payloads from a sequence number on.\<close>

definition slot_payload :: "atc_hdlc_txwin_t \<Rightarrow> nat \<Rightarrow> u8 list" where
  "slot_payload w i = (case (slots w, slot_lens w) of
       (Some ss, Some ls) \<Rightarrow> take (unat (ls ! i)) (drop (i * unat (slot_capacity w)) ss)
     | _ \<Rightarrow> [])"

fun iframes :: "atc_hdlc_ctx_t \<Rightarrow> u8 \<Rightarrow> u8 list list \<Rightarrow> u8 list" where
  "iframes c v [] = []"
| "iframes c v (p # ps) =
     frame_octets (drv c) (peer_address c) (I_CTRL v (vr c) 0) p @ iframes c (mod8_succ v) ps"

lemma iframes_cong:
  "drv c = drv d \<Longrightarrow> peer_address c = peer_address d \<Longrightarrow> vr c = vr d \<Longrightarrow> iframes c v ps = iframes d v ps"
  by (induction ps arbitrary: v) simp_all

text \<open>A slot of a good window can be sent.\<close>

lemma slot_readable:
  assumes "win_geom w" "lens_ok w" "i < slot_count w"
  obtains sd n where "ptr_add (slots w) (unat (ucast i * slot_capacity w)) = Some (Some sd)"
    "get_at (slot_lens w) (unat i) = Some n" "unat n \<le> length sd" "take (unat n) sd = slot_payload w (unat i)"
proof -
  obtain ss ls where s: "slots w = Some ss" "slot_lens w = Some ls"
    using win_geom_lens [OF assms(1)] by blast
  have i: "unat i < unat (slot_count w)" using assms(3) by (simp add: word_less_nat_alt)
  have g: "unat (slot_count w) \<le> length ls" "unat (slot_count w) * unat (slot_capacity w) \<le> length ss"
    using assms(1) s by (simp_all add: win_geom_def)
  have "take (unat (slot_count w)) ls ! unat i \<le> slot_capacity w"
    using assms(2) s i g by (simp add: lens_ok_def list_all_length)
  then have "unat (ls ! unat i) \<le> unat (slot_capacity w)"
    using i by (simp add: word_le_nat_alt)
  moreover have "unat i * unat (slot_capacity w) + unat (slot_capacity w) \<le> length ss"
    using slot_offset(2) [OF assms(1,3)] g by linarith
  ultimately show ?thesis
    using that [of "drop (unat i * unat (slot_capacity w)) ss" "ls ! unat i"] s i g
    by (simp add: slot_offset(1) [OF assms(1,3)] slot_payload_def)
qed

lemma retransmit_loop_runs:
  assumes "ready c" "tx_window c = Some w" "win_geom w" "lens_ok w" "i < slot_count w"
    and "unat (vs c) < 8" "unat e < 8" "dist8 e (vs c) \<le> n"
  shows "\<exists>xs fcs. retransmit_loop n c e (slot_count w) i = Some (say (c\<lparr>tx_crc := fcs, vs := e\<rparr>) xs)
    \<and> delivered xs = [] \<and> line_octets xs = iframes c (vs c)
        (map (\<lambda>k. slot_payload w ((unat i + k) mod unat (slot_count w))) [0..<dist8 e (vs c)])"
  using assms
proof (induction n arbitrary: c i)
  case 0
  then have "vs c = e" using dist8_0 [of e "vs c"] by simp
  then have "say (c\<lparr>tx_crc := tx_crc c, vs := e\<rparr>) [] = c" by simp
  with \<open>vs c = e\<close> have "retransmit_loop 0 c e (slot_count w) i = Some (say (c\<lparr>tx_crc := tx_crc c, vs := e\<rparr>) [])"
    by (metis retransmit_loop.simps(1))
  moreover have "delivered [] = [] \<and> line_octets [] = iframes c (vs c)
      (map (\<lambda>k. slot_payload w ((unat i + k) mod unat (slot_count w))) [0..<dist8 e (vs c)])"
    using \<open>vs c = e\<close> by simp
  ultimately show ?case by blast
next
  case (Suc n)
  show ?case
  proof (cases "vs c = e")
    case True
    then have "say (c\<lparr>tx_crc := tx_crc c, vs := e\<rparr>) [] = c" by simp
    with True have "retransmit_loop (Suc n) c e (slot_count w) i = Some (say (c\<lparr>tx_crc := tx_crc c, vs := e\<rparr>) [])"
      by (metis retransmit_loop.simps(2))
    moreover have "delivered [] = [] \<and> line_octets [] = iframes c (vs c)
        (map (\<lambda>k. slot_payload w ((unat i + k) mod unat (slot_count w))) [0..<dist8 e (vs c)])"
      using True by simp
    ultimately show ?thesis by blast
  next
    case False
    let ?v = "mod8_succ (vs c)" and ?m = "unat (slot_count w)"
    obtain sd k where sd: "ptr_add (slots w) (unat (ucast i * slot_capacity w)) = Some (Some sd)"
      "get_at (slot_lens w) (unat i) = Some k" "unat k \<le> length sd" "take (unat k) sd = slot_payload w (unat i)"
      using slot_readable Suc.prems by blast
    have lt: "unat i < ?m" using Suc.prems(5) by (simp add: word_less_nat_alt)
    obtain i' where i': "c_mod (uint i + 1) (uint (slot_count w)) = Some i'" "i' < slot_count w"
        "unat i' = nat ((uint i + 1) mod uint (slot_count w))"
      using c_mod_slot [of "slot_count w" "uint i + 1"] lt by auto
    have step: "unat i' = Suc (unat i) mod ?m"
    proof -
      have "(uint i + 1) mod uint (slot_count w) = int (Suc (unat i)) mod int ?m" by (simp add: add.commute)
      also have "\<dots> = int (Suc (unat i) mod ?m)" by (simp only: zmod_int)
      finally show ?thesis using i'(3) by (simp only: nat_int)
    qed
    let ?d = "c\<lparr>tx_crc := driver_fcs (drv c) (peer_address c # I_CTRL (vs c) (vr c) 0 # take (unat k) sd), vs := ?v\<rparr>"
    let ?xs = "frame_calls (drv c) (peer_address c) (I_CTRL (vs c) (vr c) 0) (take (unat k) sd)"
    have dist: "dist8 e (vs c) = Suc (dist8 e ?v)"
      using Suc.prems(6-7) False
      by (auto simp: dist8_if unat_mod8_succ mod_if word_unat_eq_iff split: if_splits)
    obtain ys fcs' where ys: "retransmit_loop n (say ?d ?xs) e (slot_count w) i'
          = Some (say ((say ?d ?xs)\<lparr>tx_crc := fcs', vs := e\<rparr>) ys)"
        "delivered ys = []" "line_octets ys = iframes (say ?d ?xs) ?v
           (map (\<lambda>k. slot_payload w ((unat i' + k) mod ?m)) [0..<dist8 e ?v])"
      using Suc.IH [of "say ?d ?xs" i'] Suc.prems i'(2) dist by auto
    have "retransmit_loop (Suc n) c e (slot_count w) i = Some (say (c\<lparr>tx_crc := fcs', vs := e\<rparr>) (?xs @ ys))"
      using False Suc.prems(1,2) sd(1-3) i'(1) frame_send_run [OF Suc.prems(1) sd(3)] ys(1) by simp
    moreover have "map (\<lambda>k. slot_payload w ((unat i + k) mod ?m)) [0..<dist8 e (vs c)]
        = take (unat k) sd # map (\<lambda>k. slot_payload w ((unat i' + k) mod ?m)) [0..<dist8 e ?v]"
      using lt by (simp add: dist upt_conv_Cons sd(4) step mod_simps map_Suc_upt [symmetric] comp_def del: upt_Suc)
    moreover have "iframes (say ?d ?xs) v ps = iframes c v ps" for v ps
      by (rule iframes_cong) simp_all
    ultimately show ?thesis
      using ys(2,3) by auto
  qed
qed

lemma vs_same: "vs c = v \<Longrightarrow> c\<lparr>vs := v\<rparr> = c"
  by (cases c) simp

lemma core_tx_crc_vs: "core (c\<lparr>tx_crc := x, vs := v\<rparr>) = core (c\<lparr>vs := v\<rparr>)"
  unfolding core_def rx_geom_def seq_ok_def tx_ok_def out_count_def
  by (simp cong: option.case_cong)

text \<open>The retransmission exactly: it starts at the slot as far behind the next one as the frames go
  back, and emits them in order.\<close>

lemma retransmit_outstanding_run:
  assumes "core c" "pending c" "retx_ok c" "tx_window c = Some w"
  shows "\<exists>fcs xs i. retransmit_outstanding c = Some (say (CTX_SET (CTX_CLR c HDLC_F_RETRANSMIT_PENDING
       \<lparr>tx_crc := fcs, vs := vs c\<rparr>) HDLC_F_T1_ACTIVE) (xs @ t1_start_calls c))
    \<and> c_mod (uint (tx_next_slot c) + uint (slot_count w) - uint (mod8_dist (vs c) (retransmit_from c)))
        (uint (slot_count w)) = Some i
    \<and> delivered xs = [] \<and> line_octets xs = iframes c (retransmit_from c)
        (map (\<lambda>k. slot_payload w ((unat i + k) mod unat (slot_count w))) [0..<dist8 (vs c) (retransmit_from c)])"
proof -
  have w: "tx_window c = Some w" "unat (retransmit_from c) < 8"
    "dist8 (vs c) (retransmit_from c) \<le> unat (slot_count w) \<or> slot_count w = 1"
    using assms(3,4) by (auto simp: retx_ok_def split: option.splits)
  have tx: "win_geom w" "lens_ok w" "tx_next_slot c < slot_count w"
    using coreD(3) [OF assms(1)] w assms(2) by (auto simp: tx_ok_def)
  have vs: "unat (vs c) < 8" using coreD(2) [OF assms(1)] by (simp add: seq_ok_def)
  let ?d = "mod8_dist (vs c) (retransmit_from c)"
  have dist: "unat ?d = dist8 (vs c) (retransmit_from c)"
    using vs w(2) by (rule dist8_word)
  have pos: "0 < unat (slot_count w)"
    using tx(1) by (auto simp: win_geom_def split: option.splits)
  obtain i where i: "c_mod (uint (tx_next_slot c) + uint (slot_count w) - uint ?d) (uint (slot_count w)) = Some i"
      "i < slot_count w"
  proof (cases "slot_count w = 1")
    case True
    with that show thesis by (simp add: c_mod_one)
  next
    case False
    then have "?d \<le> slot_count w"
      using w(3) dist by (simp add: word_le_nat_alt)
    then have "uint ?d \<le> uint (slot_count w)"
      by (simp only: word_le_def)
    then have "0 \<le> uint (tx_next_slot c) + uint (slot_count w) - uint ?d"
      by (simp add: add_increasing)
    with pos show thesis using c_mod_slot that by blast
  qed
  let ?c0 = "CTX_CLR c HDLC_F_RETRANSMIT_PENDING\<lparr>vs := retransmit_from c\<rparr>"
  have "dist8 (vs c) (vs ?c0) \<le> 8"
    using dist8_less [of "vs c" "vs ?c0"] by simp
  then obtain xs fcs where loop: "retransmit_loop 8 ?c0 (vs c) (slot_count w) i
      = Some (say (?c0\<lparr>tx_crc := fcs, vs := vs c\<rparr>) xs)"
      "delivered xs = []" "line_octets xs = iframes ?c0 (vs ?c0)
        (map (\<lambda>k. slot_payload w ((unat i + k) mod unat (slot_count w))) [0..<dist8 (vs c) (vs ?c0)])"
    using retransmit_loop_runs [of ?c0 w i "vs c" 8] w tx i vs assms(1) by auto
  moreover have "iframes ?c0 v ps = iframes c v ps" for v ps by (rule iframes_cong) simp_all
  moreover have "CTX_SET (?c0\<lparr>tx_crc := fcs, vs := vs c\<rparr>) f =
      CTX_SET (CTX_CLR c HDLC_F_RETRANSMIT_PENDING\<lparr>tx_crc := fcs, vs := vs c\<rparr>) f" for f
    by simp
  ultimately show ?thesis
    using w i assms(1) by (simp add: retransmit_outstanding_def Let_def hdlc_run) blast
qed

lemma retransmit_outstanding_post:
  assumes "core c" "pending c" "retx_ok c"
  shows "runs (retransmit_outstanding c) (\<lambda>c'. settled c' \<and> same_env c c' \<and> CTX_FLAG c' HDLC_F_T1_ACTIVE)"
proof -
  obtain w where w: "tx_window c = Some w"
    using assms(3) by (auto simp: retx_ok_def split: option.splits)
  obtain fcs xs where run: "retransmit_outstanding c = Some (say (CTX_SET (CTX_CLR c HDLC_F_RETRANSMIT_PENDING
       \<lparr>tx_crc := fcs, vs := vs c\<rparr>) HDLC_F_T1_ACTIVE) (xs @ t1_start_calls c))"
    using retransmit_outstanding_run [OF assms w] by blast
  have "lens_ok w" using core_pending_good [OF assms(1,2)] w by (simp add: win_good_def)
  then have "core (CTX_CLR c HDLC_F_RETRANSMIT_PENDING)"
    using assms(1) w coreD [OF assms(1)] by (intro coreI) (simp_all add: tx_ok_def out_count_def)
  then have "core (CTX_CLR c HDLC_F_RETRANSMIT_PENDING\<lparr>vs := vs c\<rparr>)"
    by (simp add: vs_same)
  then have "core (CTX_CLR c HDLC_F_RETRANSMIT_PENDING\<lparr>tx_crc := fcs, vs := vs c\<rparr>)"
    by (simp add: core_tx_crc_vs)
  with run show ?thesis by (simp add: settled_def)
qed

section \<open>The receiver keeps the invariant\<close>

lemma rx_geom_buf:
  assumes "core c"
  obtains rb xs where "rx_buf c = Some rb" "buffer rb = Some xs" "unat (capacity rb) \<le> length xs"
    "unat (rx_index c) \<le> unat (capacity rb)"
  using coreD(1) [OF assms] by (auto simp: rx_geom_def split: option.splits)

text \<open>What storing an octet leaves alone: everything but the receiver's own fields.\<close>

definition rx_frame :: "atc_hdlc_ctx_t \<Rightarrow> atc_hdlc_ctx_t \<Rightarrow> bool" where
  "rx_frame c c' \<longleftrightarrow> tx_window c' = tx_window c \<and> vs c' = vs c \<and> va c' = va c
     \<and> vr c' = vr c \<and> current_state c' = current_state c \<and> flags c' = flags c
     \<and> retransmit_from c' = retransmit_from c \<and> trace c' = trace c \<and> tx_next_slot c' = tx_next_slot c
     \<and> my_address c' = my_address c \<and> peer_address c' = peer_address c \<and> config c' = config c
     \<and> platform c' = platform c \<and> crc c' = crc c \<and> n2 c' = n2 c
     \<and> tx_crc c' = tx_crc c \<and> frmr_ctrl c' = frmr_ctrl c \<and> frmr_flags c' = frmr_flags c"

lemma rx_frame_fields:
  assumes "rx_frame c c'"
  shows "tx_window c' = tx_window c" "vs c' = vs c" "va c' = va c"
    "vr c' = vr c" "current_state c' = current_state c" "flags c' = flags c"
    "retransmit_from c' = retransmit_from c" "trace c' = trace c" "tx_next_slot c' = tx_next_slot c"
    "my_address c' = my_address c" "peer_address c' = peer_address c" "config c' = config c"
    "platform c' = platform c" "crc c' = crc c" "n2 c' = n2 c"
    "tx_crc c' = tx_crc c" "frmr_ctrl c' = frmr_ctrl c" "frmr_flags c' = frmr_flags c"
  using assms by (simp_all add: rx_frame_def)

lemma rx_frame_core:
  assumes "rx_frame c c'" "core c" "rx_geom c'"
  shows "core c'"
proof (rule coreI)
  show "ready c'" using assms(2) rx_frame_fields [OF assms(1)] core_ready [OF assms(2)]
    unfolding ready_def plat_def drv_def by simp
  show "seq_ok c'" "tx_ok c'"
    using coreD [OF assms(2)] rx_frame_fields [OF assms(1)]
    by (simp_all add: seq_ok_def tx_ok_def out_count_def CTX_FLAG_def cong: option.case_cong)
qed (rule assms(3))

lemma rx_geom_reset [simp]: "rx_geom c \<Longrightarrow> rx_geom (rx_reset st c)"
  by (auto simp: rx_geom_def rx_reset_def split: option.splits)

lemma rx_reset_frame: "rx_frame c (rx_reset st c)"
  by (simp add: rx_frame_def rx_reset_def)

lemma core_rx_reset [simp]: "core c \<Longrightarrow> core (rx_reset st c)"
  using rx_frame_core [OF rx_reset_frame] coreD(1) by simp

text \<open>An octet is put at the index when there is room, and the FCS follows two octets behind.\<close>

definition lag_fcs :: "atc_hdlc_ctx_t \<Rightarrow> u8 list \<Rightarrow> u16" where
  "lag_fcs c xs = (if rx_index c \<ge> 2 then driver_step (drv c) (rx_crc c) (xs ! (unat (rx_index c) - 2))
     else rx_crc c)"

lemma rx_store_run:
  assumes "core c" "rx_buf c = Some rb" "buffer rb = Some xs"
  shows "rx_store c b = Some (if rx_index c \<ge> capacity rb then rx_reset RX_HUNT c
     else let ys = xs[unat (rx_index c) := b];
       d = c\<lparr>rx_buf := Some (rb\<lparr>buffer := Some ys\<rparr>), rx_crc := lag_fcs c ys, rx_index := rx_index c + 1\<rparr>
     in if rx_index c = 0
        then if b \<noteq> my_address c \<and> b \<noteq> peer_address c \<and> b \<noteq> ATC_HDLC_BROADCAST_ADDRESS
             then rx_reset RX_HUNT d else d\<lparr>rx_state := RX_DATA\<rparr>
        else d)"
proof (cases "rx_index c \<ge> capacity rb")
  case True
  with assms show ?thesis by (simp add: rx_store_def)
next
  case False
  let ?i = "rx_index c" and ?ys = "xs[unat (rx_index c) := b]"
  have "unat (capacity rb) \<le> length xs"
    using coreD(1) [OF assms(1)] assms(2,3) by (simp add: rx_geom_def)
  with False have i: "unat ?i < length xs"
    by (simp add: word_less_nat_alt word_le_nat_alt)
  have one: "?i + 1 = 1 \<longleftrightarrow> ?i = 0"
    by (metis add.commute add_cancel_right_right)
  show ?thesis
  proof (cases "?i \<ge> 2")
    case True
    then have two: "unat (?i - 2) = unat ?i - 2" "2 \<le> unat ?i"
      by (simp_all add: unat_sub word_le_nat_alt)
    then have lt: "unat ?i - 2 < length ?ys" using i by simp
    then obtain zs where zs: "drop (unat ?i - 2) ?ys = ?ys ! (unat ?i - 2) # zs"
      by (metis Cons_nth_drop_Suc)
    have comp: "compute (drv c) (rx_crc c) (Some (drop (unat ?i - 2) ?ys)) 1
        = Some (driver_step (drv c) (rx_crc c) (?ys ! (unat ?i - 2)))"
      unfolding zs using core_ready [OF assms(1)] by (rule compute_ready)
    have "?i \<noteq> 0" using two(2) by auto
    with False assms i two True one comp core_ready [OF assms(1)] show ?thesis
      by (simp add: rx_store_def lag_fcs_def Let_def FCS_LEN_def)
  next
    case False': False
    with False assms i one core_ready [OF assms(1)] show ?thesis
      by (simp add: rx_store_def lag_fcs_def Let_def FCS_LEN_def)
  qed
qed

lemma rx_store_post:
  assumes "core c"
  shows "runs (rx_store c b) (\<lambda>c'. core c' \<and> rx_frame c c')"
proof -
  obtain rb xs where b: "rx_buf c = Some rb" "buffer rb = Some xs" "unat (capacity rb) \<le> length xs"
    using rx_geom_buf [OF assms] by blast
  let ?ys = "xs[unat (rx_index c) := b]"
  let ?d = "c\<lparr>rx_buf := Some (rb\<lparr>buffer := Some ?ys\<rparr>), rx_crc := lag_fcs c ?ys, rx_index := rx_index c + 1\<rparr>"
  have fr: "rx_frame c (?d\<lparr>rx_state := st\<rparr>)" for st
    by (simp add: rx_frame_def)
  have st: "?d\<lparr>rx_state := rx_state c\<rparr> = ?d" by simp
  have "core (?d\<lparr>rx_state := st\<rparr>)" if "\<not> rx_index c \<ge> capacity rb" for st
  proof -
    have "unat (rx_index c) < unat (capacity rb)"
      using that by (simp add: word_less_nat_alt word_le_nat_alt)
    moreover have "unat (rx_index c + 1) = Suc (unat (rx_index c))"
      using that by (intro unat_succ [of _ "capacity rb"]) simp
    ultimately have "rx_geom (?d\<lparr>rx_state := st\<rparr>)"
      using b by (simp add: rx_geom_def)
    then show ?thesis
      using fr assms by (blast intro: rx_frame_core)
  qed
  note core = this
  have coreq: "core ?d" and frq: "rx_frame c ?d" if "\<not> rx_index c \<ge> capacity rb"
    using core [OF that, of "rx_state c"] fr [of "rx_state c"] st by simp_all
  have "rx_frame c (rx_reset RX_HUNT ?d)"
    by (simp add: rx_frame_def rx_reset_def)
  then show ?thesis
    unfolding rx_store_run [OF assms b(1,2)] using assms core coreq fr frq
    by (auto simp: Let_def rx_reset_frame)
qed

text \<open>
  A closing flag either drops the octets collected so far or dispatches them as one frame;
  \<open>frame_held\<close> is the frame, when the octets are long enough and their FCS agrees.
\<close>

definition held_octets :: "atc_hdlc_ctx_t \<Rightarrow> u8 list" where
  "held_octets c = (case rx_buf c of None \<Rightarrow> []
     | Some rb \<Rightarrow> (case buffer rb of None \<Rightarrow> [] | Some xs \<Rightarrow> take (unat (rx_index c)) xs))"

definition held_fcs :: "u8 list \<Rightarrow> u16" where
  "held_fcs xs = ucast (xs ! (length xs - 2)) OR push_bit 8 (ucast (xs ! (length xs - 1)))"

definition frame_held :: "atc_hdlc_ctx_t \<Rightarrow> bool" where
  "frame_held c \<longleftrightarrow> rx_state c \<noteq> RX_HUNT \<and> 4 \<le> length (held_octets c) \<and> rx_crc c = held_fcs (held_octets c)"

text \<open>The information pointer and length a frame of these octets is dispatched with.\<close>

definition info_ptr :: "atc_hdlc_ctx_t \<Rightarrow> octets" where
  "info_ptr c = (if length (held_octets c) > 4
     then map_option (drop 2) (case rx_buf c of None \<Rightarrow> None | Some rb \<Rightarrow> buffer rb) else None)"

definition info_size :: "atc_hdlc_ctx_t \<Rightarrow> u16" where
  "info_size c = word_of_nat (length (held_octets c) - 4)"

lemma length_held: "core c \<Longrightarrow> length (held_octets c) = unat (rx_index c)"
  by (erule rx_geom_buf) (auto simp: held_octets_def)

lemma handle_flag_run:
  assumes "core c"
  shows "handle_flag c = (if frame_held c
     then do {
       d \<leftarrow> dispatch_frame c (held_octets c ! 0) (held_octets c ! 1) (info_ptr c) (info_size c);
       Some (rx_reset RX_ADDR d) }
     else Some (rx_reset RX_ADDR c))"
proof -
  obtain rb xs where b: "rx_buf c = Some rb" "buffer rb = Some xs" "unat (capacity rb) \<le> length xs"
    "unat (rx_index c) \<le> unat (capacity rb)"
    using rx_geom_buf [OF assms] by blast
  let ?n = "unat (rx_index c)"
  have held: "held_octets c = take ?n xs" "length (held_octets c) = ?n"
    using b by (simp_all add: held_octets_def)
  have short: "rx_index c < word_of_nat MIN_FRAME_LEN \<longleftrightarrow> ?n < 4"
    by (simp add: word_less_nat_alt hdlc_len_defs)
  show ?thesis
  proof (cases "rx_state c = RX_HUNT \<or> ?n < 4")
    case True
    then show ?thesis
      using short held by (auto simp: handle_flag_def frame_held_def)
  next
    case False
    then have n: "4 \<le> ?n" "rx_state c \<noteq> RX_HUNT" by auto
    have d: "unat (rx_index c - 2) = ?n - 2"
      using n by (simp add: unat_sub word_le_nat_alt)
    then have d1: "unat (rx_index c - 2 + 1) = ?n - 1"
      using n unat_succ [of "rx_index c - 2" "rx_index c"] by (simp add: word_less_nat_alt)
    have d4: "unat (rx_index c - 2 - 2) = ?n - 4"
      using n d by (subst unat_sub) (simp_all add: word_le_nat_alt)
    have long: "rx_index c - 2 > 2 \<longleftrightarrow> 4 < ?n"
      using n d by (simp add: word_less_nat_alt) arith
    have size: "(ucast (rx_index c - 2 - 2) :: u16) = word_of_nat (?n - 4)"
      by (subst of_nat_unat [symmetric]) (simp only: d4)
    have four: "(ucast (rx_index c) :: u16) = 4" if "?n = 4"
      by (subst of_nat_unat [symmetric]) (simp add: that)
    have crc: "rx_crc c = held_fcs (held_octets c) \<longleftrightarrow>
        rx_crc c = ucast (xs ! (?n - 2)) OR push_bit 8 (ucast (xs ! (?n - 1)))"
      using n b(3,4) by (simp add: held_fcs_def held)
    have len: "?n - 2 < length xs" "?n - 1 < length xs" "0 < length xs" "1 < length xs" "2 \<le> length xs"
      using n b(3,4) by linarith+
    have pick: "held_octets c ! 0 = xs ! 0" "held_octets c ! 1 = xs ! 1"
      using n by (simp_all add: held)
    show ?thesis
    proof (cases "rx_crc c = held_fcs (held_octets c)")
      case True
      then have "frame_held c" using n held by (simp add: frame_held_def)
      then show ?thesis
        using b n short d d1 long size len True
        unfolding handle_flag_def Let_def crc pick info_ptr_def info_size_def held(2)
        by (simp add: hdlc_len_defs numeral_2_eq_2 four)
    next
      case False
      then have "\<not> frame_held c" by (simp add: frame_held_def)
      then show ?thesis
        using b n short d d1 len False
        unfolding handle_flag_def Let_def crc by (simp add: hdlc_len_defs)
    qed
  qed
qed

lemma info_ok_held:
  assumes "core c" "4 \<le> length (held_octets c)"
  shows "info_ok (info_ptr c) (info_size c)"
proof -
  obtain rb xs where b: "rx_buf c = Some rb" "buffer rb = Some xs" "unat (capacity rb) \<le> length xs"
    "unat (rx_index c) \<le> unat (capacity rb)"
    using rx_geom_buf [OF assms(1)] by blast
  have "unat (info_size c) \<le> length (held_octets c) - 4"
    by (simp add: info_size_def unat_of_nat)
  moreover have "length (held_octets c) \<le> length xs"
    using b by (simp add: held_octets_def)
  ultimately show ?thesis
    using b assms(2) by (auto simp: info_ok_def info_ptr_def info_size_def)
qed

text \<open>What one received octet keeps: the invariant, the geometry, the retransmission rule.\<close>

definition rx_post :: "atc_hdlc_ctx_t \<Rightarrow> atc_hdlc_ctx_t \<Rightarrow> bool" where
  "rx_post c c' \<longleftrightarrow> core c' \<and> retx_step c c'
     \<and> map_option slot_count (tx_window c') = map_option slot_count (tx_window c)"

lemma rx_frame_post: "rx_frame c c' \<Longrightarrow> core c' \<Longrightarrow> rx_post c c'"
  using rx_frame_fields [of c c'] by (simp add: rx_post_def retx_step_def CTX_FLAG_def)

lemma handle_flag_post:
  assumes "core c"
  shows "runs (handle_flag c) (rx_post c)"
proof (cases "frame_held c")
  case True
  then have "info_ok (info_ptr c) (info_size c)"
    using assms info_ok_held by (simp add: frame_held_def)
  then obtain d where d: "dispatch_frame c (held_octets c ! 0) (held_octets c ! 1) (info_ptr c) (info_size c) = Some d"
      "frame_post c d"
    using runs_Some_exists [OF dispatch_frame_post [OF assms]] by blast
  then have "rx_post c (rx_reset RX_ADDR d)"
    using rx_frame_fields [OF rx_reset_frame [of d RX_ADDR]]
    by (simp add: rx_post_def frame_post_def same_env_def retx_step_def CTX_FLAG_def
        retx_ok_def cong: option.case_cong)
  with True d assms show ?thesis by (simp add: handle_flag_run)
next
  case False
  with assms show ?thesis
    by (simp add: handle_flag_run rx_frame_post rx_reset_frame)
qed

lemma core_rx_state: "core c \<Longrightarrow> rx_frame c (c\<lparr>rx_state := st\<rparr>)"
  by (simp add: rx_frame_def)

lemma rx_frame_trans: "rx_frame a b \<Longrightarrow> rx_frame b c \<Longrightarrow> rx_frame a c"
  by (simp add: rx_frame_def)

text \<open>Only a flag octet touches anything but the receiver's own fields.\<close>

lemma rx_byte_quiet:
  assumes "core c" "b \<noteq> FLAG"
  shows "runs (rx_byte c b) (\<lambda>c'. core c' \<and> rx_frame c c')"
proof -
  have "runs (rx_store (c\<lparr>rx_state := RX_DATA\<rparr>) x) (\<lambda>c'. core c' \<and> rx_frame c c')" for x
    by (rule runs_mono [OF rx_store_post]) (use assms in \<open>simp_all add: rx_frame_def\<close>)
  moreover have "runs (rx_store c b) (\<lambda>c'. core c' \<and> rx_frame c c')"
    using assms by (simp add: rx_store_post)
  ultimately show ?thesis
    using assms by (simp add: rx_byte_def rx_frame_def)
qed

lemma rx_byte_post:
  assumes "core c"
  shows "runs (rx_byte c b) (rx_post c)"
proof (cases "b = FLAG")
  case True
  with assms show ?thesis by (simp add: rx_byte_def handle_flag_post)
next
  case False
  then show ?thesis
    by (rule runs_mono [OF rx_byte_quiet [OF assms]]) (simp add: rx_frame_post)
qed

text \<open>The loop over a chunk as a fold over its octets.\<close>

fun rx_octets :: "atc_hdlc_ctx_t \<Rightarrow> u8 list \<Rightarrow> atc_hdlc_ctx_t option" where
  "rx_octets c [] = Some c"
| "rx_octets c (b # bs) = do { c \<leftarrow> rx_byte c b; rx_octets c bs }"

lemma rx_loop_octets: "i + n \<le> length xs \<Longrightarrow> rx_loop c xs i n = rx_octets c (take n (drop i xs))"
proof (induction n arbitrary: i c)
  case (Suc n)
  then have "drop i xs = xs ! i # drop (Suc i) xs"
    by (simp add: Cons_nth_drop_Suc)
  with Suc show ?case by simp
qed simp

lemma rx_octets_append: "rx_octets c (xs @ ys) = rx_octets c xs \<bind> (\<lambda>d. rx_octets d ys)"
  by (induction xs arbitrary: c) simp_all

lemma data_in_run:
  "unat n \<le> length xs \<Longrightarrow> atc_hdlc_data_in c (Some xs) n = do {
     c \<leftarrow> rx_octets c (take (unat n) xs);
     if pending c then retransmit_outstanding c else Some c }"
  by (simp add: atc_hdlc_data_in_def rx_loop_octets)

text \<open>Octets without a flag keep the station as it is.\<close>

lemma rx_octets_quiet:
  "core c \<Longrightarrow> FLAG \<notin> set xs \<Longrightarrow> runs (rx_octets c xs) (\<lambda>c'. core c' \<and> rx_frame c c')"
proof (induction xs arbitrary: c)
  case Nil
  then show ?case by (simp add: rx_frame_def)
next
  case (Cons b xs)
  then obtain d where d: "rx_byte c b = Some d" "core d" "rx_frame c d"
    using runs_Some_exists [OF rx_byte_quiet [of c b]] by auto
  have "runs (rx_octets d xs) (\<lambda>c'. core c' \<and> rx_frame d c')"
    using Cons d by simp
  then have "runs (rx_octets d xs) (\<lambda>c'. core c' \<and> rx_frame c c')"
    by (rule runs_mono) (use d rx_frame_trans in blast)
  with d show ?case by simp
qed

definition retx_safe :: "atc_hdlc_ctx_t \<Rightarrow> bool" where
  "retx_safe c \<longleftrightarrow> core c \<and> (pending c \<longrightarrow> retx_ok c)"

lemma finish_settled:
  assumes "retx_safe c"
  shows "runs (if pending c then retransmit_outstanding c else Some c) settled"
  using assms by (auto simp: retx_safe_def settled_def intro: runs_mono [OF retransmit_outstanding_post])

lemma rx_frame_safe: "retx_safe c \<Longrightarrow> rx_frame c d \<Longrightarrow> core d \<Longrightarrow> retx_safe d"
  using rx_frame_fields [of c d] by (simp add: retx_safe_def CTX_FLAG_def retx_ok_def cong: option.case_cong)

text \<open>A window of one or seven slots: every stale request still goes to a valid slot.\<close>

definition any_retx_ok :: "atc_hdlc_ctx_t \<Rightarrow> bool" where
  "any_retx_ok c \<longleftrightarrow> (case tx_window c of None \<Rightarrow> False | Some w \<Rightarrow> slot_count w = 1 \<or> slot_count w = 7)"

lemma any_retx_ok_cong:
  "map_option slot_count (tx_window c) = map_option slot_count (tx_window d) \<Longrightarrow>
   any_retx_ok c = any_retx_ok d"
  by (cases "tx_window c"; cases "tx_window d") (simp_all add: any_retx_ok_def)

lemma any_retx_okD:
  "any_retx_ok c \<Longrightarrow> unat (retransmit_from c) < 8 \<Longrightarrow> retx_ok c"
  using dist8_less [of "vs c" "retransmit_from c"]
  by (auto simp: any_retx_ok_def retx_ok_def split: option.splits)

lemma rx_octets_any_chunk:
  assumes "retx_safe c" "any_retx_ok c"
  shows "runs (rx_octets c xs) retx_safe"
  using assms
proof (induction xs arbitrary: c)
  case (Cons b xs)
  then obtain d where d: "rx_byte c b = Some d" "rx_post c d"
    using runs_Some_exists [OF rx_byte_post [of c b]] by (auto simp: retx_safe_def)
  then have any: "any_retx_ok d"
    using Cons.prems(2) any_retx_ok_cong [of d c] by (simp add: rx_post_def)
  have "unat (retransmit_from c) < 8" if "pending c"
    using Cons.prems(1) that by (auto simp: retx_safe_def retx_ok_def split: option.splits)
  then have "retx_safe d"
    using d(2) any any_retx_okD [of d]
    by (auto simp: retx_safe_def rx_post_def retx_step_def)
  with any d Cons.IH show ?case by simp
qed simp

end
