(* ===== verification/Hdlc_Tx_Safety.thy ===== *)
theory Hdlc_Tx_Safety
  imports Hdlc_Rx_Safety
begin

text \<open>
  The transmit and station entry points keep the invariant. \<open>transmit_i_run\<close> is
  \<open>atc_hdlc_transmit_i\<close> on the branch that sends, as a record update and the calls made.
\<close>

section \<open>Sending an I-frame\<close>

text \<open>The payload a pointer and a length denote, when the range is readable.\<close>

definition payload :: "octets \<Rightarrow> u32 \<Rightarrow> u8 list" where
  "payload data len = (case data of None \<Rightarrow> [] | Some xs \<Rightarrow> take (unat len) xs)"

definition readable :: "octets \<Rightarrow> u32 \<Rightarrow> bool" where
  "readable data len \<longleftrightarrow> (case data of None \<Rightarrow> len = 0 | Some xs \<Rightarrow> unat len \<le> length xs)"

lemma length_payload [simp]: "readable data len \<Longrightarrow> length (payload data len) = unat len"
  by (simp add: readable_def payload_def split: option.splits)

lemma frame_send_payload:
  "ready c \<Longrightarrow> readable data len \<Longrightarrow> frame_send c addr ctrl data len =
     Some (say (c\<lparr>tx_crc := driver_fcs (drv c) (addr # ctrl # payload data len)\<rparr>)
       (frame_calls (drv c) addr ctrl (payload data len)))"
  by (cases data) (simp_all add: readable_def payload_def frame_send_run frame_send_null_run)

text \<open>Whether \<open>atc_hdlc_transmit_i\<close> takes the payload.\<close>

definition tx_open :: "atc_hdlc_ctx_t \<Rightarrow> bool" where
  "tx_open c \<longleftrightarrow> (case tx_window c of None \<Rightarrow> False | Some w \<Rightarrow> out_count c < unat (slot_count w))"

definition tx_fits :: "atc_hdlc_ctx_t \<Rightarrow> u32 \<Rightarrow> bool" where
  "tx_fits c len \<longleftrightarrow> \<not> too_long c len \<and>
     (case tx_window c of None \<Rightarrow> False | Some w \<Rightarrow> len \<le> slot_capacity w)"

definition fill_slot :: "atc_hdlc_txwin_t \<Rightarrow> u8 \<Rightarrow> u8 list \<Rightarrow> u32 \<Rightarrow> atc_hdlc_txwin_t" where
  "fill_slot w i p len = (let off = unat i * unat (slot_capacity w) in
     w\<lparr>slots := map_option (\<lambda>ss. take off ss @ p @ drop (off + length p) ss) (slots w),
       slot_lens := map_option (\<lambda>ls. ls[unat i := len]) (slot_lens w)\<rparr>)"

definition ring_succ :: "atc_hdlc_txwin_t \<Rightarrow> u8 \<Rightarrow> u8" where
  "ring_succ w i = (if i + 1 = slot_count w then 0 else i + 1)"

definition sent_fields :: "atc_hdlc_ctx_t \<Rightarrow> u8 list \<Rightarrow> u32 \<Rightarrow> atc_hdlc_ctx_t" where
  "sent_fields c p len = (case tx_window c of None \<Rightarrow> c | Some w \<Rightarrow>
     c\<lparr>tx_next_slot := ring_succ w (tx_next_slot c), tx_window := Some (fill_slot w (tx_next_slot c) p len),
       tx_crc := driver_fcs (drv c) (peer_address c # I_CTRL (vs c) (vr c) 0 # p), vs := mod8_succ (vs c)\<rparr>)"

definition sent_calls :: "atc_hdlc_ctx_t \<Rightarrow> u8 list \<Rightarrow> callback list" where
  "sent_calls c p = frame_calls (drv c) (peer_address c) (I_CTRL (vs c) (vr c) 0) p @ t2_stop_calls c
     @ (if vs c = va c then t1_start_calls c else [])"

lemma fill_slot_fields [simp]:
  "slot_count (fill_slot w i p len) = slot_count w" "slot_capacity (fill_slot w i p len) = slot_capacity w"
  "slots (fill_slot w i p len) = map_option (\<lambda>ss. take (unat i * unat (slot_capacity w)) ss @ p
     @ drop (unat i * unat (slot_capacity w) + length p) ss) (slots w)"
  "slot_lens (fill_slot w i p len) = map_option (\<lambda>ls. ls[unat i := len]) (slot_lens w)"
  by (simp_all add: fill_slot_def Let_def)

lemma store_slot_run:
  assumes "tx_window c = Some w" "win_geom w" "i < slot_count w" "readable data len" "len \<le> slot_capacity w"
  shows "store_slot c i data len = Some (c\<lparr>tx_window := Some (fill_slot w i (payload data len) len)\<rparr>)"
proof -
  obtain ss ls where s: "slots w = Some ss" "slot_lens w = Some ls"
    using win_geom_lens [OF assms(2)] by blast
  have g: "unat (slot_count w) \<le> length ls" "unat (slot_count w) * unat (slot_capacity w) \<le> length ss"
    using assms(2) s by (simp_all add: win_geom_def)
  have i: "unat i < length ls"
    using assms(3) g by (simp add: word_less_nat_alt)
  note off = slot_offset [OF assms(2,3)]
  have len: "unat len \<le> unat (slot_capacity w)"
    using assms(5) by (simp add: word_le_nat_alt)
  with off g have fit: "unat i * unat (slot_capacity w) + unat len \<le> length ss"
    by linarith
  show ?thesis
  proof (cases "len > 0 \<and> data \<noteq> None")
    case True
    with assms(1,4) s i off(1) fit show ?thesis
      by (auto simp: store_slot_def fill_slot_def Let_def readable_def payload_def)
  next
    case False
    then have "payload data len = []"
      using assms(4) by (auto simp: payload_def readable_def word_greater_zero_iff split: option.splits)
    moreover have "w\<lparr>slots := Some ss, slot_lens := l\<rparr> = w\<lparr>slot_lens := l\<rparr>" for l
      using s by (cases w) simp
    ultimately show ?thesis
      using False assms(1) s i by (auto simp: store_slot_def fill_slot_def Let_def)
  qed
qed

lemma transmit_i_run:
  assumes "core c" "current_state c = ATC_HDLC_STATE_CONNECTED" "\<not> CTX_FLAG c HDLC_F_REMOTE_BUSY"
    and "tx_open c" "tx_fits c len" "readable data len"
  shows "atc_hdlc_transmit_i c data len = Some (say
    ((if vs c = va c then \<lambda>d. CTX_SET d HDLC_F_T1_ACTIVE else id)
       (CTX_CLR (sent_fields c (payload data len) len) HDLC_F_T2_ACTIVE))
    (sent_calls c (payload data len)), ATC_HDLC_OK)"
proof -
  obtain w where w: "tx_window c = Some w" "out_count c < unat (slot_count w)" "len \<le> slot_capacity w"
      "\<not> too_long c len"
    using assms(4,5) by (auto simp: tx_open_def tx_fits_def split: option.splits)
  have tx: "win_geom w" "tx_next_slot c < slot_count w"
    using coreD(3) [OF assms(1)] w(1) by (simp_all add: tx_ok_def)
  have seq: "unat (vs c) < 8" "unat (va c) < 8"
    using coreD(2) [OF assms(1)] by (simp_all add: seq_ok_def)
  then have out: "unat (mod8_dist (vs c) (va c)) = out_count c"
    by (simp add: out_count_def dist8_word)
  then have "\<not> slot_count w \<le> mod8_dist (vs c) (va c)"
    using w(2) by (simp add: word_le_nat_alt)
  moreover have "mod8_dist (vs c) (va c) = 0 \<longleftrightarrow> vs c = va c"
    using out seq dist8_0 [of "vs c" "va c"] by (simp add: unat_eq_zero [symmetric] out_count_def)
  moreover have "store_slot (c\<lparr>tx_next_slot := n\<rparr>) (tx_next_slot c) data len
      = Some (c\<lparr>tx_next_slot := n, tx_window := Some (fill_slot w (tx_next_slot c) (payload data len) len)\<rparr>)" for n
    using store_slot_run [of "c\<lparr>tx_next_slot := n\<rparr>" w "tx_next_slot c" data len] w tx assms(6) by simp
  ultimately show ?thesis
    using assms w tx
    by (simp add: atc_hdlc_transmit_i_def Let_def c_mod_succ frame_send_payload hdlc_run
        sent_fields_def sent_calls_def ring_succ_def not_less)
qed
lemma win_geom_fill:
  assumes "win_geom w" "i < slot_count w" "unat len = length p" "len \<le> slot_capacity w"
  shows "win_geom (fill_slot w i p len)"
proof -
  obtain ss ls where s: "slots w = Some ss" "slot_lens w = Some ls"
    using win_geom_lens [OF assms(1)] by blast
  have "unat i * unat (slot_capacity w) + length p \<le> length ss"
    using slot_offset(2) [OF assms(1,2)] assms(1,3,4) s
    by (simp add: win_geom_def word_le_nat_alt)
  with assms(1) s show ?thesis
    by (simp add: win_geom_def)
qed

lemma lens_ok_fill:
  assumes "win_geom w" "lens_ok w" "len \<le> slot_capacity w"
  shows "lens_ok (fill_slot w i p len)"
proof -
  obtain ss ls where s: "slots w = Some ss" "slot_lens w = Some ls"
    using win_geom_lens [OF assms(1)] by blast
  with assms(2,3) show ?thesis
    by (cases "unat i < length ls") (auto simp: lens_ok_def list_all_length nth_list_update)
qed

lemma ring_succ_less:
  assumes "i < slot_count w"
  shows "ring_succ w i < slot_count w"
proof (cases "i + 1 = slot_count w")
  case True
  then show ?thesis using assms by (auto simp: ring_succ_def intro: le_less_trans [OF word_zero_le])
next
  case False
  have "unat (i + 1) = Suc (unat i)" using assms by (rule unat_succ)
  moreover have "Suc (unat i) \<noteq> unat (slot_count w)"
    using False calculation by (metis word_unat_eq_iff)
  ultimately show ?thesis
    using False assms by (simp add: ring_succ_def word_less_nat_alt)
qed

lemma dist8_succ:
  "unat a < 8 \<Longrightarrow> unat b < 8 \<Longrightarrow> dist8 a b < 7 \<Longrightarrow> dist8 (mod8_succ a) b = Suc (dist8 a b)"
  by (auto simp: dist8_if unat_mod8_succ mod_if split: if_splits)

lemma sent_core:
  assumes "core c" "current_state c = ATC_HDLC_STATE_CONNECTED" "tx_open c" "tx_fits c len"
    and "unat len = length p"
  shows "core (sent_fields c p len)"
proof -
  obtain w where w: "tx_window c = Some w" "out_count c < unat (slot_count w)" "len \<le> slot_capacity w"
    using assms(3,4) by (auto simp: tx_open_def tx_fits_def split: option.splits)
  have tx: "win_geom w" "tx_next_slot c < slot_count w"
    using coreD(3) [OF assms(1)] w(1) by (simp_all add: tx_ok_def)
  have seq: "unat (vs c) < 8" "unat (va c) < 8" "unat (vr c) < 8"
    using coreD(2) [OF assms(1)] by (simp_all add: seq_ok_def)
  have good: "lens_ok w"
    using core_win_good [OF assms(1,2)] w(1) by (simp add: win_good_def)
  have "unat (slot_count w) \<le> 7"
    using tx(1) by (auto simp: win_geom_def split: option.splits)
  then have out: "dist8 (mod8_succ (vs c)) (va c) = Suc (out_count c)"
    using seq w(2) by (simp add: dist8_succ out_count_def)
  show ?thesis
  proof (rule coreI)
    show "ready (sent_fields c p len)" using assms(1) w by (simp add: sent_fields_def)
    show "rx_geom (sent_fields c p len)"
      using coreD(1) [OF assms(1)] w by (simp add: sent_fields_def)
    show "seq_ok (sent_fields c p len)" using seq w by (simp add: sent_fields_def seq_ok_def)
    show "tx_ok (sent_fields c p len)"
      using w tx good out assms(5) win_geom_fill [of w "tx_next_slot c" len p]
        lens_ok_fill [of w len "tx_next_slot c" p] ring_succ_less [of "tx_next_slot c" w]
      by (simp add: sent_fields_def tx_ok_def out_count_def)
  qed
qed

lemma settled_say [simp]: "settled (say c xs) = settled c"
  by (simp add: settled_def)

text \<open>Why a payload is refused, in the order of the checks.\<close>

definition tx_error :: "atc_hdlc_ctx_t \<Rightarrow> u32 \<Rightarrow> atc_hdlc_error_t option" where
  "tx_error c len = (if current_state c \<noteq> ATC_HDLC_STATE_CONNECTED then Some ATC_HDLC_ERR_BAD_STATE
     else if CTX_FLAG c HDLC_F_REMOTE_BUSY then Some ATC_HDLC_ERR_REMOTE_BUSY
     else if tx_window c = None then Some ATC_HDLC_ERR_NO_BUFFER
     else if \<not> tx_fits c len then Some ATC_HDLC_ERR_FRAME_SIZE
     else if \<not> tx_open c then Some ATC_HDLC_ERR_WINDOW_FULL
     else None)"

definition sent_ctx :: "atc_hdlc_ctx_t \<Rightarrow> u8 list \<Rightarrow> u32 \<Rightarrow> atc_hdlc_ctx_t" where
  "sent_ctx c p len = say ((if vs c = va c then \<lambda>d. CTX_SET d HDLC_F_T1_ACTIVE else id)
     (CTX_CLR (sent_fields c p len) HDLC_F_T2_ACTIVE)) (sent_calls c p)"

lemma transmit_i_spec:
  assumes "core c" "readable data len"
  shows "atc_hdlc_transmit_i c data len = Some (case tx_error c len of
     Some e \<Rightarrow> (c, e) | None \<Rightarrow> (sent_ctx c (payload data len) len, ATC_HDLC_OK))"
proof (cases "tx_error c len")
  case None
  then have "current_state c = ATC_HDLC_STATE_CONNECTED" "\<not> CTX_FLAG c HDLC_F_REMOTE_BUSY"
      "tx_open c" "tx_fits c len"
    by (simp_all add: tx_error_def split: if_splits)
  from transmit_i_run [OF assms(1) this assms(2)] None show ?thesis
    by (simp add: sent_ctx_def)
next
  case (Some e)
  show ?thesis
  proof (cases "tx_window c")
    case None
    with Some show ?thesis by (auto simp: atc_hdlc_transmit_i_def tx_error_def split: if_splits)
  next
    case w: (Some w)
    have seq: "unat (vs c) < 8" "unat (va c) < 8"
      using coreD(2) [OF assms(1)] by (simp_all add: seq_ok_def)
    have full: "slot_count w \<le> mod8_dist (vs c) (va c) \<longleftrightarrow> \<not> tx_open c"
      using w seq by (simp add: tx_open_def out_count_def word_le_nat_alt dist8_word not_less)
    have fits: "tx_fits c len \<longleftrightarrow> \<not> (too_long c len \<or> len > slot_capacity w)"
      using w by (auto simp: tx_fits_def)
    have big: "len > slot_capacity w \<Longrightarrow> len > 0 \<and> data \<noteq> None"
      using assms(2) by (auto simp: readable_def word_greater_zero_iff split: option.splits)
    show ?thesis
      using Some w full fits big by (auto simp: atc_hdlc_transmit_i_def tx_error_def Let_def split: if_splits)
  qed
qed

lemma transmit_i_settled:
  assumes "settled c" "readable data len"
  shows "runs (atc_hdlc_transmit_i c data len) (\<lambda>(c', e). settled c')"
proof (cases "tx_error c len")
  case None
  have c: "core c" "\<not> pending c" using assms(1) by (simp_all add: settled_def)
  from None have "core (sent_fields c (payload data len) len)"
    using c(1) assms(2) by (intro sent_core) (simp_all add: tx_error_def split: if_splits)
  moreover have "pending (sent_fields c (payload data len) len) = pending c"
    by (simp add: sent_fields_def split: option.split)
  ultimately show ?thesis
    using None c assms(2) by (simp add: transmit_i_spec sent_ctx_def settled_def)
next
  case (Some e)
  with assms show ?thesis by (simp add: transmit_i_spec settled_def)
qed

text \<open>The unnumbered frames: refused or emitted, and nothing else changes.\<close>

definition ui_error :: "atc_hdlc_ctx_t \<Rightarrow> octets \<Rightarrow> u32 \<Rightarrow> atc_hdlc_error_t option" where
  "ui_error c data len = (if data = None \<and> len > 0 then Some ATC_HDLC_ERR_BAD_PARAM
     else if too_long c len then Some ATC_HDLC_ERR_FRAME_SIZE else None)"

lemma transmit_u_spec:
  assumes "core c" "data = None \<or> readable data len"
  shows "atc_hdlc_transmit_ui c addr data len = Some (case ui_error c data len of
       Some e \<Rightarrow> (c, e)
     | None \<Rightarrow> (say (c\<lparr>tx_crc := driver_fcs (drv c) (addr # U_CTRL U_UI 0 # payload data len)\<rparr>)
         (frame_calls (drv c) addr (U_CTRL U_UI 0) (payload data len)), ATC_HDLC_OK))"
    and "atc_hdlc_transmit_test c addr data len = Some (case ui_error c data len of
       Some e \<Rightarrow> (c, e)
     | None \<Rightarrow> (say (c\<lparr>tx_crc := driver_fcs (drv c) (addr # U_CTRL U_TEST 1 # payload data len)\<rparr>)
         (frame_calls (drv c) addr (U_CTRL U_TEST 1) (payload data len)), ATC_HDLC_OK))"
proof -
  have "readable data len" if "ui_error c data len = None"
    using that assms(2) by (auto simp: ui_error_def readable_def word_greater_zero_iff split: if_splits)
  then show "atc_hdlc_transmit_ui c addr data len = Some (case ui_error c data len of
       Some e \<Rightarrow> (c, e)
     | None \<Rightarrow> (say (c\<lparr>tx_crc := driver_fcs (drv c) (addr # U_CTRL U_UI 0 # payload data len)\<rparr>)
         (frame_calls (drv c) addr (U_CTRL U_UI 0) (payload data len)), ATC_HDLC_OK))"
    "atc_hdlc_transmit_test c addr data len = Some (case ui_error c data len of
       Some e \<Rightarrow> (c, e)
     | None \<Rightarrow> (say (c\<lparr>tx_crc := driver_fcs (drv c) (addr # U_CTRL U_TEST 1 # payload data len)\<rparr>)
         (frame_calls (drv c) addr (U_CTRL U_TEST 1) (payload data len)), ATC_HDLC_OK))"
    using assms(1) by (auto simp: atc_hdlc_transmit_ui_def atc_hdlc_transmit_test_def ui_error_def
        frame_send_payload split: option.splits)
qed

lemma transmit_u_settled:
  assumes "settled c" "data = None \<or> readable data len"
  shows "runs (atc_hdlc_transmit_ui c addr data len) (\<lambda>(c', e). settled c')"
    "runs (atc_hdlc_transmit_test c addr data len) (\<lambda>(c', e). settled c')"
proof -
  have "core c" using assms(1) by (simp add: settled_def)
  then show "runs (atc_hdlc_transmit_ui c addr data len) (\<lambda>(c', e). settled c')"
    "runs (atc_hdlc_transmit_test c addr data len) (\<lambda>(c', e). settled c')"
    using assms by (simp_all add: transmit_u_spec settled_def split: option.split)
qed

lemma emit_loop_payload:
  "ready c \<Longrightarrow> readable data len \<Longrightarrow> emit_loop c data 0 (unat len) =
     Some (say (c\<lparr>tx_crc := foldl (driver_step (drv c)) (tx_crc c) (payload data len)\<rparr>)
       (map (\<lambda>b. On_send b False) (stuff (payload data len))))"
  by (cases data) (simp_all add: readable_def payload_def emit_loop_run)

lemma ui_stream_settled:
  "settled c \<Longrightarrow> runs (atc_hdlc_transmit_ui_start c addr) settled"
  "settled c \<Longrightarrow> data = None \<or> readable data len \<Longrightarrow> runs (atc_hdlc_transmit_ui_data c data len) settled"
  "settled c \<Longrightarrow> runs (atc_hdlc_transmit_ui_end c) settled"
proof -
  show "settled c \<Longrightarrow> runs (atc_hdlc_transmit_ui_start c addr) settled"
    by (simp add: atc_hdlc_transmit_ui_start_def hdlc_run settled_def)
  show "settled c \<Longrightarrow> runs (atc_hdlc_transmit_ui_end c) settled"
    by (simp add: atc_hdlc_transmit_ui_end_def hdlc_run settled_def)
  assume "settled c" "data = None \<or> readable data len"
  then show "runs (atc_hdlc_transmit_ui_data c data len) settled"
    by (cases "readable data len")
      (auto simp: atc_hdlc_transmit_ui_data_def emit_loop_payload settled_def readable_def word_greater_zero_iff)
qed

lemma station_settled:
  assumes "settled c"
  shows "runs (atc_hdlc_link_setup c peer) (\<lambda>(c', e). settled c')"
    "runs (atc_hdlc_disconnect c) (\<lambda>(c', e). settled c')"
    "runs (atc_hdlc_link_reset c) (\<lambda>(c', e). settled c')"
    "runs (atc_hdlc_set_local_busy c busy) (\<lambda>(c', e). settled c')"
    "runs (atc_hdlc_t1_expired c) settled"
    "runs (atc_hdlc_t2_expired c) settled"
    "runs (atc_hdlc_abort c) settled"
proof -
  have c: "core c" "\<not> pending c" using assms by (simp_all add: settled_def)
  show "runs (atc_hdlc_link_setup c peer) (\<lambda>(c', e). settled c')"
    using c by (simp add: atc_hdlc_link_setup_def Let_def hdlc_run settled_def core_state)
  show "runs (atc_hdlc_disconnect c) (\<lambda>(c', e). settled c')"
    using c by (simp add: atc_hdlc_disconnect_def Let_def hdlc_run settled_def core_state)
  show "runs (atc_hdlc_link_reset c) (\<lambda>(c', e). settled c')"
    using c by (simp add: atc_hdlc_link_reset_def Let_def hdlc_run settled_def core_state)
  show "runs (atc_hdlc_set_local_busy c busy) (\<lambda>(c', e). settled c')"
    using c by (simp add: atc_hdlc_set_local_busy_def Let_def hdlc_run settled_def)
  show "runs (atc_hdlc_t2_expired c) settled"
    using c by (simp add: atc_hdlc_t2_expired_def Let_def hdlc_run settled_def)
  show "runs (atc_hdlc_abort c) settled"
    using c by (simp add: atc_hdlc_abort_def callback_if_say Let_def hdlc_run settled_def core_state)
  show "runs (atc_hdlc_t1_expired c) settled"
  proof -
    let ?d = "CTX_CLR c HDLC_F_T1_ACTIVE\<lparr>n2 := n2 c + 1\<rparr>"
    have d: "core ?d" "\<not> pending ?d" using c by simp_all
    have "core (?d\<lparr>current_state := ATC_HDLC_STATE_DISCONNECTED\<rparr>)"
      using d(1) by (rule core_state) simp
    with d show ?thesis
      by (cases "current_state c") (simp_all add: atc_hdlc_t1_expired_def Let_def hdlc_run settled_def)
  qed
qed
end
