(* ===== verification/Hdlc_Deframer.thy ===== *)
theory Hdlc_Deframer
  imports Hdlc_Rx_Safety
begin

text \<open>
  The receiver against a reference deframer: a two-state machine on octet lists without
  buffers, indices or running checksums. \<open>view\<close> abstracts a context to its state;
  \<open>rx_byte_stores\<close> and \<open>rx_byte_accepts\<close> show that every received octet moves the view as
  \<open>deframe\<close> does, and that a frame is dispatched exactly when \<open>deframe\<close> yields one. Whole
  frames follow: what the senders emit is received, what fails the check is dropped.
\<close>

section \<open>The reference deframer\<close>

datatype deframer = Hunt | Gather "u8 list" bool

definition good_fcs :: "atc_hdlc_crc_ops_t \<Rightarrow> u8 list \<Rightarrow> bool" where
  "good_fcs d xs \<longleftrightarrow> driver_fcs d (take (length xs - 2) xs) = held_fcs xs"

definition our_address :: "atc_hdlc_ctx_t \<Rightarrow> u8 \<Rightarrow> bool" where
  "our_address c b \<longleftrightarrow> b = my_address c \<or> b = peer_address c \<or> b = ATC_HDLC_BROADCAST_ADDRESS"

definition rx_capacity :: "atc_hdlc_ctx_t \<Rightarrow> nat" where
  "rx_capacity c = (case rx_buf c of None \<Rightarrow> 0 | Some rb \<Rightarrow> unat (capacity rb))"

definition gather :: "atc_hdlc_ctx_t \<Rightarrow> u8 list \<Rightarrow> u8 \<Rightarrow> deframer" where
  "gather c xs b = (if rx_capacity c \<le> length xs \<or> xs = [] \<and> \<not> our_address c b then Hunt
     else Gather (xs @ [b]) False)"

fun deframe :: "atc_hdlc_ctx_t \<Rightarrow> deframer \<Rightarrow> u8 \<Rightarrow> deframer \<times> u8 list option" where
  "deframe c Hunt b = (if b = FLAG then Gather [] False else Hunt, None)"
| "deframe c (Gather xs esc) b =
     (if b = FLAG then (Gather [] False, if 4 \<le> length xs \<and> good_fcs (drv c) xs then Some xs else None)
      else if b = ESC then (Gather xs True, None)
      else (gather c xs (if esc then b XOR XOR_MASK else b), None))"

definition view :: "atc_hdlc_ctx_t \<Rightarrow> deframer" where
  "view c = (if rx_state c = RX_HUNT then Hunt else Gather (held_octets c) (rx_state c = RX_ESC))"

text \<open>The running FCS has taken all but the last two octets held.\<close>

definition rx_inv :: "atc_hdlc_ctx_t \<Rightarrow> bool" where
  "rx_inv c \<longleftrightarrow> core c \<and> (rx_state c \<noteq> RX_HUNT \<longrightarrow>
     rx_crc c = driver_fcs (drv c) (take (unat (rx_index c) - 2) (held_octets c)))
     \<and> (rx_state c = RX_ADDR \<longrightarrow> rx_index c = 0)"

lemma rx_inv_core [simp]: "rx_inv c \<Longrightarrow> core c"
  by (simp add: rx_inv_def)

lemma view_reset [simp]:
  "view (rx_reset RX_ADDR c) = Gather [] False" "view (rx_reset RX_HUNT c) = Hunt"
  by (simp_all add: view_def rx_reset_def held_octets_def split: option.split)

lemma rx_inv_reset [simp]: "core c \<Longrightarrow> rx_inv (rx_reset st c)"
  by (simp add: rx_inv_def) (simp add: rx_reset_def held_octets_def driver_fcs_def split: option.split)

lemma frame_held_view:
  assumes "rx_inv c" "rx_state c \<noteq> RX_HUNT"
  shows "frame_held c \<longleftrightarrow> 4 \<le> length (held_octets c) \<and> good_fcs (drv c) (held_octets c)"
proof -
  have "length (held_octets c) = unat (rx_index c)"
    using rx_inv_core [OF assms(1)] by (rule length_held)
  moreover have "rx_crc c = driver_fcs (drv c) (take (unat (rx_index c) - 2) (held_octets c))"
    using assms unfolding rx_inv_def by blast
  ultimately show ?thesis
    using assms(2) unfolding frame_held_def good_fcs_def by metis
qed

lemma held_index:
  assumes "core c" "rx_buf c = Some rb" "buffer rb = Some xs"
  shows "held_octets c = take (unat (rx_index c)) xs" "unat (rx_index c) \<le> length xs"
    "rx_capacity c = unat (capacity rb)" "unat (capacity rb) \<le> length xs"
  using coreD(1) [OF assms(1)] assms(2,3)
  by (simp_all add: held_octets_def rx_capacity_def rx_geom_def)

lemma rx_store_view:
  assumes "rx_inv c" "rx_state c = RX_DATA \<or> rx_index c = 0" "rx_state c \<noteq> RX_HUNT"
  shows "runs (rx_store c b) (\<lambda>c'. rx_inv c' \<and> rx_frame c c' \<and> view c' = gather c (held_octets c) b
    \<and> rx_capacity c' = rx_capacity c)"
proof -
  have core: "core c" using assms(1) by simp
  obtain rb xs where b: "rx_buf c = Some rb" "buffer rb = Some xs"
    using rx_geom_buf [OF core] by blast
  note h = held_index [OF core b]
  let ?i = "unat (rx_index c)" and ?ys = "xs[unat (rx_index c) := b]"
  let ?d = "c\<lparr>rx_buf := Some (rb\<lparr>buffer := Some ?ys\<rparr>), rx_crc := lag_fcs c ?ys, rx_index := rx_index c + 1\<rparr>"
  show ?thesis
  proof (cases "rx_index c \<ge> capacity rb")
    case True
    then have "rx_capacity c \<le> length (held_octets c)"
      using h by (simp add: word_le_nat_alt)
    with True core show ?thesis
      unfolding rx_store_run [OF core b]
      by (simp add: gather_def rx_reset_frame) (simp add: rx_reset_def rx_capacity_def)
  next
    case False
    then have i: "?i < unat (capacity rb)" by (simp add: word_less_nat_alt word_le_nat_alt)
    then have len: "\<not> rx_capacity c \<le> length (held_octets c)" "?i < length xs"
      using h by simp_all
    have suc: "unat (rx_index c + 1) = Suc ?i"
      using False by (intro unat_succ [of _ "capacity rb"]) simp
    have held: "held_octets (?d\<lparr>rx_state := st\<rparr>) = held_octets c @ [b]" for st
      using len(2) suc h by (simp add: held_octets_def take_Suc_conv_app_nth b)
    have fr: "rx_frame c (?d\<lparr>rx_state := st\<rparr>)" for st
      by (simp add: rx_frame_def)
    have post: "core (?d\<lparr>rx_state := st\<rparr>)" for st
      by (rule rx_frame_core [OF fr core]) (use suc i b h in \<open>simp add: rx_geom_def\<close>)
    have crc: "lag_fcs c ?ys = driver_fcs (drv c) (take (Suc ?i - 2) (held_octets c @ [b]))"
    proof (cases "?i < 2")
      case True
      then have "\<not> rx_index c \<ge> 2" "?i - 2 = 0" "Suc ?i - 2 = 0"
        by (simp_all add: word_le_nat_alt)
      then show ?thesis using assms by (simp add: lag_fcs_def rx_inv_def)
    next
      case False
      then have two: "rx_index c \<ge> 2" by (simp add: word_le_nat_alt)
      have "take (Suc ?i - 2) (held_octets c @ [b]) = take (?i - 2) (held_octets c) @ [?ys ! (?i - 2)]"
      proof -
        have "Suc ?i - 2 = Suc (?i - 2)" using False by simp
        then have "take (Suc ?i - 2) (held_octets c @ [b]) = take (Suc (?i - 2)) (take ?i xs)"
          using False h by simp
        also have "\<dots> = take (?i - 2) (take ?i xs) @ [take ?i xs ! (?i - 2)]"
          using False len(2) by (intro take_Suc_conv_app_nth) simp
        finally show ?thesis
          using False h by simp
      qed
      then show ?thesis
        using two assms by (simp add: lag_fcs_def rx_inv_def driver_fcs_def)
    qed
    have cap: "rx_capacity (?d\<lparr>rx_state := st\<rparr>) = rx_capacity c" for st
      using b by (simp add: rx_capacity_def)
    have view: "view (?d\<lparr>rx_state := RX_DATA\<rparr>) = Gather (held_octets c @ [b]) False"
      by (simp add: view_def held del: atc_hdlc_ctx_t.update_convs)
    have drop: "rx_frame c (rx_reset RX_HUNT ?d)" "rx_capacity (rx_reset RX_HUNT ?d) = rx_capacity c"
      using b by (simp_all add: rx_frame_def rx_reset_def rx_capacity_def)
    have inv: "rx_inv (?d\<lparr>rx_state := st\<rparr>)" if "st = RX_DATA" for st
      unfolding rx_inv_def held using post crc suc that by simp
    have dst: "?d\<lparr>rx_state := rx_state c\<rparr> = ?d" by simp
    have empty: "held_octets c = [] \<longleftrightarrow> rx_index c = 0"
      using h len(2) by (auto simp: unat_eq_zero)
    show ?thesis
    proof (cases "rx_index c = 0")
      case True
      show ?thesis
      proof (cases "our_address c b")
        case ours: True
        then have "rx_store c b = Some (?d\<lparr>rx_state := RX_DATA\<rparr>)"
          using False True unfolding rx_store_run [OF core b] our_address_def Let_def by auto
        moreover have "gather c (held_octets c) b = Gather (held_octets c @ [b]) False"
          using len(1) ours by (simp add: gather_def)
        ultimately show ?thesis
          using inv [of RX_DATA] fr [of RX_DATA] view cap [of RX_DATA] by simp
      next
        case other: False
        then have "rx_store c b = Some (rx_reset RX_HUNT ?d)"
          using False True unfolding rx_store_run [OF core b] our_address_def Let_def by auto
        moreover have "gather c (held_octets c) b = Hunt"
          using True empty other by (simp add: gather_def)
        moreover have "core ?d" using post [of "rx_state c"] dst by simp
        ultimately show ?thesis using drop by simp
      qed
    next
      case idx: False
      with assms(2) have "rx_state c = RX_DATA" by simp
      with dst have dst': "?d\<lparr>rx_state := RX_DATA\<rparr> = ?d" by metis
      have "rx_store c b = Some ?d"
        using False idx unfolding rx_store_run [OF core b] Let_def by auto
      moreover have "gather c (held_octets c) b = Gather (held_octets c @ [b]) False"
        using len(1) empty idx by (simp add: gather_def)
      ultimately show ?thesis
        using inv [of RX_DATA] fr [of RX_DATA] view cap [of RX_DATA] unfolding dst' by simp
    qed
  qed
qed

section \<open>Dispatching depends on the information field only\<close>

lemma deliver_cong:
  "map_option (take (unat n)) i = map_option (take (unat n)) j \<Longrightarrow> deliver c i n = deliver c j n"
  by (simp add: deliver_def)

lemma frame_send_cong:
  assumes "ready c" "info_ok i n" "info_ok j n" "map_option (take (unat n)) i = map_option (take (unat n)) j"
  shows "frame_send c addr ctrl i (ucast n) = frame_send c addr ctrl j (ucast n)"
  using assms by (cases i; cases j) (simp_all add: info_ok_def frame_send_run)

lemma dispatch_frame_cong:
  assumes "ready c" "info_ok i n" "info_ok j n" "map_option (take (unat n)) i = map_option (take (unat n)) j"
  shows "dispatch_frame c addr ctrl i n = dispatch_frame c addr ctrl j n"
proof -
  have null: "i = None \<longleftrightarrow> j = None"
    using assms(4) by (cases i; cases j) simp_all
  have send: "frame_send c a t i (ucast n) = frame_send c a t j (ucast n)" for a t
    using assms by (rule frame_send_cong)
  have data: "deliver d i n = deliver d j n" for d
    using assms(4) by (rule deliver_cong)
  have u: "handle_uframe c addr ctrl i n = handle_uframe c addr ctrl j n"
    unfolding handle_uframe_def null send data ..
  have i: "handle_iframe c ctrl i n = handle_iframe c ctrl j n"
    unfolding handle_iframe_def handle_in_sequence_iframe_def data ..
  show ?thesis
    unfolding dispatch_frame_def state_disconnected_def state_connecting_def state_connected_def
      state_disconnecting_def state_frmr_error_def u i data ..
qed

text \<open>The frame a list of octets between two flags stands for, as the dispatcher sees it.\<close>

definition frame_info :: "u8 list \<Rightarrow> octets" where
  "frame_info xs = (if length xs = 4 then None else Some (take (length xs - 4) (drop 2 xs)))"

definition accept_frame :: "atc_hdlc_ctx_t \<Rightarrow> u8 list \<Rightarrow> atc_hdlc_ctx_t option" where
  "accept_frame c xs = dispatch_frame c (xs ! 0) (xs ! 1) (frame_info xs) (word_of_nat (length xs - 4))"

lemma handle_flag_accept:
  assumes "core c" "4 \<le> length (held_octets c)"
  shows "dispatch_frame c (held_octets c ! 0) (held_octets c ! 1) (info_ptr c) (info_size c)
    = accept_frame c (held_octets c)"
proof -
  obtain rb xs where b: "rx_buf c = Some rb" "buffer rb = Some xs"
    using rx_geom_buf [OF assms(1)] by blast
  note h = held_index [OF assms(1) b]
  let ?n = "length (held_octets c)"
  have n: "?n = unat (rx_index c)" using assms(1) by (rule length_held)
  have size: "unat (info_size c) \<le> ?n - 4"
    by (simp add: info_size_def unat_of_nat)
  have ok: "info_ok (info_ptr c) (info_size c)"
    using assms by (rule info_ok_held)
  have ok': "info_ok (frame_info (held_octets c)) (info_size c)"
    using size by (simp add: info_ok_def frame_info_def) (simp add: info_size_def)
  have "map_option (take (unat (info_size c))) (info_ptr c)
      = map_option (take (unat (info_size c))) (frame_info (held_octets c))"
  proof (cases "?n = 4")
    case True
    then show ?thesis by (simp add: info_ptr_def frame_info_def)
  next
    case False
    have "take (unat (info_size c)) (drop 2 xs) = take (unat (info_size c)) (take (?n - 4) (drop 2 (held_octets c)))"
      using size n unfolding h(1) by (simp add: drop_take min_def)
    with False assms(2) b show ?thesis by (simp add: info_ptr_def frame_info_def)
  qed
  then have "dispatch_frame c (held_octets c ! 0) (held_octets c ! 1) (info_ptr c) (info_size c)
      = dispatch_frame c (held_octets c ! 0) (held_octets c ! 1) (frame_info (held_octets c)) (info_size c)"
    using assms(1) ok ok' by (intro dispatch_frame_cong) simp_all
  then show ?thesis by (simp add: accept_frame_def info_size_def)
qed

section \<open>The receiver refines the deframer\<close>

definition rx_to :: "atc_hdlc_ctx_t \<Rightarrow> deframer \<Rightarrow> atc_hdlc_ctx_t \<Rightarrow> bool" where
  "rx_to c v c' \<longleftrightarrow> rx_inv c' \<and> rx_frame c c' \<and> view c' = v \<and> rx_capacity c' = rx_capacity c"

lemma rx_state_fields [simp]:
  "held_octets (c\<lparr>rx_state := st\<rparr>) = held_octets c"
  "rx_capacity (c\<lparr>rx_state := st\<rparr>) = rx_capacity c"
  "our_address (c\<lparr>rx_state := st\<rparr>) = our_address c"
  "gather (c\<lparr>rx_state := st\<rparr>) = gather c"
  by (simp_all add: held_octets_def rx_capacity_def our_address_def gather_def fun_eq_iff cong: option.case_cong)

lemma rx_to_fields:
  assumes "rx_to c v c'"
  shows "rx_inv c'" "rx_frame c c'" "view c' = v" "rx_capacity c' = rx_capacity c" "drv c' = drv c"
    "plat c' = plat c" "our_address c' = our_address c"
proof -
  show "drv c' = drv c" "plat c' = plat c" "our_address c' = our_address c"
    using assms by (auto simp: rx_to_def rx_frame_def drv_def plat_def our_address_def
        simp del: platform_ready crc_ready)
qed (use assms in \<open>simp_all add: rx_to_def\<close>)

lemma rx_byte_stores:
  assumes "rx_inv c" "deframe c (view c) b = (v, None)"
  shows "runs (rx_byte c b) (rx_to c v)"
proof -
  have core: "core c" using assms(1) by simp
  have keep: "rx_frame c (rx_reset RX_ADDR c)" "rx_capacity (rx_reset RX_ADDR c) = rx_capacity c"
    by (rule rx_reset_frame) (simp add: rx_reset_def rx_capacity_def)
  consider "b = FLAG" | "b \<noteq> FLAG" "rx_state c = RX_HUNT" | "b = ESC" "b \<noteq> FLAG" "rx_state c \<noteq> RX_HUNT"
    | "b \<noteq> FLAG" "b \<noteq> ESC" "rx_state c \<noteq> RX_HUNT" by blast
  then show ?thesis
  proof cases
    case 1
    have "\<not> frame_held c"
    proof (cases "rx_state c = RX_HUNT")
      case True
      then show ?thesis by (simp add: frame_held_def)
    next
      case False
      then show ?thesis
        using assms frame_held_view 1 by (simp add: view_def split: if_splits)
    qed
    moreover have "v = Gather [] False"
      using assms(2) 1 by (simp add: view_def split: if_splits)
    ultimately show ?thesis
      using 1 core keep by (simp add: rx_byte_def handle_flag_run rx_to_def)
  next
    case 2
    then show ?thesis using assms by (simp add: rx_byte_def rx_to_def view_def rx_frame_def)
  next
    case 3
    have "rx_inv (c\<lparr>rx_state := RX_ESC\<rparr>)"
      using assms(1) 3 by (simp add: rx_inv_def)
    with 3 assms(2) show ?thesis
      by (simp add: rx_byte_def rx_to_def rx_frame_def view_def)
  next
    case 4
    show ?thesis
    proof (cases "rx_state c = RX_ESC")
      case True
      let ?c = "c\<lparr>rx_state := RX_DATA\<rparr>"
      have "rx_inv ?c"
        using assms(1) True by (simp add: rx_inv_def)
      then have "runs (rx_store ?c (b XOR XOR_MASK)) (\<lambda>c'. rx_inv c' \<and> rx_frame ?c c'
          \<and> view c' = gather ?c (held_octets ?c) (b XOR XOR_MASK) \<and> rx_capacity c' = rx_capacity ?c)"
        by (rule rx_store_view) simp_all
      moreover have "v = gather c (held_octets c) (b XOR XOR_MASK)"
        using assms(2) 4 True by (simp add: view_def)
      ultimately show ?thesis
        using 4 True by (simp add: rx_byte_def rx_to_def [abs_def] rx_frame_def)
    next
      case False
      have "rx_state c = RX_DATA \<or> rx_index c = 0"
        using assms(1) 4(3) False by (cases "rx_state c") (simp_all add: rx_inv_def)
      then have "runs (rx_store c b) (\<lambda>c'. rx_inv c' \<and> rx_frame c c'
          \<and> view c' = gather c (held_octets c) b \<and> rx_capacity c' = rx_capacity c)"
        using assms(1) 4(3) by (intro rx_store_view)
      moreover have "v = gather c (held_octets c) b"
        using assms(2) 4 False by (simp add: view_def)
      ultimately show ?thesis
        using 4 False by (simp add: rx_byte_def rx_to_def [abs_def])
    qed
  qed
qed

lemma rx_byte_accepts:
  assumes "rx_inv c" "deframe c (view c) b = (v, Some xs)"
  shows "rx_byte c b = map_option (rx_reset RX_ADDR) (accept_frame c xs)" "b = FLAG" "v = Gather [] False"
proof -
  have hunt: "rx_state c \<noteq> RX_HUNT"
    using assms(2) by (auto simp: view_def)
  then show "b = FLAG" "v = Gather [] False"
    using assms(2) by (auto simp: view_def split: if_splits)
  have xs: "xs = held_octets c" "4 \<le> length (held_octets c)" "good_fcs (drv c) (held_octets c)"
    using assms(2) hunt by (auto simp: view_def split: if_splits)
  then have "frame_held c" using assms(1) hunt by (simp add: frame_held_view)
  then show "rx_byte c b = map_option (rx_reset RX_ADDR) (accept_frame c xs)"
    using \<open>b = FLAG\<close> assms(1) xs(2)
    by (simp add: xs(1) rx_byte_def handle_flag_run handle_flag_accept [simplified] map_conv_bind_option comp_def)
qed

section \<open>Whole frames\<close>

definition deframes :: "atc_hdlc_ctx_t \<Rightarrow> deframer \<Rightarrow> u8 list \<Rightarrow> deframer" where
  "deframes c v ys = foldl (\<lambda>v b. fst (deframe c v b)) v ys"

lemma deframes_simps [simp]:
  "deframes c v [] = v" "deframes c v (b # bs) = deframes c (fst (deframe c v b)) bs"
  "deframes c v (xs @ ys) = deframes c (deframes c v xs) ys"
  by (simp_all add: deframes_def)

lemma deframe_cong:
  assumes "rx_frame c c'" "rx_capacity c' = rx_capacity c"
  shows "deframe c' v b = deframe c v b"
proof -
  have "drv c' = drv c" "our_address c' = our_address c"
    using rx_frame_fields [OF assms(1)] by (auto simp: drv_def our_address_def)
  with assms(2) show ?thesis
    by (cases v) (simp_all add: gather_def)
qed

lemma deframes_cong:
  "rx_frame c c' \<Longrightarrow> rx_capacity c' = rx_capacity c \<Longrightarrow> deframes c' v ys = deframes c v ys"
  by (simp add: deframes_def deframe_cong)

lemma deframe_no_flag: "b \<noteq> FLAG \<Longrightarrow> snd (deframe c v b) = None"
  by (cases v) simp_all

lemma rx_to_trans: "rx_to a v b \<Longrightarrow> rx_to b v' c \<Longrightarrow> rx_to a v' c"
  using rx_frame_trans [of a b c] by (simp add: rx_to_def)

lemma rx_octets_gather:
  "rx_inv c \<Longrightarrow> FLAG \<notin> set ys \<Longrightarrow> runs (rx_octets c ys) (rx_to c (deframes c (view c) ys))"
proof (induction ys arbitrary: c)
  case Nil
  then show ?case by (simp add: rx_to_def rx_frame_def)
next
  case (Cons b ys)
  obtain v where v: "deframe c (view c) b = (v, None)"
    using deframe_no_flag [of b c "view c"] Cons.prems(2) by (cases "deframe c (view c) b") auto
  obtain d where d: "rx_byte c b = Some d" "rx_to c v d"
    using runs_Some_exists [OF rx_byte_stores [OF Cons.prems(1) v]] by blast
  then have "rx_inv d" "view d = v" and same: "deframes d v ys = deframes c v ys"
    by (simp_all add: rx_to_def deframes_cong)
  then have "runs (rx_octets d ys) (rx_to d (deframes c v ys))"
    using Cons.IH [of d] Cons.prems(2) by simp
  then have "runs (rx_octets d ys) (rx_to c (deframes c v ys))"
    by (rule runs_mono) (use d rx_to_trans in blast)
  with d v show ?case by simp
qed

lemma escape_no_flag: "FLAG \<notin> set (escape b)"
  by (auto simp: escape_def FLAG_def ESC_def XOR_MASK_def)

lemma stuff_no_flag: "FLAG \<notin> set (stuff xs)"
  using escape_no_flag by (induction xs) auto

lemma deframes_escape:
  "deframes c (Gather xs False) (escape b) = gather c xs b"
  by (auto simp: escape_def FLAG_def ESC_def XOR_MASK_def)

lemma deframes_hunt: "FLAG \<notin> set ys \<Longrightarrow> deframes c Hunt ys = Hunt"
  by (induction ys) auto

lemma deframes_stuff:
  "length xs + length zs \<le> rx_capacity c \<Longrightarrow> (xs = [] \<longrightarrow> zs \<noteq> [] \<longrightarrow> our_address c (hd zs)) \<Longrightarrow>
   deframes c (Gather xs False) (stuff zs) = Gather (xs @ zs) False"
proof (induction zs arbitrary: xs)
  case (Cons z zs)
  then have "gather c xs z = Gather (xs @ [z]) False" by (auto simp: gather_def)
  with Cons show ?case by (simp add: deframes_escape)
qed simp

definition idle_rx :: "atc_hdlc_ctx_t \<Rightarrow> bool" where
  "idle_rx c \<longleftrightarrow> (case view c of Hunt \<Rightarrow> True | Gather xs esc \<Rightarrow> xs = [])"

lemma rx_flag_idle:
  assumes "rx_inv c" "idle_rx c"
  shows "runs (rx_byte c FLAG) (rx_to c (Gather [] False))"
proof -
  have "deframe c (view c) FLAG = (Gather [] False, None)"
    using assms(2) by (cases "view c") (simp_all add: idle_rx_def)
  with assms(1) show ?thesis by (rule rx_byte_stores)
qed

text \<open>Stuffed octets between two flags, received by a station between frames.\<close>

lemma rx_stuffed:
  assumes "rx_inv c" "idle_rx c"
  shows "\<exists>c0. rx_to c (deframes c (Gather [] False) (stuff zs)) c0 \<and>
     rx_octets c (FLAG # stuff zs @ [FLAG]) = rx_byte c0 FLAG"
proof -
  obtain d where d: "rx_byte c FLAG = Some d" "rx_to c (Gather [] False) d"
    using runs_Some_exists [OF rx_flag_idle [OF assms]] by blast
  then have dd: "rx_inv d" "view d = Gather [] False" "deframes d v ys = deframes c v ys" for v ys
    by (simp_all add: rx_to_def deframes_cong)
  then obtain e where e: "rx_octets d (stuff zs) = Some e" "rx_to d (deframes c (Gather [] False) (stuff zs)) e"
    using runs_Some_exists [OF rx_octets_gather [OF dd(1) stuff_no_flag [of zs]]] dd by auto
  then have "rx_to c (deframes c (Gather [] False) (stuff zs)) e" using d rx_to_trans by blast
  moreover have "rx_octets c (FLAG # stuff zs @ [FLAG]) = rx_byte e FLAG"
    using d e by (simp add: rx_octets_append)
  ultimately show ?thesis by blast
qed

lemma rx_stuffed_accept:
  assumes "rx_inv c" "idle_rx c" "length zs \<le> rx_capacity c" "4 \<le> length zs" "our_address c (hd zs)"
    and "good_fcs (drv c) zs"
  shows "\<exists>c0. rx_to c (Gather zs False) c0 \<and>
     rx_octets c (FLAG # stuff zs @ [FLAG]) = map_option (rx_reset RX_ADDR) (accept_frame c0 zs)"
proof -
  have "deframes c (Gather [] False) (stuff zs) = Gather zs False"
    using assms(3,5) deframes_stuff [of "[]" zs c] by simp
  then obtain c0 where c0: "rx_to c (Gather zs False) c0"
      "rx_octets c (FLAG # stuff zs @ [FLAG]) = rx_byte c0 FLAG"
    using rx_stuffed [OF assms(1,2), of zs] by auto
  then have "rx_inv c0" "deframe c0 (view c0) FLAG = (Gather [] False, Some zs)"
    using assms(4,6) rx_to_fields [OF c0(1)] by simp_all
  from rx_byte_accepts(1) [OF this] c0 show ?thesis by auto
qed

lemma good_fcs_body: "good_fcs d (frame_body d addr ctrl info)"
proof -
  let ?f = "driver_fcs d (addr # ctrl # info)"
  have "?f = ucast (ucast (?f AND 0xff) :: u8) OR push_bit 8 (ucast (ucast (drop_bit 8 ?f) :: u8))"
    using fcs_octets by blast
  then show ?thesis
    by (simp add: good_fcs_def held_fcs_def frame_body_def fcs_field_def nth_append)
qed

lemma accept_frame_body:
  "accept_frame c (frame_body d addr ctrl info) =
     dispatch_frame c addr ctrl (if info = [] then None else Some info) (word_of_nat (length info))"
  by (simp add: accept_frame_def frame_body_def frame_info_def fcs_field_def)

lemma rx_frame_octets:
  assumes "rx_inv c" "idle_rx c" "length info + 4 \<le> rx_capacity c" "our_address c addr"
  shows "\<exists>c0. rx_to c (Gather (frame_body (drv c) addr ctrl info) False) c0 \<and>
     rx_octets c (frame_octets (drv c) addr ctrl info) = map_option (rx_reset RX_ADDR)
       (dispatch_frame c0 addr ctrl (if info = [] then None else Some info) (word_of_nat (length info)))"
proof -
  let ?zs = "frame_body (drv c) addr ctrl info"
  have "length ?zs \<le> rx_capacity c" "4 \<le> length ?zs" "our_address c (hd ?zs)"
    using assms(3,4) by (simp_all add: frame_body_def fcs_field_def)
  then show ?thesis
    using rx_stuffed_accept [OF assms(1,2) _ _ _ good_fcs_body]
    by (simp add: frame_octets_def accept_frame_body)
qed

text \<open>Octets that fail the check, or are not for this station, or do not fit, change nothing.\<close>

lemma deframes_stuff_cases:
  "deframes c (Gather xs False) (stuff zs) = Hunt \<or>
   deframes c (Gather xs False) (stuff zs) = Gather (xs @ zs) False
     \<and> (zs \<noteq> [] \<longrightarrow> length xs + length zs \<le> rx_capacity c \<and> (xs = [] \<longrightarrow> our_address c (hd zs)))"
proof (induction zs arbitrary: xs)
  case (Cons z zs)
  show ?case
  proof (cases "gather c xs z")
    case Hunt
    then show ?thesis by (simp add: deframes_escape deframes_hunt stuff_no_flag)
  next
    case (Gather ys esc)
    then have g: "ys = xs @ [z]" "\<not> esc" "length xs < rx_capacity c" "xs = [] \<longrightarrow> our_address c z"
      by (auto simp: gather_def split: if_splits)
    with Gather Cons.IH [of ys] show ?thesis by (auto simp: deframes_escape)
  qed
qed simp

lemma rx_stuffed_reject:
  assumes "rx_inv c" "idle_rx c"
    and "length zs < 4 \<or> \<not> good_fcs (drv c) zs \<or> \<not> our_address c (hd zs) \<or> rx_capacity c < length zs"
  shows "runs (rx_octets c (FLAG # stuff zs @ [FLAG])) (rx_to c (Gather [] False))"
proof -
  obtain c0 where c0: "rx_to c (deframes c (Gather [] False) (stuff zs)) c0"
      "rx_octets c (FLAG # stuff zs @ [FLAG]) = rx_byte c0 FLAG"
    using rx_stuffed [OF assms(1,2)] by blast
  note f = rx_to_fields [OF c0(1)]
  have "deframe c0 (view c0) FLAG = (Gather [] False, None)"
    using deframes_stuff_cases [of c "[]" zs] assms(3) f by auto
  then have "runs (rx_byte c0 FLAG) (rx_to c0 (Gather [] False))"
    using f(1) by (intro rx_byte_stores)
  then have "runs (rx_byte c0 FLAG) (rx_to c (Gather [] False))"
    by (rule runs_mono) (use c0 rx_to_trans in blast)
  with c0(2) show ?thesis by simp
qed

section \<open>Received octets keep the running FCS in step\<close>

lemma rx_byte_inv:
  assumes "rx_inv c"
  shows "runs (rx_byte c b) rx_inv"
proof (cases "b = FLAG")
  case True
  have "runs (handle_flag c) rx_inv"
  proof (cases "frame_held c")
    case True
    then have "runs (dispatch_frame c a t (info_ptr c) (info_size c)) (frame_post c)" for a t
      using assms by (intro dispatch_frame_post info_ok_held) (simp_all add: frame_held_def)
    then have "runs (dispatch_frame c a t (info_ptr c) (info_size c)) (\<lambda>d. rx_inv (rx_reset RX_ADDR d))" for a t
      by (rule runs_mono) (simp add: frame_post_def)
    with True assms show ?thesis by (simp add: handle_flag_run)
  next
    case False
    with assms show ?thesis by (simp add: handle_flag_run)
  qed
  with True show ?thesis by (simp add: rx_byte_def)
next
  case False
  then obtain v where "deframe c (view c) b = (v, None)"
    using deframe_no_flag [of b c "view c"] by (cases "deframe c (view c) b") auto
  with assms have "runs (rx_byte c b) (rx_to c v)" by (rule rx_byte_stores)
  then show ?thesis by (rule runs_mono) (simp add: rx_to_def)
qed

text \<open>Operations that leave the receiver alone, or send it hunting for a flag.\<close>

definition rx_kept :: "atc_hdlc_ctx_t \<Rightarrow> atc_hdlc_ctx_t \<Rightarrow> bool" where
  "rx_kept c c' \<longleftrightarrow> rx_buf c' = rx_buf c \<and> rx_index c' = rx_index c \<and> rx_crc c' = rx_crc c
     \<and> drv c' = drv c \<and> (rx_state c' = rx_state c \<or> rx_state c' = RX_HUNT)"

lemma rx_kept_inv: "rx_inv c \<Longrightarrow> rx_kept c c' \<Longrightarrow> core c' \<Longrightarrow> rx_inv c'"
proof -
  assume a: "rx_inv c" "rx_kept c c'" "core c'"
  then have "held_octets c' = held_octets c"
    by (simp add: held_octets_def rx_kept_def cong: option.case_cong)
  with a show ?thesis by (auto simp: rx_inv_def rx_kept_def)
qed

lemma same_env_kept: "same_env c c' \<Longrightarrow> rx_kept c c'"
  by (simp add: rx_kept_def same_env_def drv_def)

text \<open>Receiving never changes the addresses, the buffer's size or the CRC driver.\<close>

definition rx_env :: "atc_hdlc_ctx_t \<Rightarrow> atc_hdlc_ctx_t \<Rightarrow> bool" where
  "rx_env c c' \<longleftrightarrow> rx_capacity c' = rx_capacity c \<and> our_address c' = our_address c \<and> drv c' = drv c"

lemma rx_byte_env:
  assumes "rx_inv c"
  shows "runs (rx_byte c b) (rx_env c)"
proof -
  have core: "core c" using assms by simp
  have same: "rx_env c (rx_reset RX_ADDR d)" if "same_env c d" for d
  proof -
    have "drv d = drv c" using that by (simp add: same_env_def drv_def)
    with that show ?thesis
      by (simp add: rx_env_def rx_reset_def same_env_def rx_capacity_def our_address_def fun_eq_iff drv_def
          del: crc_ready)
  qed
  have quiet: "rx_env c d" if "rx_to c v d" for v d
    using rx_to_fields [OF that] by (simp add: rx_env_def)
  show ?thesis
  proof (cases "frame_held c \<and> b = FLAG")
    case True
    have "runs (dispatch_frame c a t (info_ptr c) (info_size c)) (frame_post c)" for a t
      using True core by (intro dispatch_frame_post info_ok_held) (simp_all add: frame_held_def)
    then have "runs (dispatch_frame c a t (info_ptr c) (info_size c)) (\<lambda>d. rx_env c (rx_reset RX_ADDR d))" for a t
      by (rule runs_mono) (simp add: frame_post_def same)
    with True core show ?thesis by (simp add: rx_byte_def handle_flag_run)
  next
    case False
    show ?thesis
    proof (cases "b = FLAG")
      case True
      with False core show ?thesis
        using same [of c] by (simp add: rx_byte_def handle_flag_run)
    next
      case False
      then obtain v where "deframe c (view c) b = (v, None)"
        using deframe_no_flag [of b c "view c"] by (cases "deframe c (view c) b") auto
      from rx_byte_stores [OF assms this] show ?thesis by (rule runs_mono) (rule quiet)
    qed
  qed
qed

lemma rx_octets_env: "rx_inv c \<Longrightarrow> runs (rx_octets c xs) (\<lambda>d. rx_inv d \<and> rx_env c d)"
proof (induction xs arbitrary: c)
  case (Cons b xs)
  have "runs (rx_byte c b) (\<lambda>d. rx_inv d \<and> rx_env c d)"
    using rx_byte_inv [OF Cons.prems] rx_byte_env [OF Cons.prems] by (rule runs_conj)
  then have "runs (rx_byte c b) (\<lambda>d. runs (rx_octets d xs) (\<lambda>e. rx_inv e \<and> rx_env c e))"
    by (rule runs_mono) (use Cons.IH in \<open>fastforce simp: rx_env_def elim: runs_mono\<close>)
  then show ?case by simp
qed (simp add: rx_env_def)

section \<open>Chunks with at most one frame\<close>

text \<open>The frames a chunk completes. A request to retransmit is carried out at the end of the chunk, so
  it cannot go stale when the chunk completes at most one frame.\<close>

fun frames_in :: "atc_hdlc_ctx_t \<Rightarrow> deframer \<Rightarrow> u8 list \<Rightarrow> nat" where
  "frames_in c v [] = 0"
| "frames_in c v (b # bs) = (case deframe c v b of (v', f) \<Rightarrow>
     (if f = None then 0 else 1) + frames_in c v' bs)"

lemma deframe_env: "rx_env c d \<Longrightarrow> deframe d v b = deframe c v b"
  by (cases v) (simp_all add: rx_env_def gather_def)

lemma frames_in_env: "rx_env c d \<Longrightarrow> frames_in d v xs = frames_in c v xs"
  by (induction xs arbitrary: v) (simp_all add: deframe_env)

text \<open>Octets that complete no frame only move the receiver, escapes and flags among them.\<close>

lemma rx_octets_to:
  "rx_inv c \<Longrightarrow> frames_in c (view c) xs = 0 \<Longrightarrow> runs (rx_octets c xs) (rx_to c (deframes c (view c) xs))"
proof (induction xs arbitrary: c)
  case Nil
  then show ?case by (simp add: rx_to_def rx_frame_def)
next
  case (Cons b xs)
  obtain v where v: "deframe c (view c) b = (v, None)" "frames_in c v xs = 0"
    using Cons.prems(2) by (cases "deframe c (view c) b") (auto split: if_splits)
  obtain d where d: "rx_byte c b = Some d" "rx_to c v d" "rx_env c d"
    using runs_conj [OF rx_byte_stores [OF Cons.prems(1) v(1)] rx_byte_env [OF Cons.prems(1)]] by (auto simp: runs_iff)
  then have "rx_inv d" "view d = v" and same: "deframes d v xs = deframes c v xs"
    by (simp_all add: rx_to_def deframes_cong)
  then have "runs (rx_octets d xs) (rx_to d (deframes c v xs))"
    using Cons.IH [of d] v(2) frames_in_env [OF d(3)] by simp
  then have "runs (rx_octets d xs) (rx_to c (deframes c v xs))"
    by (rule runs_mono) (use d rx_to_trans in blast)
  with d v show ?case by simp
qed

lemma rx_octets_no_frame:
  "rx_inv c \<Longrightarrow> retx_safe c \<Longrightarrow> frames_in c (view c) xs = 0 \<Longrightarrow> runs (rx_octets c xs) retx_safe"
proof (induction xs arbitrary: c)
  case (Cons b xs)
  obtain v f where vf: "deframe c (view c) b = (v, f)" by (cases "deframe c (view c) b")
  with Cons.prems(3) have f: "f = None" "frames_in c v xs = 0" by (auto split: if_splits)
  obtain d where d: "rx_byte c b = Some d" "rx_to c v d" "rx_env c d"
    using runs_conj [OF rx_byte_stores [OF Cons.prems(1)] rx_byte_env [OF Cons.prems(1)]] vf f(1)
    by (auto simp: runs_iff)
  then have "rx_inv d" "view d = v" "retx_safe d"
    using rx_to_fields [OF d(2)] Cons.prems(2) rx_frame_safe by auto
  moreover have "frames_in d (view d) xs = 0"
    using f(2) frames_in_env [OF d(3)] \<open>view d = v\<close> by simp
  ultimately show ?case using Cons.IH d(1) by simp
qed simp

lemma rx_octets_one_frame:
  "rx_inv c \<Longrightarrow> \<not> pending c \<Longrightarrow> frames_in c (view c) xs \<le> 1 \<Longrightarrow> runs (rx_octets c xs) retx_safe"
proof (induction xs arbitrary: c)
  case Nil
  then show ?case by (simp add: retx_safe_def)
next
  case (Cons b xs)
  obtain v f where vf: "deframe c (view c) b = (v, f)" by (cases "deframe c (view c) b")
  show ?case
  proof (cases f)
    case None
    obtain d where d: "rx_byte c b = Some d" "rx_to c v d" "rx_env c d"
      using runs_conj [OF rx_byte_stores [OF Cons.prems(1)] rx_byte_env [OF Cons.prems(1)]] vf None
      by (auto simp: runs_iff)
    then have r: "rx_inv d" "view d = v" "\<not> pending d"
      using rx_to_fields [OF d(2)] Cons.prems(2) rx_frame_fields [of c d] by (auto simp: CTX_FLAG_def)
    have "frames_in d (view d) xs \<le> 1"
      using Cons.prems(3) vf None frames_in_env [OF d(3)] r(2) by simp
    with r d(1) Cons.IH show ?thesis by simp
  next
    case (Some ys)
    have "runs (rx_byte c b) (\<lambda>d. rx_inv d \<and> rx_env c d \<and> rx_post c d)"
      by (intro runs_conj rx_byte_inv rx_byte_env rx_byte_post) (use Cons.prems in simp_all)
    then obtain d where d: "rx_byte c b = Some d" "rx_inv d" "rx_env c d" "rx_post c d"
      by (auto simp: runs_iff)
    have "view d = Gather [] False" "v = Gather [] False"
      using rx_byte_accepts [OF Cons.prems(1)] vf Some d(1) by auto
    moreover have "frames_in c v xs = 0" using Cons.prems(3) vf Some by simp
    ultimately have "frames_in d (view d) xs = 0" using frames_in_env [OF d(3)] by simp
    moreover have "retx_safe d"
      using d(2,4) Cons.prems(2) by (auto simp: retx_safe_def rx_post_def retx_step_def)
    ultimately show ?thesis using rx_octets_no_frame d by simp
  qed
qed

end
