(* ===== verification/Hdlc_Api.thy ===== *)
theory Hdlc_Api
  imports Hdlc_Tx_Safety Hdlc_Deframer
begin

text \<open>
  The public interface of \<open>inc/atc_hdlc/hdlc.h\<close>: one datatype of the calls on a context with their
  results, one of all entry points with initialisation, the state query and \<open>NULL\<close> contexts; what a caller must see to, and the stations reachable from
  \<open>atc_hdlc_init\<close> by legal calls. Every such station satisfies \<open>live\<close>.
\<close>

section \<open>Calls of the interface\<close>

datatype hdlc_call =
    Data_in octets u32
  | Transmit_ui u8 octets u32
  | Transmit_test u8 octets u32
  | Transmit_i octets u32
  | Transmit_ui_start u8
  | Transmit_ui_data octets u32
  | Transmit_ui_end
  | Link_setup u8
  | Disconnect
  | Link_reset
  | Set_local_busy bool
  | T1_expired
  | T2_expired
  | Abort

datatype hdlc_result = Void | Result atc_hdlc_error_t

text \<open>The result of each function on a \<open>NULL\<close> context: its first statement returns.\<close>

fun null_result :: "hdlc_call \<Rightarrow> hdlc_result" where
  "null_result (Data_in _ _) = Void"
| "null_result (Transmit_ui _ _ _) = Result ATC_HDLC_ERR_BAD_PARAM"
| "null_result (Transmit_test _ _ _) = Result ATC_HDLC_ERR_BAD_PARAM"
| "null_result (Transmit_i _ _) = Result ATC_HDLC_ERR_BAD_PARAM"
| "null_result (Transmit_ui_start _) = Void"
| "null_result (Transmit_ui_data _ _) = Void"
| "null_result Transmit_ui_end = Void"
| "null_result (Link_setup _) = Result ATC_HDLC_ERR_BAD_PARAM"
| "null_result Disconnect = Result ATC_HDLC_ERR_BAD_PARAM"
| "null_result Link_reset = Result ATC_HDLC_ERR_BAD_PARAM"
| "null_result (Set_local_busy _) = Result ATC_HDLC_ERR_BAD_PARAM"
| "null_result T1_expired = Void"
| "null_result T2_expired = Void"
| "null_result Abort = Void"

abbreviation void :: "atc_hdlc_ctx_t option \<Rightarrow> hdlc_result api" where
  "void m \<equiv> map_option (\<lambda>c. (c, Void)) m"

abbreviation result :: "atc_hdlc_error_t api \<Rightarrow> hdlc_result api" where
  "result m \<equiv> map_option (\<lambda>(c, e). (c, Result e)) m"

fun hdlc_do :: "atc_hdlc_ctx_t \<Rightarrow> hdlc_call \<Rightarrow> hdlc_result api" where
  "hdlc_do c (Data_in data len) = void (atc_hdlc_data_in c data len)"
| "hdlc_do c (Transmit_ui addr data len) = result (atc_hdlc_transmit_ui c addr data len)"
| "hdlc_do c (Transmit_test addr data len) = result (atc_hdlc_transmit_test c addr data len)"
| "hdlc_do c (Transmit_i data len) = result (atc_hdlc_transmit_i c data len)"
| "hdlc_do c (Transmit_ui_start addr) = void (atc_hdlc_transmit_ui_start c addr)"
| "hdlc_do c (Transmit_ui_data data len) = void (atc_hdlc_transmit_ui_data c data len)"
| "hdlc_do c Transmit_ui_end = void (atc_hdlc_transmit_ui_end c)"
| "hdlc_do c (Link_setup peer) = result (atc_hdlc_link_setup c peer)"
| "hdlc_do c Disconnect = result (atc_hdlc_disconnect c)"
| "hdlc_do c Link_reset = result (atc_hdlc_link_reset c)"
| "hdlc_do c (Set_local_busy busy) = result (atc_hdlc_set_local_busy c busy)"
| "hdlc_do c T1_expired = void (atc_hdlc_t1_expired c)"
| "hdlc_do c T2_expired = void (atc_hdlc_t2_expired c)"
| "hdlc_do c Abort = void (atc_hdlc_abort c)"

text \<open>
  Every function of the header: initialisation takes its parameters by value, \<open>atc_hdlc_get_state\<close>
  only reads, and the calls above work on an initialised context. Each may be given \<open>NULL\<close>: then
  initialisation refuses, and the state read is \<open>DISCONNECTED\<close>.
\<close>

datatype hdlc_entry =
    Init atc_hdlc_params_t
  | Get_state
  | Call hdlc_call

datatype hdlc_reply = Returned hdlc_result | State atc_hdlc_state_t

fun null_reply :: "hdlc_entry \<Rightarrow> hdlc_reply" where
  "null_reply (Init _) = Returned (Result ATC_HDLC_ERR_BAD_PARAM)"
| "null_reply Get_state = State ATC_HDLC_STATE_DISCONNECTED"
| "null_reply (Call call) = Returned (null_result call)"

fun entry_do :: "atc_hdlc_ctx_t \<Rightarrow> hdlc_entry \<Rightarrow> hdlc_reply api" where
  "entry_do c (Init params) = (case atc_hdlc_init c params of (c', e) \<Rightarrow> Some (c', Returned (Result e)))"
| "entry_do c Get_state = Some (c, State (atc_hdlc_get_state c))"
| "entry_do c (Call call) = map_option (\<lambda>(c', r). (c', Returned r)) (hdlc_do c call)"

definition hdlc_api :: "atc_hdlc_ctx_t option \<Rightarrow> hdlc_entry \<Rightarrow> (atc_hdlc_ctx_t option \<times> hdlc_reply) option" where
  "hdlc_api ctx entry = (case ctx of
       None \<Rightarrow> Some (None, null_reply entry)
     | Some c \<Rightarrow> map_option (\<lambda>(c', r). (Some c', r)) (entry_do c entry))"

section \<open>What a caller must see to\<close>

text \<open>
  Payload and input ranges must be readable. A chunk of input completes at most one frame,
  unless the window has one or seven slots: a request to retransmit must be carried out
  before another frame can reset the sequence numbers under it.
\<close>

definition chunk_ok :: "atc_hdlc_ctx_t \<Rightarrow> u8 list \<Rightarrow> bool" where
  "chunk_ok c xs \<longleftrightarrow> any_retx_ok c \<or> frames_in c (view c) xs \<le> 1"

fun legal :: "atc_hdlc_ctx_t \<Rightarrow> hdlc_call \<Rightarrow> bool" where
  "legal c (Data_in data len) = (case data of None \<Rightarrow> True
     | Some xs \<Rightarrow> unat len \<le> length xs \<and> chunk_ok c (take (unat len) xs))"
| "legal c (Transmit_ui addr data len) = (data = None \<or> readable data len)"
| "legal c (Transmit_test addr data len) = (data = None \<or> readable data len)"
| "legal c (Transmit_i data len) = readable data len"
| "legal c (Transmit_ui_data data len) = (data = None \<or> readable data len)"
| "legal c _ = True"

text \<open>The invariant between calls: settled, with the receiver's FCS in step with its buffer.\<close>

definition live :: "atc_hdlc_ctx_t \<Rightarrow> bool" where
  "live c \<longleftrightarrow> settled c \<and> rx_inv c"

lemma chunk_safe:
  assumes "live c" "chunk_ok c xs"
  shows "runs (rx_octets c xs) retx_safe"
  using assms rx_octets_any_chunk [of c xs] rx_octets_one_frame [of c xs]
  by (auto simp: live_def settled_def chunk_ok_def retx_safe_def)

lemma runs_void: "runs (void m) (\<lambda>(c, r). Q c) = runs m Q"
  by (cases m) simp_all

lemma runs_result: "runs (result m) (\<lambda>(c, r). Q c) = runs m (\<lambda>(c, e). Q c)"
  by (cases m) (auto split: prod.splits)

lemma hdlc_do_settled:
  assumes "settled c" "legal c call" "\<nexists>data len. call = Data_in data len"
  shows "runs (hdlc_do c call) (\<lambda>(c', r). settled c')"
  using assms by (cases call) (simp_all add: runs_void runs_result transmit_i_settled transmit_u_settled
      ui_stream_settled station_settled del: runs_bind)

section \<open>Initialisation\<close>

text \<open>
  The memory a caller hands over is as large as the descriptors say, the slots take at most
  2^32 octets in all, and the CRC driver computes.
\<close>

definition params_ok :: "atc_hdlc_params_t \<Rightarrow> bool" where
  "params_ok p \<longleftrightarrow>
     (case p_rx_buf p of None \<Rightarrow> True | Some rb \<Rightarrow> (case buffer rb of None \<Rightarrow> True
        | Some xs \<Rightarrow> unat (capacity rb) \<le> length xs))
   \<and> (case p_tx_window p of None \<Rightarrow> True | Some w \<Rightarrow> (case (slots w, slot_lens w) of
        (Some ss, Some ls) \<Rightarrow> unat (slot_count w) * unat (slot_capacity w) \<le> length ss
          \<and> unat (slot_count w) * unat (slot_capacity w) < 2 ^ 32 \<and> unat (slot_count w) \<le> length ls
      | _ \<Rightarrow> True))
   \<and> (case p_crc p of None \<Rightarrow> True | Some d \<Rightarrow> driver_ok d)"

lemma txwin_error_fails: "txwin_error cfg w \<noteq> Some ATC_HDLC_OK"
  by (simp add: txwin_error_def split: option.split)

lemma init_settled:
  assumes "params_ok p" "atc_hdlc_init c p = (c', ATC_HDLC_OK)"
  shows "settled c'"
proof -
  obtain cfg plt rb where p: "p_config p = Some cfg" "p_platform p = Some plt" "p_rx_buf p = Some rb"
    "has_on_send plt" "\<not> is_null (buffer rb)" "txwin_error cfg (p_tx_window p) = None"
    using assms(2) by (auto simp: atc_hdlc_init_def Let_def txwin_error_fails split: option.splits if_splits)
  have c': "c' = (zero_ctx c)\<lparr>config := Some cfg, platform := Some plt,
     crc := (case p_crc p of Some d \<Rightarrow> Some d | None \<Rightarrow> Some atc_hdlc_crc_ops_default),
     tx_window := p_tx_window p, rx_buf := Some rb, my_address := cfg_address cfg,
     rx_state := RX_HUNT, rx_crc := ATC_HDLC_FCS_INIT_VALUE\<rparr>"
    using assms(2) p by (simp add: atc_hdlc_init_def Let_def split: if_splits)
  obtain xs where xs: "buffer rb = Some xs"
    using p(5) by (auto simp: is_null_def split: option.splits)
  have drv: "driver_ok (drv c')"
    using assms(1) soft.driver_ok by (simp add: c' drv_def params_ok_def split: option.splits)
  have "ready c'"
    using p(4) drv unfolding ready_def by (simp add: c' plat_def split: option.splits)
  moreover have "rx_geom c'"
    using assms(1) p(3) xs by (simp add: c' rx_geom_def params_ok_def zero_ctx_def)
  moreover have "seq_ok c'" by (simp add: c' seq_ok_def zero_ctx_def)
  moreover have "tx_ok c'"
  proof (cases "p_tx_window p")
    case None
    then show ?thesis by (simp add: c' tx_ok_def zero_ctx_def)
  next
    case (Some w)
    with p(6) obtain ss ls where w: "slots w = Some ss" "slot_lens w = Some ls"
        "slot_count w \<noteq> 0" "slot_count w \<le> 7"
      by (auto simp: txwin_error_def is_null_def not_less split: option.splits if_splits)
    then have pos: "0 < slot_count w" by (simp add: word_greater_zero_iff)
    with w(4) have n: "1 \<le> unat (slot_count w)" "unat (slot_count w) \<le> 7"
      by (simp_all add: word_less_nat_alt word_le_nat_alt)
    with n pos w Some assms(1) show ?thesis
      by (simp add: c' tx_ok_def zero_ctx_def params_ok_def win_geom_def out_count_def CTX_FLAG_def)
  qed
  moreover have "\<not> pending c'" by (simp add: c' CTX_FLAG_def zero_ctx_def)
  ultimately show ?thesis by (simp add: settled_def coreI)
qed

section \<open>Reachable stations\<close>

text \<open>
  Initialisation, legal calls, and the application writing the peer's address into the context, as
  \<open>example/loopback/loopback.c\<close> does for the station that is called.
\<close>

inductive reachable :: "atc_hdlc_ctx_t \<Rightarrow> bool" where
  reach_init: "params_ok p \<Longrightarrow> atc_hdlc_init c p = (c', ATC_HDLC_OK) \<Longrightarrow> reachable c'"
| reach_peer: "reachable c \<Longrightarrow> reachable (c\<lparr>peer_address := addr\<rparr>)"
| reach_call: "reachable c \<Longrightarrow> legal c call \<Longrightarrow> hdlc_do c call = Some (c', r) \<Longrightarrow> reachable c'"

inductive_cases reachable_cases: "reachable c"

section \<open>The receiver between calls\<close>

lemma rx_kept_updates [simp]:
  "rx_kept c (say d xs) = rx_kept c d" "rx_kept c (CTX_SET d f) = rx_kept c d"
  "rx_kept c (CTX_CLR d f) = rx_kept c d" "rx_kept c (reset_fields d) = rx_kept c d"
  "rx_kept c (d\<lparr>tx_crc := x0\<rparr>) = rx_kept c d"
  "rx_kept c (d\<lparr>n2 := x1\<rparr>) = rx_kept c d"
  "rx_kept c (d\<lparr>current_state := x2\<rparr>) = rx_kept c d"
  "rx_kept c (d\<lparr>vs := x3\<rparr>) = rx_kept c d"
  "rx_kept c (d\<lparr>tx_next_slot := x4\<rparr>) = rx_kept c d"
  "rx_kept c (d\<lparr>tx_window := x5\<rparr>) = rx_kept c d"
  "rx_kept c (d\<lparr>peer_address := x6\<rparr>) = rx_kept c d"
  "rx_kept c c"
  by (simp_all add: rx_kept_def)

lemma rx_kept_abort [simp]:
  "rx_kept c d \<Longrightarrow> rx_kept c (d\<lparr>rx_state := RX_HUNT\<rparr>)"
  by (simp add: rx_kept_def)

lemma transmit_kept:
  assumes "settled c"
  shows "readable data len \<Longrightarrow> runs (atc_hdlc_transmit_i c data len) (\<lambda>(c', e). rx_kept c c')"
    "data = None \<or> readable data len \<Longrightarrow> runs (atc_hdlc_transmit_ui c addr data len) (\<lambda>(c', e). rx_kept c c')"
    "data = None \<or> readable data len \<Longrightarrow> runs (atc_hdlc_transmit_test c addr data len) (\<lambda>(c', e). rx_kept c c')"
    "runs (atc_hdlc_transmit_ui_start c addr) (rx_kept c)"
    "data = None \<or> readable data len \<Longrightarrow> runs (atc_hdlc_transmit_ui_data c data len) (rx_kept c)"
    "runs (atc_hdlc_transmit_ui_end c) (rx_kept c)"
proof -
  have c: "core c" using assms by (simp add: settled_def)
  have "rx_kept c (sent_fields c p len)" for p
    by (simp add: sent_fields_def split: option.split)
  then show "readable data len \<Longrightarrow> runs (atc_hdlc_transmit_i c data len) (\<lambda>(c', e). rx_kept c c')"
    using c by (simp add: transmit_i_spec sent_ctx_def split: option.split)
  show "data = None \<or> readable data len \<Longrightarrow> runs (atc_hdlc_transmit_ui c addr data len) (\<lambda>(c', e). rx_kept c c')"
    "data = None \<or> readable data len \<Longrightarrow> runs (atc_hdlc_transmit_test c addr data len) (\<lambda>(c', e). rx_kept c c')"
    using c by (simp_all add: transmit_u_spec split: option.split)
  show "runs (atc_hdlc_transmit_ui_start c addr) (rx_kept c)" "runs (atc_hdlc_transmit_ui_end c) (rx_kept c)"
    using c by (simp_all add: atc_hdlc_transmit_ui_start_def atc_hdlc_transmit_ui_end_def hdlc_run)
  show "data = None \<or> readable data len \<Longrightarrow> runs (atc_hdlc_transmit_ui_data c data len) (rx_kept c)"
    using c by (cases "readable data len")
      (auto simp: atc_hdlc_transmit_ui_data_def emit_loop_payload readable_def word_greater_zero_iff)
qed

lemma station_kept:
  assumes "settled c"
  shows "runs (atc_hdlc_link_setup c peer) (\<lambda>(c', e). rx_kept c c')"
    "runs (atc_hdlc_disconnect c) (\<lambda>(c', e). rx_kept c c')"
    "runs (atc_hdlc_link_reset c) (\<lambda>(c', e). rx_kept c c')"
    "runs (atc_hdlc_set_local_busy c busy) (\<lambda>(c', e). rx_kept c c')"
    "runs (atc_hdlc_t1_expired c) (rx_kept c)"
    "runs (atc_hdlc_t2_expired c) (rx_kept c)"
    "runs (atc_hdlc_abort c) (rx_kept c)"
proof -
  have c: "core c" using assms by (simp add: settled_def)
  show "runs (atc_hdlc_link_setup c peer) (\<lambda>(c', e). rx_kept c c')"
    using c by (simp add: atc_hdlc_link_setup_def Let_def hdlc_run)
  show "runs (atc_hdlc_disconnect c) (\<lambda>(c', e). rx_kept c c')"
    using c by (simp add: atc_hdlc_disconnect_def Let_def hdlc_run)
  show "runs (atc_hdlc_link_reset c) (\<lambda>(c', e). rx_kept c c')"
    using c by (simp add: atc_hdlc_link_reset_def Let_def hdlc_run)
  show "runs (atc_hdlc_set_local_busy c busy) (\<lambda>(c', e). rx_kept c c')"
    using c by (simp add: atc_hdlc_set_local_busy_def Let_def hdlc_run)
  show "runs (atc_hdlc_t2_expired c) (rx_kept c)"
    using c by (simp add: atc_hdlc_t2_expired_def Let_def hdlc_run)
  show "runs (atc_hdlc_abort c) (rx_kept c)"
    using c by (simp add: atc_hdlc_abort_def callback_if_say Let_def hdlc_run)
  let ?d = "CTX_CLR c HDLC_F_T1_ACTIVE\<lparr>n2 := n2 c + 1\<rparr>"
  have "core ?d" using c by simp
  then have "core (?d\<lparr>current_state := ATC_HDLC_STATE_DISCONNECTED\<rparr>)"
    by (rule core_state) simp
  with c show "runs (atc_hdlc_t1_expired c) (rx_kept c)"
    by (cases "current_state c") (simp_all add: atc_hdlc_t1_expired_def Let_def hdlc_run)
qed

lemma rx_octets_inv: "rx_inv c \<Longrightarrow> runs (rx_octets c xs) rx_inv"
proof (induction xs arbitrary: c)
  case (Cons b xs)
  have "runs (rx_byte c b) (\<lambda>d. runs (rx_octets d xs) rx_inv)"
    by (rule runs_mono [OF rx_byte_inv [OF Cons.prems]]) (rule Cons.IH)
  then show ?case by simp
qed simp

lemma data_in_live:
  assumes "live c" "unat len \<le> length xs" "chunk_ok c (take (unat len) xs)"
  shows "runs (atc_hdlc_data_in c (Some xs) len) live"
proof -
  let ?xs = "take (unat len) xs"
  have c: "settled c" "rx_inv c" using assms(1) by (simp_all add: live_def)
  have "runs (rx_octets c ?xs) (\<lambda>d. retx_safe d \<and> rx_inv d)"
    using chunk_safe [OF assms(1,3)] rx_octets_inv [OF c(2)] by (rule runs_conj)
  then have "runs (rx_octets c ?xs) (\<lambda>d. runs (if pending d then retransmit_outstanding d else Some d) live)"
  proof (rule runs_mono)
    fix d assume d: "retx_safe d \<and> rx_inv d"
    show "runs (if pending d then retransmit_outstanding d else Some d) live"
    proof (cases "pending d")
      case True
      then have "runs (retransmit_outstanding d) (\<lambda>e. settled e \<and> same_env d e \<and> CTX_FLAG e HDLC_F_T1_ACTIVE)"
        using d by (intro retransmit_outstanding_post) (simp_all add: retx_safe_def)
      then have "runs (retransmit_outstanding d) live"
        by (rule runs_mono) (use d same_env_kept rx_kept_inv in \<open>auto simp: live_def settled_def\<close>)
      with True show ?thesis by simp
    next
      case False
      with d show ?thesis by (simp add: live_def settled_def retx_safe_def)
    qed
  qed
  then show ?thesis
    unfolding data_in_run [OF assms(2)] runs_bind .
qed

lemma kept_live:
  assumes "live c" "runs m (\<lambda>(c', r). settled c')" "runs m (\<lambda>(c', r). rx_kept c c')"
  shows "runs m (\<lambda>(c', r). live c')"
  using assms rx_kept_inv [of c] by (cases m) (auto simp: live_def settled_def)

lemma hdlc_do_live:
  assumes "live c" "legal c call"
  shows "runs (hdlc_do c call) (\<lambda>(c', r). live c')"
proof (cases "\<exists>data len. call = Data_in data len")
  case True
  then obtain data len where "call = Data_in data len" by blast
  with assms show ?thesis
    by (cases data) (simp_all add: runs_void data_in_live, simp add: atc_hdlc_data_in_def)
next
  case False
  have s: "settled c" using assms(1) by (simp add: live_def)
  show ?thesis
  proof (rule kept_live [OF assms(1) hdlc_do_settled [OF s assms(2) False]])
    show "runs (hdlc_do c call) (\<lambda>(c', r). rx_kept c c')"
      using False assms(2) by (cases call)
        (simp_all add: runs_void runs_result transmit_kept [OF s] station_kept [OF s] del: runs_bind)
  qed
qed

lemma init_live:
  assumes "params_ok p" "atc_hdlc_init c p = (c', ATC_HDLC_OK)"
  shows "live c'"
proof -
  have "settled c'" using assms by (rule init_settled)
  moreover have "rx_state c' = RX_HUNT"
    using assms(2) by (auto simp: atc_hdlc_init_def Let_def txwin_error_fails split: option.splits if_splits)
  ultimately show ?thesis by (simp add: live_def rx_inv_def settled_def)
qed

lemma live_peer [simp]: "live (c\<lparr>peer_address := addr\<rparr>) = live c"
  unfolding live_def settled_def rx_inv_def by (simp add: held_octets_def cong: option.case_cong)

lemma reachable_live: "reachable c \<Longrightarrow> live c"
proof (induction rule: reachable.induct)
  case (reach_call c call c' r)
  then show ?case using hdlc_do_live [of c call] by simp
qed (simp_all add: init_live)

lemma reachable_settled: "reachable c \<Longrightarrow> settled c"
  using reachable_live by (simp add: live_def)

end
