(* ===== verification/Bare_Metal.thy ===== *)
theory Bare_Metal
  imports Hdlc_Api
begin

text \<open>
  \<open>example/bare_metal_template/bare_metal_template.c\<close>: its static storage and configuration
  (also the concrete station of the witnesses), the ring buffer between the receive interrupt
  and the main loop, the expiry flags, and one round of the main loop. The ring is stated as a
  queue with laws (\<open>octet_queue\<close>) and interpreted on the code's head and tail indices.
  The text its stubs print on a PC is a function of the callbacks made.
\<close>

section \<open>Static storage and configuration\<close>

definition WINDOW_SIZE :: u8 where "WINDOW_SIZE = 1"
definition MAX_INFO_SIZE :: u32 where "MAX_INFO_SIZE = 64"

definition bm_cfg :: atc_hdlc_config_t where
  "bm_cfg = \<lparr>mode = ATC_HDLC_MODE_ABM, cfg_address = 0x01, max_info_size = MAX_INFO_SIZE,
     max_retries = 3, t1_ms = 500, t2_ms = 20\<rparr>"

definition bm_platform :: atc_hdlc_plat_ops_t where
  "bm_platform = \<lparr>has_on_send = True, has_on_data = True, has_on_event = True, has_t1_start = True,
     has_t1_stop = True, has_t2_start = True, has_t2_stop = True\<rparr>"

definition bm_tx_win :: atc_hdlc_txwin_t where
  "bm_tx_win = \<lparr>slots = Some (replicate (unat WINDOW_SIZE * unat MAX_INFO_SIZE) 0),
     slot_lens = Some (replicate (unat WINDOW_SIZE) 0), slot_capacity = MAX_INFO_SIZE,
     slot_count = WINDOW_SIZE\<rparr>"

definition bm_rx_buf :: atc_hdlc_rxbuf_t where
  "bm_rx_buf = \<lparr>buffer = Some (replicate (unat MAX_INFO_SIZE + 8) 0), capacity = MAX_INFO_SIZE + 8\<rparr>"

definition bm_params :: atc_hdlc_params_t where
  "bm_params = \<lparr>p_config = Some bm_cfg, p_platform = Some bm_platform, p_tx_window = Some bm_tx_win,
     p_rx_buf = Some bm_rx_buf, p_crc = None\<rparr>"

text \<open>A static context starts zeroed, and nothing has been called yet.\<close>

definition static_ctx :: atc_hdlc_ctx_t where
  "static_ctx = \<lparr>config = None, platform = None, crc = None, tx_window = None, rx_buf = None,
     current_state = ATC_HDLC_STATE_DISCONNECTED, rx_index = 0, rx_crc = 0, tx_crc = 0,
     rx_state = RX_HUNT, retransmit_from = 0, tx_next_slot = 0, my_address = 0, peer_address = 0,
     vs = 0, vr = 0, va = 0, n2 = 0, frmr_ctrl = 0, frmr_flags = 0, flags = 0, trace = []\<rparr>"

definition bm_ctx0 :: atc_hdlc_ctx_t where
  "bm_ctx0 = fst (atc_hdlc_init static_ctx bm_params)"

lemmas bm_storage_defs = bm_cfg_def bm_platform_def bm_tx_win_def bm_rx_buf_def bm_params_def
  WINDOW_SIZE_def MAX_INFO_SIZE_def

lemma bm_init: "atc_hdlc_init static_ctx bm_params = (bm_ctx0, ATC_HDLC_OK)"
  by (simp add: bm_ctx0_def atc_hdlc_init_def bm_storage_defs is_null_def txwin_error_def Let_def
      hdlc_len_defs)

lemma bm_params_ok: "params_ok bm_params"
  by (simp add: params_ok_def bm_storage_defs)

lemma bm_reachable: "reachable bm_ctx0"
  using bm_params_ok bm_init by (rule reach_init)

lemma bm_live: "live bm_ctx0"
  using bm_reachable by (rule reachable_live)

section \<open>The receive ring\<close>

definition RX_RING_SIZE :: u32 where "RX_RING_SIZE = 128"

record rx_ring_t =
  rx_ring :: "u8 list"
  rx_head :: u32
  rx_tail :: u32

definition rx_ring0 :: rx_ring_t where
  "rx_ring0 = \<lparr>rx_ring = replicate 128 0, rx_head = 0, rx_tail = 0\<rparr>"

definition uart_rx_isr :: "u8 \<Rightarrow> rx_ring_t \<Rightarrow> rx_ring_t option" where
  "uart_rx_isr byte r = (let next = (rx_head r + 1) mod RX_RING_SIZE in
     if next \<noteq> rx_tail r then
       if unat (rx_head r) < length (rx_ring r)
       then Some (r\<lparr>rx_ring := (rx_ring r)[unat (rx_head r) := byte], rx_head := next\<rparr>)
       else None
     else Some r)"

text \<open>One round of the loop in \<open>rx_drain\<close>: the octet taken out, when there is one.\<close>

definition ring_take :: "rx_ring_t \<Rightarrow> (u8 \<times> rx_ring_t) option option" where
  "ring_take r = (if rx_tail r \<noteq> rx_head r then
       if unat (rx_tail r) < length (rx_ring r)
       then Some (Some (rx_ring r ! unat (rx_tail r), r\<lparr>rx_tail := (rx_tail r + 1) mod RX_RING_SIZE\<rparr>))
       else None
     else Some None)"

definition ring_ok :: "rx_ring_t \<Rightarrow> bool" where
  "ring_ok r \<longleftrightarrow> length (rx_ring r) = 128 \<and> unat (rx_head r) < 128 \<and> unat (rx_tail r) < 128"

text \<open>The octets waiting, oldest first.\<close>

definition ring_octets :: "rx_ring_t \<Rightarrow> u8 list" where
  "ring_octets r = map (\<lambda>k. rx_ring r ! ((unat (rx_tail r) + k) mod 128))
     [0..<(unat (rx_head r) + 128 - unat (rx_tail r)) mod 128]"

section \<open>The ring is a queue\<close>

text \<open>A run of interrupts (\<open>Inl b\<close>) and attempts to take an octet (\<open>Inr ()\<close>).\<close>

fun queue_run :: "('b \<Rightarrow> 'q \<Rightarrow> 'q option) \<Rightarrow> ('q \<Rightarrow> ('b \<times> 'q) option option) \<Rightarrow> 'q
    \<Rightarrow> ('b + unit) list \<Rightarrow> ('q \<times> 'b list) option" where
  "queue_run put tk q [] = Some (q, [])"
| "queue_run put tk q (Inl b # es) = do { q \<leftarrow> put b q; queue_run put tk q es }"
| "queue_run put tk q (Inr _ # es) = do {
     t \<leftarrow> tk q;
     (case t of None \<Rightarrow> queue_run put tk q es
      | Some (b, q) \<Rightarrow> do { (q, out) \<leftarrow> queue_run put tk q es; Some (q, b # out) }) }"

fun arrivals :: "('b + unit) list \<Rightarrow> 'b list" where
  "arrivals [] = []"
| "arrivals (Inl b # es) = b # arrivals es"
| "arrivals (Inr _ # es) = arrivals es"

text \<open>
  A bounded queue between an interrupt and the main loop: \<open>put\<close> appends unless the queue is
  full, \<open>take\<close> removes the oldest. Everything the main loop relies on follows from these laws.
\<close>

locale octet_queue =
  fixes ok :: "'q \<Rightarrow> bool" and items :: "'q \<Rightarrow> 'b list" and room :: nat
    and put :: "'b \<Rightarrow> 'q \<Rightarrow> 'q option" and take_one :: "'q \<Rightarrow> ('b \<times> 'q) option option"
  assumes put_law: "ok q \<Longrightarrow> \<exists>q'. put b q = Some q' \<and> ok q' \<and>
      items q' = (if length (items q) < room then items q @ [b] else items q)"
    and take_empty: "ok q \<Longrightarrow> items q = [] \<Longrightarrow> take_one q = Some None"
    and take_law: "ok q \<Longrightarrow> items q = b # bs \<Longrightarrow> \<exists>q'. take_one q = Some (Some (b, q')) \<and> ok q' \<and> items q' = bs"
begin

text \<open>Nothing is lost, duplicated or reordered as long as the arrivals fit.\<close>

lemma queue_run_fifo:
  "ok q \<Longrightarrow> length (items q) + length (arrivals es) \<le> room \<Longrightarrow>
   \<exists>q' out. queue_run put take_one q es = Some (q', out) \<and> ok q' \<and> out @ items q' = items q @ arrivals es"
proof (induction es arbitrary: q rule: arrivals.induct)
  case 1
  then show ?case by simp
next
  case (2 b es)
  then obtain q1 where q1: "put b q = Some q1" "ok q1" "items q1 = items q @ [b]"
    using put_law [of q b] by auto
  with "2.IH" [of q1] "2.prems" show ?case by auto
next
  case (3 u es)
  show ?case
  proof (cases "items q")
    case Nil
    with "3.IH" [of q] "3.prems" take_empty show ?thesis by auto
  next
    case (Cons b bs)
    then obtain q1 where q1: "take_one q = Some (Some (b, q1))" "ok q1" "items q1 = bs"
      using take_law 3(2) by blast
    with 3 Cons obtain q2 out where "queue_run put take_one q1 es = Some (q2, out)" "ok q2" "out @ items q2 = bs @ arrivals es"
      by fastforce
    with q1 Cons show ?thesis by auto
  qed
qed

text \<open>Whatever arrives, the queue never fails and never holds more than it has room for.\<close>

lemma queue_run_total:
  "ok q \<Longrightarrow> length (items q) \<le> room \<Longrightarrow>
   \<exists>q' out. queue_run put take_one q es = Some (q', out) \<and> ok q' \<and> length (items q') \<le> room"
proof (induction es arbitrary: q rule: arrivals.induct)
  case (2 b es)
  then obtain q1 where q1: "put b q = Some q1" "ok q1"
      "items q1 = (if length (items q) < room then items q @ [b] else items q)"
    using put_law [of q b] by blast
  moreover from this 2 have "length (items q1) \<le> room" by (simp split: if_splits)
  ultimately show ?case using "2.IH" [of q1] by auto
next
  case (3 u es)
  show ?case
  proof (cases "items q")
    case Nil
    with "3.IH" [of q] "3.prems" take_empty show ?thesis by auto
  next
    case (Cons b bs)
    then obtain q1 where q1: "take_one q = Some (Some (b, q1))" "ok q1" "items q1 = bs"
      using take_law 3(2) by blast
    with 3 Cons obtain q2 out where "queue_run put take_one q1 es = Some (q2, out)" "ok q2" "length (items q2) \<le> room"
      by fastforce
    with q1 show ?thesis by auto
  qed
qed simp

end

lemma ring_next:
  assumes "unat x < 128"
  shows "unat ((x + 1) mod RX_RING_SIZE) = (unat x + 1) mod 128"
proof -
  have "unat (x + 1) = Suc (unat x)"
    using assms by (intro unat_succ [of x 128]) (simp add: word_less_nat_alt)
  then show ?thesis by (simp add: RX_RING_SIZE_def unat_mod_distrib)
qed


lemma ring_last:
  fixes h t :: nat
  assumes "h < 128" "t < 128"
  defines "n \<equiv> (h + 128 - t) mod 128"
  shows "(t + n) mod 128 = h" "k < n \<Longrightarrow> (t + k) mod 128 \<noteq> h" "n < 128"
    "(h + 1) mod 128 = t \<longleftrightarrow> n = 127"
    "n < 127 \<Longrightarrow> ((h + 1) mod 128 + 128 - t) mod 128 = Suc n"
    "h = t \<longleftrightarrow> n = 0" "0 < n \<Longrightarrow> (h + 128 - (t + 1) mod 128) mod 128 = n - 1"
proof -
  have n: "n = (if t \<le> h then h - t else h + 128 - t)"
    using assms by (simp add: mod_if)
  have s: "a mod 128 = (if a < 128 then a else a - 128)" if "a < 256" for a :: nat
    using that by (simp add: mod_if)
  have h1: "(h + 1) mod 128 = (if h = 127 then 0 else h + 1)"
    using assms(1) by (subst s) auto
  have t1: "(t + 1) mod 128 = (if t = 127 then 0 else t + 1)"
    using assms(2) by (subst s) auto
  show "n < 128" "h = t \<longleftrightarrow> n = 0" using n assms(1,2) by auto
  show "(t + n) mod 128 = h" using n assms(1,2) by auto
  show "k < n \<Longrightarrow> (t + k) mod 128 \<noteq> h"
    using n assms(1,2) by (subst s) (auto split: if_split_asm)
  show "(h + 1) mod 128 = t \<longleftrightarrow> n = 127"
    unfolding h1 n using assms(1,2) by auto
  show "n < 127 \<Longrightarrow> ((h + 1) mod 128 + 128 - t) mod 128 = Suc n"
    unfolding h1 n using assms(1,2) by (subst s) (auto split: if_split_asm)
  show "0 < n \<Longrightarrow> (h + 128 - (t + 1) mod 128) mod 128 = n - 1"
    unfolding t1 n using assms(1,2) by (subst s) (auto split: if_split_asm)
qed

interpretation ring: octet_queue ring_ok ring_octets 127 uart_rx_isr ring_take
proof unfold_locales
  fix r b
  assume ok: "ring_ok r"
  let ?h = "unat (rx_head r)" and ?t = "unat (rx_tail r)"
  let ?n = "(?h + 128 - ?t) mod 128"
  have ht: "?h < 128" "?t < 128" "length (rx_ring r) = 128"
    using ok by (simp_all add: ring_ok_def)
  note l = ring_last [OF ht(1,2)]
  have nxt: "unat ((rx_head r + 1) mod RX_RING_SIZE) = (?h + 1) mod 128"
    using ht(1) by (rule ring_next)
  have full: "(rx_head r + 1) mod RX_RING_SIZE = rx_tail r \<longleftrightarrow> ?n = 127"
    using l(4) nxt by (simp only: word_unat_eq_iff)
  have len: "length (ring_octets r) = ?n" by (simp add: ring_octets_def)
  show "\<exists>r'. uart_rx_isr b r = Some r' \<and> ring_ok r' \<and>
      ring_octets r' = (if length (ring_octets r) < 127 then ring_octets r @ [b] else ring_octets r)"
  proof (cases "?n = 127")
    case True
    with ok full len show ?thesis by (simp add: uart_rx_isr_def Let_def)
  next
    case False
    with l(3) have n: "?n < 127" by simp
    let ?r = "r\<lparr>rx_ring := (rx_ring r)[?h := b], rx_head := (rx_head r + 1) mod RX_RING_SIZE\<rparr>"
    have "ring_octets ?r = ring_octets r @ [b]"
    proof -
      have "map (\<lambda>k. (rx_ring r)[?h := b] ! ((?t + k) mod 128)) [0..<?n] = ring_octets r"
        unfolding ring_octets_def
        by (intro map_cong refl nth_list_update_neq not_sym [OF l(2)]) simp
      then show ?thesis
        using l(1) l(5) [OF n] ht by (simp add: ring_octets_def nxt)
    qed
    moreover have "ring_ok ?r" using ok nxt by (simp add: ring_ok_def)
    ultimately show ?thesis
      using False full len n ht by (simp add: uart_rx_isr_def Let_def)
  qed
next
  fix r
  assume ok: "ring_ok r" "ring_octets r = []"
  then have "rx_head r = rx_tail r"
    using ring_last(6) [of "unat (rx_head r)" "unat (rx_tail r)"]
    by (simp add: ring_ok_def ring_octets_def word_unat_eq_iff)
  then show "ring_take r = Some None" by (simp add: ring_take_def)
next
  fix r b bs
  assume ok: "ring_ok r" and items: "ring_octets r = b # bs"
  let ?h = "unat (rx_head r)" and ?t = "unat (rx_tail r)"
  let ?n = "(?h + 128 - ?t) mod 128"
  have ht: "?h < 128" "?t < 128" "length (rx_ring r) = 128"
    using ok by (simp_all add: ring_ok_def)
  note l = ring_last [OF ht(1,2)]
  have pos: "0 < ?n"
    using items by (cases "?n") (simp_all add: ring_octets_def)
  then obtain m where m: "?n = Suc m" by (cases ?n) auto
  have split: "[0..<Suc m] = 0 # map Suc [0..<m]"
    by (simp add: map_Suc_upt upt_conv_Cons)
  have "b = rx_ring r ! ?t" "bs = map (\<lambda>k. rx_ring r ! ((?t + Suc k) mod 128)) [0..<m]"
    using items ht(2) unfolding ring_octets_def m split by (simp_all add: comp_def)
  moreover have nxt: "unat ((rx_tail r + 1) mod RX_RING_SIZE) = (?t + 1) mod 128"
    using ht(2) by (rule ring_next)
  moreover have "rx_tail r \<noteq> rx_head r"
    using l(6) pos by (auto simp: word_unat_eq_iff)
  moreover have "ring_octets (r\<lparr>rx_tail := (rx_tail r + 1) mod RX_RING_SIZE\<rparr>)
      = map (\<lambda>k. rx_ring r ! ((?t + Suc k) mod 128)) [0..<m]"
    using l(7) [OF pos] m by (simp add: ring_octets_def nxt mod_simps)
  ultimately show "\<exists>r'. ring_take r = Some (Some (b, r')) \<and> ring_ok r' \<and> ring_octets r' = bs"
    using ok ht by (simp add: ring_take_def ring_ok_def)
qed

section \<open>The main loop\<close>

text \<open>
  The template's globals. The timer callbacks it registers clear the expiry flags; \<open>bm_run\<close>
  makes the library calls on the context and then lets the calls they made take effect.
\<close>

record bm_t =
  bm_ctx :: atc_hdlc_ctx_t
  bm_ring :: rx_ring_t
  t1_expired_flag :: bool
  t2_expired_flag :: bool

fun bm_callback :: "callback \<Rightarrow> bm_t \<Rightarrow> bm_t" where
  "bm_callback (T1_start ms) s = s\<lparr>t1_expired_flag := False\<rparr>"
| "bm_callback T1_stop s = s\<lparr>t1_expired_flag := False\<rparr>"
| "bm_callback (T2_start ms) s = s\<lparr>t2_expired_flag := False\<rparr>"
| "bm_callback T2_stop s = s\<lparr>t2_expired_flag := False\<rparr>"
| "bm_callback _ s = s"

definition bm_run :: "(atc_hdlc_ctx_t \<Rightarrow> atc_hdlc_ctx_t option) \<Rightarrow> bm_t \<Rightarrow> bm_t option" where
  "bm_run f s = do {
     c \<leftarrow> f (bm_ctx s);
     Some (fold bm_callback (drop (length (trace (bm_ctx s))) (trace c)) (s\<lparr>bm_ctx := c\<rparr>))
   }"

text \<open>The interrupts, and a sequence of them.\<close>

datatype bm_irq = Uart_isr u8 | T1_isr | T2_isr

fun bm_interrupt :: "bm_irq \<Rightarrow> bm_t \<Rightarrow> bm_t option" where
  "bm_interrupt (Uart_isr b) s = map_option (\<lambda>r. s\<lparr>bm_ring := r\<rparr>) (uart_rx_isr b (bm_ring s))"
| "bm_interrupt T1_isr s = Some (s\<lparr>t1_expired_flag := True\<rparr>)"
| "bm_interrupt T2_isr s = Some (s\<lparr>t2_expired_flag := True\<rparr>)"

fun bm_interrupts :: "bm_irq list \<Rightarrow> bm_t \<Rightarrow> bm_t option" where
  "bm_interrupts [] s = Some s"
| "bm_interrupts (i # is) s = do { s \<leftarrow> bm_interrupt i s; bm_interrupts is s }"

text \<open>
  The loop of \<open>rx_drain\<close> for at most \<open>n\<close> evaluations of its condition. \<open>irqs\<close> says which
  interrupts come before each evaluation, none once the list has run out; what the UART puts into the
  ring while the loop runs is drained too. \<open>None\<close> is a loop that has not ended after \<open>n\<close> evaluations.
\<close>

fun rx_drain :: "nat \<Rightarrow> bm_irq list list \<Rightarrow> bm_t \<Rightarrow> bm_t option" where
  "rx_drain 0 irqs s = None"
| "rx_drain (Suc n) irqs s = do {
     s \<leftarrow> bm_interrupts (case irqs of [] \<Rightarrow> [] | is # _ \<Rightarrow> is) s;
     t \<leftarrow> ring_take (bm_ring s);
     (case t of None \<Rightarrow> Some s
      | Some (b, r) \<Rightarrow> do {
          s \<leftarrow> bm_run (\<lambda>c. atc_hdlc_data_in c (Some [b]) 1) (s\<lparr>bm_ring := r\<rparr>);
          rx_drain n (tl irqs) s }) }"

text \<open>The octets the UART puts in; 127 may be waiting before.\<close>

definition uart_count :: "bm_irq list \<Rightarrow> nat" where
  "uart_count is = length (filter (\<lambda>i. \<exists>b. i = Uart_isr b) is)"

definition rx_drain_fuel :: "bm_irq list list \<Rightarrow> nat" where
  "rx_drain_fuel irqs = 128 + uart_count (concat irqs)"

definition bm_t1_check :: "bm_t \<Rightarrow> bm_t option" where
  "bm_t1_check s = (if t1_expired_flag s then bm_run atc_hdlc_t1_expired (s\<lparr>t1_expired_flag := False\<rparr>)
     else Some s)"

definition bm_t2_check :: "bm_t \<Rightarrow> bm_t option" where
  "bm_t2_check s = (if t2_expired_flag s then bm_run atc_hdlc_t2_expired (s\<lparr>t2_expired_flag := False\<rparr>)
     else Some s)"

definition bm_timers :: "bm_t \<Rightarrow> bm_t option" where
  "bm_timers s = do { s \<leftarrow> bm_t1_check s; bm_t2_check s }"

text \<open>The octets of \<open>"sensor_data"\<close>.\<close>

definition sensor_data :: "u8 list" where
  "sensor_data = [0x73, 0x65, 0x6E, 0x73, 0x6F, 0x72, 0x5F, 0x64, 0x61, 0x74, 0x61]"

definition bm_transmit :: "bm_t \<Rightarrow> bm_t option" where
  "bm_transmit s = (if atc_hdlc_get_state (bm_ctx s) = ATC_HDLC_STATE_CONNECTED
     then bm_run (\<lambda>c. map_option fst (atc_hdlc_transmit_i c (Some sensor_data) 11)) s
     else Some s)"

text \<open>
  One iteration of the main loop, with the interrupts that come during \<open>rx_drain\<close> and before each of
  the parts after it.
\<close>

definition bm_iteration ::
  "bm_irq list list \<Rightarrow> bm_irq list \<Rightarrow> bm_irq list \<Rightarrow> bm_irq list \<Rightarrow> bm_t \<Rightarrow> bm_t option" where
  "bm_iteration irqs i1 i2 i3 s = do {
     s \<leftarrow> rx_drain (rx_drain_fuel irqs) irqs s;
     s \<leftarrow> bm_interrupts i1 s; s \<leftarrow> bm_t1_check s;
     s \<leftarrow> bm_interrupts i2 s; s \<leftarrow> bm_t2_check s;
     s \<leftarrow> bm_interrupts i3 s; bm_transmit s }"

text \<open>\<open>main\<close> up to its loop.\<close>

definition bm_start :: "bm_t option" where
  "bm_start = bm_run (\<lambda>c. map_option fst (atc_hdlc_link_setup c 0x02))
     \<lparr>bm_ctx = bm_ctx0, bm_ring = rx_ring0, t1_expired_flag = False, t2_expired_flag = False\<rparr>"

text \<open>
  The program with its interrupts. A run is a list of interrupts and of the main loop's parts: one
  round of \<open>rx_drain\<close>, the test of each flag, the transmission, and a whole iteration with the
  interrupts within it. Interrupts may come before and after every part, and the parts in any order,
  which includes the order of the code, and a drain loop that has not ended yet. An interrupt within a
  library call, or between the reads and writes of a part, has the effect of one before or after it:
  the library itself touches neither the ring nor, but for its timer callbacks, the flags.
\<close>

datatype bm_action = Interrupt bm_irq | Drain_round | T1_check | T2_check | App_transmit
  | Loop_iteration "bm_irq list list" "bm_irq list" "bm_irq list" "bm_irq list"

definition drain_round :: "bm_t \<Rightarrow> bm_t option" where
  "drain_round s = do {
     t \<leftarrow> ring_take (bm_ring s);
     (case t of None \<Rightarrow> Some s
      | Some (b, r) \<Rightarrow> bm_run (\<lambda>c. atc_hdlc_data_in c (Some [b]) 1) (s\<lparr>bm_ring := r\<rparr>)) }"

fun bm_step :: "bm_action \<Rightarrow> bm_t \<Rightarrow> bm_t option" where
  "bm_step (Interrupt i) s = bm_interrupt i s"
| "bm_step Drain_round s = drain_round s"
| "bm_step T1_check s = bm_t1_check s"
| "bm_step T2_check s = bm_t2_check s"
| "bm_step App_transmit s = bm_transmit s"
| "bm_step (Loop_iteration irqs i1 i2 i3) s = bm_iteration irqs i1 i2 i3 s"

fun bm_steps :: "bm_action list \<Rightarrow> bm_t \<Rightarrow> bm_t option" where
  "bm_steps [] s = Some s"
| "bm_steps (a # as) s = do { s \<leftarrow> bm_step a s; bm_steps as s }"

definition bm_ok :: "bm_t \<Rightarrow> bool" where
  "bm_ok s \<longleftrightarrow> live (bm_ctx s) \<and> ring_ok (bm_ring s)"

lemma bm_callbacks [simp]:
  "bm_ctx (fold bm_callback xs s) = bm_ctx s" "bm_ring (fold bm_callback xs s) = bm_ring s"
proof -
  have one: "bm_ctx (bm_callback x s) = bm_ctx s" "bm_ring (bm_callback x s) = bm_ring s" for x s
    by (cases x; simp)+
  show "bm_ctx (fold bm_callback xs s) = bm_ctx s" "bm_ring (fold bm_callback xs s) = bm_ring s"
    by (induction xs arbitrary: s) (simp_all add: one)
qed

lemma bm_run_ok:
  assumes "bm_ok s" "runs (f (bm_ctx s)) live"
  shows "runs (bm_run f s) (\<lambda>s'. bm_ok s' \<and> bm_ring s' = bm_ring s)"
  using assms by (auto simp: bm_run_def bm_ok_def runs_iff)

lemma single_octet_live: "live c \<Longrightarrow> runs (atc_hdlc_data_in c (Some [b]) 1) live"
  by (rule data_in_live) (simp_all add: chunk_ok_def split: prod.split)

lemma drain_round_ok:
  assumes "bm_ok s"
  shows "runs (drain_round s) (\<lambda>s'. bm_ok s' \<and> ring_octets (bm_ring s') = tl (ring_octets (bm_ring s)))"
proof -
  have ok: "ring_ok (bm_ring s)" using assms by (simp add: bm_ok_def)
  show ?thesis
  proof (cases "ring_octets (bm_ring s)")
    case Nil
    with ok assms show ?thesis by (simp add: drain_round_def ring.take_empty)
  next
    case (Cons b bs)
    then obtain r where r: "ring_take (bm_ring s) = Some (Some (b, r))" "ring_ok r" "ring_octets r = bs"
      using ring.take_law [OF ok] by blast
    have "bm_ok (s\<lparr>bm_ring := r\<rparr>)" using assms r(2) by (simp add: bm_ok_def)
    then have "runs (bm_run (\<lambda>c. atc_hdlc_data_in c (Some [b]) 1) (s\<lparr>bm_ring := r\<rparr>))
        (\<lambda>s'. bm_ok s' \<and> bm_ring s' = bm_ring (s\<lparr>bm_ring := r\<rparr>))"
      by (rule bm_run_ok) (use assms single_octet_live in \<open>simp add: bm_ok_def\<close>)
    with r Cons show ?thesis by (auto simp: drain_round_def elim: runs_mono)
  qed
qed

text \<open>Interrupts keep the invariant; each octet makes the ring longer by at most one, none is taken out.\<close>

lemma bm_interrupt_ok:
  assumes "bm_ok s"
  shows "runs (bm_interrupt i s) (\<lambda>s'. bm_ok s' \<and> bm_ctx s' = bm_ctx s
     \<and> length (ring_octets (bm_ring s')) \<le> length (ring_octets (bm_ring s)) + uart_count [i]
     \<and> (i \<in> range Uart_isr \<or> ring_octets (bm_ring s) \<noteq> [] \<longrightarrow> ring_octets (bm_ring s') \<noteq> []))"
proof (cases i)
  case (Uart_isr b)
  obtain r where "uart_rx_isr b (bm_ring s) = Some r" "ring_ok r"
      "ring_octets r = (if length (ring_octets (bm_ring s)) < 127 then ring_octets (bm_ring s) @ [b]
         else ring_octets (bm_ring s))"
    using ring.put_law [of "bm_ring s" b] assms by (auto simp: bm_ok_def)
  with Uart_isr assms show ?thesis by (auto simp: bm_ok_def uart_count_def)
qed (use assms in \<open>auto simp: bm_ok_def uart_count_def\<close>)

lemma bm_interrupts_ok:
  "bm_ok s \<Longrightarrow> runs (bm_interrupts is s) (\<lambda>s'. bm_ok s' \<and> bm_ctx s' = bm_ctx s
     \<and> length (ring_octets (bm_ring s')) \<le> length (ring_octets (bm_ring s)) + uart_count is
     \<and> ((\<exists>b. Uart_isr b \<in> set is) \<or> ring_octets (bm_ring s) \<noteq> [] \<longrightarrow> ring_octets (bm_ring s') \<noteq> []))"
proof (induction "is" arbitrary: s)
  case Nil
  then show ?case by (simp add: uart_count_def)
next
  case (Cons i js)
  obtain s1 where s1: "bm_interrupt i s = Some s1" "bm_ok s1" "bm_ctx s1 = bm_ctx s"
      "length (ring_octets (bm_ring s1)) \<le> length (ring_octets (bm_ring s)) + uart_count [i]"
      "i \<in> range Uart_isr \<or> ring_octets (bm_ring s) \<noteq> [] \<longrightarrow> ring_octets (bm_ring s1) \<noteq> []"
    using runs_Some_exists [OF bm_interrupt_ok [OF Cons.prems, of i]] by blast
  have "uart_count (i # js) = uart_count [i] + uart_count js" by (simp add: uart_count_def)
  with s1 show ?case by (auto intro: runs_mono [OF Cons.IH [OF s1(2)]])
qed

text \<open>\<open>rx_drain\<close> is its rounds with interrupts before each, until the ring is empty.\<close>

lemma rx_drain_rounds:
  assumes "bm_interrupts (case irqs of [] \<Rightarrow> [] | is # _ \<Rightarrow> is) s = Some s1" "ring_ok (bm_ring s1)"
  shows "rx_drain (Suc n) irqs s =
     (if ring_octets (bm_ring s1) = [] then Some s1 else do { s \<leftarrow> drain_round s1; rx_drain n (tl irqs) s })"
  using assms ring.take_empty [of "bm_ring s1"] ring.take_law [of "bm_ring s1"]
  by (cases "ring_octets (bm_ring s1)") (fastforce simp: drain_round_def)+

lemma uart_count_concat:
  "uart_count (concat irqs) = uart_count (case irqs of [] \<Rightarrow> [] | is # _ \<Rightarrow> is) + uart_count (concat (tl irqs))"
  by (cases irqs) (simp_all add: uart_count_def)

lemma rx_drain_ok:
  "bm_ok s \<Longrightarrow> length (ring_octets (bm_ring s)) + uart_count (concat irqs) < n \<Longrightarrow>
   runs (rx_drain n irqs s) (\<lambda>s'. bm_ok s' \<and> ring_octets (bm_ring s') = [])"
proof (induction n arbitrary: s irqs)
  case (Suc n)
  let ?is = "case irqs of [] \<Rightarrow> [] | is # _ \<Rightarrow> is"
  obtain s1 where s1: "bm_interrupts ?is s = Some s1" "bm_ok s1"
      "length (ring_octets (bm_ring s1)) \<le> length (ring_octets (bm_ring s)) + uart_count ?is"
    using runs_Some_exists [OF bm_interrupts_ok [OF Suc.prems(1), of ?is]] by blast
  then have ring: "ring_ok (bm_ring s1)" by (simp add: bm_ok_def)
  have "runs (drain_round s1) (\<lambda>s'. runs (rx_drain n (tl irqs) s') (\<lambda>s'. bm_ok s' \<and> ring_octets (bm_ring s') = []))"
    if "ring_octets (bm_ring s1) \<noteq> []"
  proof (rule runs_mono [OF drain_round_ok [OF s1(2)]])
    fix s' assume s': "bm_ok s' \<and> ring_octets (bm_ring s') = tl (ring_octets (bm_ring s1))"
    have "length (ring_octets (bm_ring s')) + uart_count (concat (tl irqs)) < n"
      using s' that s1(3) Suc.prems(2) uart_count_concat [of irqs] by (cases "ring_octets (bm_ring s1)") auto
    then show "runs (rx_drain n (tl irqs) s') (\<lambda>s'. bm_ok s' \<and> ring_octets (bm_ring s') = [])"
      using Suc.IH s' by blast
  qed
  with s1(2) show ?case by (simp add: rx_drain_rounds [OF s1(1) ring] del: rx_drain.simps)
qed simp

text \<open>If the UART puts in an octet before every evaluation of the condition, the loop does not end.\<close>

lemma rx_drain_starves:
  "bm_ok s \<Longrightarrow> rx_drain n (replicate n [Uart_isr b]) s = None"
proof (induction n arbitrary: s)
  case (Suc n)
  obtain s1 where s1: "bm_interrupts [Uart_isr b] s = Some s1" "bm_ok s1" "ring_octets (bm_ring s1) \<noteq> []"
    using runs_Some_exists [OF bm_interrupts_ok [OF Suc.prems, of "[Uart_isr b]"]] by auto
  then have ring: "ring_ok (bm_ring s1)" by (simp add: bm_ok_def)
  obtain s2 where s2: "drain_round s1 = Some s2" "bm_ok s2"
    using runs_Some_exists [OF drain_round_ok [OF s1(2)]] by blast
  have "bm_interrupts (case replicate (Suc n) [Uart_isr b] of [] \<Rightarrow> [] | is # _ \<Rightarrow> is) s = Some s1"
    using s1(1) by simp
  from rx_drain_rounds [OF this ring, of n] show ?case
    using s1(3) s2(1) Suc.IH [OF s2(2)] by (simp del: rx_drain.simps)
qed simp

lemma checks_ok:
  assumes "bm_ok s"
  shows "runs (bm_t1_check s) bm_ok" "runs (bm_t2_check s) bm_ok"
proof -
  have run: "runs (bm_run f s) bm_ok" if "bm_ok s" "\<And>c. live c \<Longrightarrow> runs (f c) live" for f s
    by (rule runs_mono [OF bm_run_ok]) (use that in \<open>simp_all add: bm_ok_def\<close>)
  have t1: "runs (atc_hdlc_t1_expired c) live" and t2: "runs (atc_hdlc_t2_expired c) live" if "live c" for c
    using hdlc_do_live [OF that, of T1_expired] hdlc_do_live [OF that, of T2_expired]
    by (simp_all add: runs_void)
  show "runs (bm_t1_check s) bm_ok"
    using assms run [of "s\<lparr>t1_expired_flag := False\<rparr>", OF _ t1] by (simp add: bm_t1_check_def bm_ok_def)
  show "runs (bm_t2_check s) bm_ok"
    using assms run [of "s\<lparr>t2_expired_flag := False\<rparr>", OF _ t2] by (simp add: bm_t2_check_def bm_ok_def)
qed

lemma timers_ok: "bm_ok s \<Longrightarrow> runs (bm_timers s) bm_ok"
  by (auto simp: bm_timers_def intro: runs_mono [OF checks_ok(1)] checks_ok(2))

lemma runs_fst: "runs (map_option fst m) Q = runs m (\<lambda>(c, e). Q c)"
  by (cases m) auto

lemma transmit_ok:
  assumes "bm_ok s"
  shows "runs (bm_transmit s) bm_ok"
proof -
  have "runs (map_option fst (atc_hdlc_transmit_i (bm_ctx s) (Some sensor_data) 11)) live"
    using hdlc_do_live [of "bm_ctx s" "Transmit_i (Some sensor_data) 11"] assms
    by (simp add: runs_fst runs_result bm_ok_def readable_def sensor_data_def)
  from bm_run_ok [OF assms, of "\<lambda>c. map_option fst (atc_hdlc_transmit_i c (Some sensor_data) 11)"] this
  have "runs (bm_run (\<lambda>c. map_option fst (atc_hdlc_transmit_i c (Some sensor_data) 11)) s) bm_ok"
    by (auto elim: runs_mono)
  with assms show ?thesis by (simp add: bm_transmit_def)
qed

lemma ring_octets_length: "length (ring_octets r) < 128"
  by (simp add: ring_octets_def)

lemma rx_drain_enough: "length (ring_octets r) + uart_count (concat irqs) < rx_drain_fuel irqs"
  using ring_octets_length [of r] by (simp add: rx_drain_fuel_def)

lemma then_ok:
  "runs m bm_ok \<Longrightarrow> (\<And>s. bm_ok s \<Longrightarrow> runs (f s) bm_ok) \<Longrightarrow> runs (m \<bind> f) bm_ok"
  by (auto elim: runs_mono)

lemma interrupts_ok: "bm_ok s \<Longrightarrow> runs (bm_interrupts is s) bm_ok"
  by (rule runs_mono [OF bm_interrupts_ok]) auto

lemma drain_ok: "bm_ok s \<Longrightarrow> runs (rx_drain (rx_drain_fuel irqs) irqs s) bm_ok"
  by (rule runs_mono [OF rx_drain_ok [OF _ rx_drain_enough]]) auto

lemma bm_iteration_ok: "bm_ok s \<Longrightarrow> runs (bm_iteration irqs i1 i2 i3 s) bm_ok"
  unfolding bm_iteration_def
  by (intro then_ok drain_ok interrupts_ok checks_ok transmit_ok)

lemma bm_step_ok:
  assumes "bm_ok s"
  shows "runs (bm_step a s) bm_ok"
proof (cases a)
  case (Interrupt i)
  then show ?thesis using bm_interrupt_ok [OF assms, of i] by (auto elim: runs_mono)
next
  case Drain_round
  then show ?thesis using drain_round_ok [OF assms] by (auto elim: runs_mono)
qed (use assms in \<open>simp_all add: bm_iteration_ok checks_ok transmit_ok\<close>)

lemma bm_steps_ok: "bm_ok s \<Longrightarrow> runs (bm_steps as s) bm_ok"
proof (induction as arbitrary: s)
  case (Cons a as)
  have "runs (bm_step a s) (\<lambda>s. runs (bm_steps as s) bm_ok)"
    by (rule runs_mono [OF bm_step_ok [OF Cons.prems]]) (rule Cons.IH)
  then show ?case by simp
qed simp

lemma bm_start_ok: "runs bm_start bm_ok"
proof -
  let ?s = "\<lparr>bm_ctx = bm_ctx0, bm_ring = rx_ring0, t1_expired_flag = False, t2_expired_flag = False\<rparr>"
  have "bm_ok ?s" using bm_live by (simp add: bm_ok_def ring_ok_def rx_ring0_def)
  moreover have "runs (map_option fst (atc_hdlc_link_setup bm_ctx0 0x02)) live"
    using hdlc_do_live [OF bm_live, of "Link_setup 0x02"] by (simp add: runs_fst runs_result)
  ultimately have "runs (bm_run (\<lambda>c. map_option fst (atc_hdlc_link_setup c 0x02)) ?s)
      (\<lambda>s'. bm_ok s' \<and> bm_ring s' = bm_ring ?s)"
    by (intro bm_run_ok) simp_all
  then show ?thesis
    unfolding bm_start_def by (rule runs_mono) simp
qed

section \<open>Properties\<close>

text \<open>C27 The bare-metal program never reaches undefined behaviour: after \<open>main\<close> has initialised
  the station and asked for the link, every interleaving of receive interrupts, timer interrupts
  and parts of the main loop, with any octets on the line, runs to a result, and there the
  station's invariant and the ring's index bounds hold.\<close>

theorem bm_never_stuck:
  "runs bm_start (\<lambda>s. runs (bm_steps as s) (\<lambda>s'. live (bm_ctx s') \<and> ring_ok (bm_ring s')))"
  using bm_start_ok by (rule runs_mono) (use bm_steps_ok in \<open>simp add: bm_ok_def [abs_def]\<close>)

text \<open>C28 The receive ring hands the main loop the octets the interrupt put in, each once and in
  order, for every interleaving of \<open>uart_rx_isr\<close> and \<open>rx_drain\<close> steps in which at most 127
  octets are waiting or arrive.\<close>

theorem ring_fifo:
  assumes "ring_ok r" "length (ring_octets r) + length (arrivals es) \<le> 127"
  shows "\<exists>r' out. queue_run uart_rx_isr ring_take r es = Some (r', out) \<and> ring_ok r'
     \<and> out @ ring_octets r' = ring_octets r @ arrivals es"
  using assms by (rule ring.queue_run_fifo)

lemma ring_fifo_witness:
  "\<exists>r' out. queue_run uart_rx_isr ring_take rx_ring0 [Inl 0x7E, Inr (), Inl 0x01, Inl 0x03, Inr ()]
     = Some (r', out) \<and> ring_ok r' \<and> out @ ring_octets r' = [0x7E, 0x01, 0x03]"
  using ring_fifo [of rx_ring0 "[Inl 0x7E, Inr (), Inl 0x01, Inl 0x03, Inr ()]"]
  by (simp add: ring_ok_def ring_octets_def rx_ring0_def)

text \<open>C29 \<open>rx_drain\<close> empties the ring, whatever the octets make the station do and whatever interrupts
  come while it runs: with \<open>k\<close> octets arriving during the loop, its condition is evaluated at most
  \<open>128 + k\<close> times, and then the ring is empty and the station's invariant holds. The bound on the
  arrivals is needed: with an octet arriving before every evaluation the loop does not end after any
  number \<open>n\<close> of them.\<close>

theorem rx_drain_empties:
  assumes "live (bm_ctx s)" "ring_ok (bm_ring s)"
  shows "runs (rx_drain (128 + uart_count (concat irqs)) irqs s)
      (\<lambda>s'. rx_head (bm_ring s') = rx_tail (bm_ring s') \<and> live (bm_ctx s'))
    \<and> rx_drain n (replicate n [Uart_isr b]) s = None"
proof
  have ok: "bm_ok s" using assms by (simp add: bm_ok_def)
  then show "rx_drain n (replicate n [Uart_isr b]) s = None" by (rule rx_drain_starves)
  show "runs (rx_drain (128 + uart_count (concat irqs)) irqs s)
      (\<lambda>s'. rx_head (bm_ring s') = rx_tail (bm_ring s') \<and> live (bm_ctx s'))"
  proof (rule runs_mono [OF rx_drain_ok [OF ok rx_drain_enough [unfolded rx_drain_fuel_def]]])
    fix s' assume s': "bm_ok s' \<and> ring_octets (bm_ring s') = []"
    then show "rx_head (bm_ring s') = rx_tail (bm_ring s') \<and> live (bm_ctx s')"
      using ring_last(6) [of "unat (rx_head (bm_ring s'))" "unat (rx_tail (bm_ring s'))"]
      by (simp add: bm_ok_def ring_ok_def ring_octets_def word_unat_eq_iff)
  qed
qed

lemma rx_drain_empties_witness:
  "runs (rx_drain 130 [[], [Uart_isr 0x7E, T1_isr], [T2_isr, Uart_isr 0x01]]
      \<lparr>bm_ctx = bm_ctx0, bm_ring = rx_ring0\<lparr>rx_head := 5\<rparr>, t1_expired_flag = False, t2_expired_flag = False\<rparr>)
      (\<lambda>s'. rx_head (bm_ring s') = rx_tail (bm_ring s') \<and> live (bm_ctx s'))"
  using rx_drain_empties [of "\<lparr>bm_ctx = bm_ctx0, bm_ring = rx_ring0\<lparr>rx_head := 5\<rparr>, t1_expired_flag = False,
      t2_expired_flag = False\<rparr>" "[[], [Uart_isr 0x7E, T1_isr], [T2_isr, Uart_isr 0x01]]"] bm_live
  by (simp add: ring_ok_def rx_ring0_def uart_count_def del: rx_drain.simps)

section \<open>What the stubs print\<close>

fun hex_digit :: "nat \<Rightarrow> char" where
  "hex_digit n = (if n < 10 then char_of (48 + n) else char_of (55 + n))"

text \<open>\<open>%02X\<close> of an octet and \<open>%u\<close> of a number.\<close>

definition hex_octet :: "u8 \<Rightarrow> string" where
  "hex_octet b = [hex_digit (unat b div 16), hex_digit (unat b mod 16)]"

fun decimal :: "nat \<Rightarrow> string" where
  "decimal n = (if n < 10 then [hex_digit n] else decimal (n div 10) @ [hex_digit (n mod 10)])"

declare decimal.simps [simp del]

definition newline :: string where "newline = [CHR 0x0A]"

definition uart_send :: "u8 \<Rightarrow> bool \<Rightarrow> string" where
  "uart_send byte flush = hex_octet byte @ '' '' @ (if flush then newline else [])"

definition bm_on_data :: "octets \<Rightarrow> u16 \<Rightarrow> string" where
  "bm_on_data data len = ''[app] received '' @ decimal (unat len) @ '' bytes'' @ newline"

definition bm_on_event :: "atc_hdlc_event_t \<Rightarrow> string" where
  "bm_on_event event = (case event of
       ATC_HDLC_EVENT_CONN_ACCEPTED \<Rightarrow> ''[app] connected'' @ newline
     | ATC_HDLC_EVENT_CONN_REQ \<Rightarrow> ''[app] peer connected'' @ newline
     | ATC_HDLC_EVENT_DISC_DONE \<Rightarrow> ''[app] disconnected'' @ newline
     | ATC_HDLC_EVENT_PEER_DISC \<Rightarrow> ''[app] disconnected'' @ newline
     | ATC_HDLC_EVENT_LINK_FAILURE \<Rightarrow> ''[app] link failure'' @ newline
     | ATC_HDLC_EVENT_WINDOW_OPEN \<Rightarrow> ''[app] TX window open'' @ newline
     | _ \<Rightarrow> [])"

fun bm_prints :: "callback \<Rightarrow> string" where
  "bm_prints (On_send b f) = uart_send b f"
| "bm_prints (On_data data len) = bm_on_data data len"
| "bm_prints (On_event e) = bm_on_event e"
| "bm_prints _ = []"

text \<open>The text of a run: what each callback prints, in the order of the calls.\<close>

definition bm_console :: "bm_t \<Rightarrow> string" where
  "bm_console s = concat (map bm_prints (trace (bm_ctx s)))"

section \<open>The whole program on a PC\<close>

definition fake_rx :: "u8 list" where
  "fake_rx = [0x7E, 0x01, 0x03, 0x8B, 0xB9, 0x7E]"

text \<open>
  What \<open>main\<close> does after its loop: octets into the ring, both timers, one last time round; no
  interrupt comes. \<open>rx\<close> stands for the array \<open>fake_rx\<close>, and \<open>k\<close> for the four iterations of the loop.
\<close>

definition bm_finish :: "u8 list \<Rightarrow> bm_t \<Rightarrow> bm_t option" where
  "bm_finish rx s = do {
     s \<leftarrow> bm_interrupts (map Uart_isr rx) s;
     s \<leftarrow> rx_drain 128 [] s;
     s \<leftarrow> bm_interrupts [T1_isr, T2_isr] s;
     bm_timers s }"

definition bm_program :: "nat \<Rightarrow> u8 list \<Rightarrow> bm_t option" where
  "bm_program k rx = do {
     s \<leftarrow> bm_start;
     s \<leftarrow> bm_steps (replicate k (Loop_iteration [] [] [] [])) s;
     bm_finish rx s }"

definition bm_main :: "bm_t option" where
  "bm_main = bm_program 4 fake_rx"

end
