(* ===== verification/Hdlc_Line.thy ===== *)
theory Hdlc_Line
  imports Bare_Metal
begin

text \<open>
  Properties of the line: the FCS engine, the senders' encoding, the receiver against the
  reference deframer, round trips, rejection, resynchronisation, streaming. Witnesses use the
  station of the bare-metal template.
\<close>

section \<open>The FCS\<close>

text \<open>C20 The software CRC driver computes the reflected CRC-CCITT of the octet range it is given:
  running the table lookup over the octets is shifting their bits, least significant first,
  through the 16-bit register with feedback \<open>0x8408\<close>. Reading is confined to the range.\<close>

theorem soft_compute_is_crc_ccitt:
  assumes "unat len \<le> length xs"
  shows "soft_compute fcs (Some xs) len = Some (foldl crc_bit fcs (concat (map octet_bits (take (unat len) xs))))"
  using assms by (simp add: soft_compute_eq crc_octets_bits crc_bits_def stream_bits_def)

lemma soft_compute_is_crc_ccitt_witness:
  "soft_compute 0xFFFF (Some [0x01, 0x0F, 0x97]) 2
     = Some (foldl crc_bit 0xFFFF (concat (map octet_bits [0x01, 0x0F])))"
  using soft_compute_is_crc_ccitt [of 2 "[0x01, 0x0F, 0x97]" "0xFFFF"] by simp

lemma good_fcs_residue:
  assumes "2 \<le> length xs"
  shows "good_fcs atc_hdlc_crc_ops_default xs \<longleftrightarrow> crc_octets ATC_HDLC_FCS_INIT_VALUE xs = 0"
proof -
  obtain ys hi where ys: "xs = ys @ [hi]"
    using assms by (cases xs rule: rev_cases) auto
  then obtain zs lo where "ys = zs @ [lo]"
    using assms by (cases ys rule: rev_cases) auto
  with ys have xs: "xs = zs @ [lo, hi]" by simp
  have "crc_octets ATC_HDLC_FCS_INIT_VALUE xs = crc_octets (crc_octets ATC_HDLC_FCS_INIT_VALUE zs) [lo, hi]"
    unfolding xs by (simp only: crc_octets_simps(3))
  moreover have "good_fcs atc_hdlc_crc_ops_default xs \<longleftrightarrow>
      crc_octets ATC_HDLC_FCS_INIT_VALUE zs = ucast lo OR push_bit 8 (ucast hi)"
    by (simp add: xs good_fcs_def held_fcs_def soft_fcs nth_append)
  ultimately show ?thesis
    by (simp only: crc_residue fcs_octets)
qed

lemma crc_burst_octets:
  assumes "stream_bits xs = p @ u @ s" "stream_bits ys = p @ v @ s"
    and "length u = length v" "length u \<le> 16" "u \<noteq> v"
  shows "crc_octets c xs \<noteq> crc_octets c ys"
  using assms crc_burst_bits by (simp add: crc_octets_bits)

text \<open>C19 Every error burst of at most 16 bits is detected: when a checked frame is received with
  its bits changed inside one window of at most 16 bits, anywhere from the address to the FCS,
  the changed octets fail the FCS check of the receiver.\<close>

theorem burst_detected:
  assumes "good_fcs atc_hdlc_crc_ops_default xs" "2 \<le> length xs" "2 \<le> length ys"
    and "stream_bits xs = p @ u @ s" "stream_bits ys = p @ v @ s"
    and "length u = length v" "length u \<le> 16" "u \<noteq> v"
  shows "\<not> good_fcs atc_hdlc_crc_ops_default ys"
  using assms crc_burst_octets [OF assms(4-8)] good_fcs_residue [of xs] good_fcs_residue [of ys] by metis

lemma burst_detected_witness:
  "\<not> good_fcs atc_hdlc_crc_ops_default [0x01, 0x0F, 0x97, 0x10]"
proof (rule burst_detected [of "[0x01, 0x0F, 0x97, 0x11]" _ "octet_bits 0x01 @ octet_bits 0x0F @ octet_bits 0x97"
      "octet_bits 0x11" "[]" "octet_bits 0x10"])
  show "good_fcs atc_hdlc_crc_ops_default [0x01, 0x0F, 0x97, 0x11]"
    by (simp add: good_fcs_def held_fcs_def soft_fcs ATC_HDLC_FCS_INIT_VALUE_def
        atc_hdlc_crc_ccitt_update_def fcstab_def)
qed (simp_all add: stream_bits_def octet_bits_def upt_rec)

section \<open>Frames on the line\<close>

text \<open>The calls a context has made since an earlier one.\<close>

definition new_calls :: "atc_hdlc_ctx_t \<Rightarrow> atc_hdlc_ctx_t \<Rightarrow> callback list" where
  "new_calls c c' = drop (length (trace c)) (trace c')"

lemma new_calls_say [simp]: "trace d = trace c \<Longrightarrow> new_calls c (say d xs) = xs"
  by (simp add: new_calls_def)

fun is_flush :: "callback \<Rightarrow> bool" where
  "is_flush (On_send b f) = f"
| "is_flush _ = False"

text \<open>C21 Every frame goes out as: an opening flag, the byte-stuffed address, control,
  information and FCS octets, low FCS octet first, and a closing flag. The flush mark is on the
  closing flag only, no flag octet occurs between the two flags, and nothing of the context
  changes but the transmit FCS.\<close>

theorem frame_send_encodes:
  assumes "ready c" "readable data len"
  shows "\<exists>c'. frame_send c addr ctrl data len = Some c'
     \<and> new_calls c c' = map (\<lambda>b. On_send b False)
         (FLAG # stuff (addr # ctrl # payload data len @ fcs_field (driver_fcs (drv c) (addr # ctrl # payload data len))))
         @ [On_send FLAG True]
     \<and> FLAG \<notin> set (stuff (addr # ctrl # payload data len
         @ fcs_field (driver_fcs (drv c) (addr # ctrl # payload data len))))
     \<and> c' = c\<lparr>tx_crc := tx_crc c', trace := trace c @ new_calls c c'\<rparr>"
  using assms stuff_no_flag
  by (simp add: frame_send_payload frame_calls_def frame_body_def say_def new_calls_def del: stuff_simps)

lemma bm_ready: "ready bm_ctx0"
  using bm_live by (simp add: live_def settled_def)

lemma frame_send_encodes_witness:
  "\<exists>c'. frame_send bm_ctx0 0x02 U_UI (Some [0x7E]) 1 = Some c'"
  using frame_send_encodes [OF bm_ready, of "Some [0x7E]" 1 "0x02" U_UI] by (auto simp: readable_def)

section \<open>The receiver\<close>

lemma bm_rx: "rx_inv bm_ctx0" "idle_rx bm_ctx0" "rx_capacity bm_ctx0 = 72" "our_address bm_ctx0 0x01"
    "drv bm_ctx0 = atc_hdlc_crc_ops_default" "my_address bm_ctx0 = 0x01" "rx_state bm_ctx0 = RX_HUNT"
    "current_state bm_ctx0 = ATC_HDLC_STATE_DISCONNECTED" "plat bm_ctx0 = bm_platform"
proof -
  show "rx_inv bm_ctx0" using bm_live by (simp add: live_def)
qed (simp_all add: bm_ctx0_def atc_hdlc_init_def bm_params_def bm_cfg_def bm_platform_def bm_rx_buf_def
    bm_tx_win_def MAX_INFO_SIZE_def WINDOW_SIZE_def is_null_def txwin_error_def Let_def hdlc_len_defs
    idle_rx_def view_def rx_capacity_def our_address_def drv_def plat_def zero_ctx_def)

text \<open>C6 The receiver implements the reference deframer. On every octet, a station that any
  sequence of legal calls can have produced moves its buffer, index, unstuffing state and running
  FCS as \<open>deframe\<close> moves its list of octets; it hands a frame to the dispatcher exactly when
  \<open>deframe\<close> completes one, with that frame's octets; otherwise nothing but the receiver's own
  fields changes.\<close>

theorem receiver_refines_deframer:
  assumes "reachable c"
  shows "case deframe c (view c) b of
      (v, None) \<Rightarrow> \<exists>c'. rx_byte c b = Some c' \<and> rx_frame c c' \<and> view c' = v \<and> rx_inv c'
    | (v, Some xs) \<Rightarrow> \<exists>d. accept_frame c xs = Some d \<and> rx_byte c b = Some (rx_reset RX_ADDR d)
        \<and> view (rx_reset RX_ADDR d) = v"
proof -
  have inv: "rx_inv c" using reachable_live [OF assms] by (simp add: live_def)
  obtain v f where vf: "deframe c (view c) b = (v, f)" by (cases "deframe c (view c) b")
  show ?thesis
  proof (cases f)
    case None
    with rx_byte_stores [OF inv] vf show ?thesis by (auto simp: runs_iff rx_to_def)
  next
    case (Some xs)
    with rx_byte_accepts [OF inv] vf
    have acc: "rx_byte c b = map_option (rx_reset RX_ADDR) (accept_frame c xs)" "v = Gather [] False" by auto
    obtain e where "rx_byte c b = Some e"
      using runs_Some_exists [OF rx_byte_inv [OF inv]] by blast
    with acc Some vf show ?thesis by (cases "accept_frame c xs") auto
  qed
qed

lemma receiver_refines_deframer_witness:
  "\<exists>c'. rx_byte bm_ctx0 FLAG = Some c' \<and> rx_frame bm_ctx0 c' \<and> view c' = Gather [] False \<and> rx_inv c'"
  using receiver_refines_deframer [OF bm_reachable, of FLAG] by (simp add: view_def bm_rx(7))

text \<open>C7 What a station sends is what its peer receives: the octets \<open>frame_send\<close> puts on the line,
  fed to a receiver that is between frames, has room for them and answers to the address, make it
  dispatch exactly one frame, with the sent address, control octet and payload, for any CRC driver
  the two share. \<open>c0\<close> is the receiver with the frame in its buffer.\<close>

theorem frame_roundtrip:
  assumes "ready s" "readable data len" "frame_send s addr ctrl data len = Some s'"
    and "rx_inv c" "idle_rx c" "drv c = drv s" "unat len + 4 \<le> rx_capacity c" "our_address c addr"
  shows "\<exists>c0. rx_frame c c0 \<and> rx_octets c (line_octets (new_calls s s')) = map_option (rx_reset RX_ADDR)
     (dispatch_frame c0 addr ctrl (if len = 0 then None else Some (payload data len)) (ucast len))"
proof -
  let ?p = "payload data len"
  have len: "length ?p = unat len" using assms(2) by (rule length_payload)
  have octets: "line_octets (new_calls s s') = frame_octets (drv c) addr ctrl ?p"
    using assms(1,2,3,6) by (auto simp: frame_send_payload)
  have "(word_of_nat (length ?p) :: u16) = ucast len" unfolding len by simp
  moreover have "?p = [] \<longleftrightarrow> len = 0"
    using len by (auto simp: unat_eq_zero)
  ultimately show ?thesis
    using rx_frame_octets [OF assms(4,5) _ assms(8), of ?p ctrl] assms(7) len
    unfolding octets by (auto simp: rx_to_def)
qed

lemma frame_roundtrip_witness:
  "\<exists>s' c0. frame_send bm_ctx0 0x01 U_UI (Some [0x7E, 0x41]) 2 = Some s' \<and> rx_frame bm_ctx0 c0
     \<and> rx_octets bm_ctx0 (line_octets (new_calls bm_ctx0 s'))
       = map_option (rx_reset RX_ADDR) (dispatch_frame c0 0x01 U_UI (Some [0x7E, 0x41]) 2)"
proof -
  have r: "readable (Some [0x7E, 0x41 :: u8]) 2" by (simp add: readable_def)
  then obtain s' where s': "frame_send bm_ctx0 0x01 U_UI (Some [0x7E, 0x41]) 2 = Some s'"
    using frame_send_payload [OF bm_ready] by blast
  from frame_roundtrip [OF bm_ready r s' bm_rx(1,2) refl _ bm_rx(4)] s' show ?thesis
    by (auto simp: bm_rx payload_def)
qed

text \<open>C22 Octets between two flags that are fewer than four, fail the FCS, start with a foreign
  address or do not fit the buffer leave everything but the receiver's own fields as it was: no
  callback is made, no sequence number or state changes, and the receiver is ready for the next
  frame.\<close>

theorem bad_frame_dropped:
  assumes "rx_inv c" "idle_rx c"
    and "length zs < 4 \<or> \<not> good_fcs (drv c) zs \<or> \<not> our_address c (hd zs) \<or> rx_capacity c < length zs"
  shows "\<exists>c'. rx_octets c (FLAG # stuff zs @ [FLAG]) = Some c' \<and> rx_frame c c' \<and> rx_inv c' \<and> idle_rx c'"
  using rx_stuffed_reject [OF assms] by (auto simp: runs_iff rx_to_def idle_rx_def)

lemma bad_frame_dropped_witness:
  "\<exists>c'. rx_octets bm_ctx0 (FLAG # stuff [0x01, 0x03, 0x8B, 0xB9] @ [FLAG]) = Some c'
     \<and> rx_frame bm_ctx0 c' \<and> rx_inv c' \<and> idle_rx c'"
proof -
  have "\<not> good_fcs (drv bm_ctx0) [0x01, 0x03, 0x8B, 0xB9]"
    by (simp add: bm_rx good_fcs_def held_fcs_def soft_fcs ATC_HDLC_FCS_INIT_VALUE_def
        atc_hdlc_crc_ccitt_update_def fcstab_def)
  then show ?thesis using bad_frame_dropped [OF bm_rx(1,2)] by blast
qed

lemma flag_idles:
  assumes "rx_inv c"
  shows "runs (rx_byte c FLAG) (\<lambda>d. rx_inv d \<and> idle_rx d)"
proof (cases "snd (deframe c (view c) FLAG)")
  case None
  then have "deframe c (view c) FLAG = (Gather [] False, None)"
    by (cases "view c") auto
  with assms have "runs (rx_byte c FLAG) (rx_to c (Gather [] False))" by (rule rx_byte_stores)
  then show ?thesis by (rule runs_mono) (simp add: rx_to_def idle_rx_def)
next
  case (Some xs)
  then have d: "deframe c (view c) FLAG = (Gather [] False, Some xs)"
    by (cases "view c") auto
  obtain e where e: "rx_byte c FLAG = Some e" "rx_inv e"
    using runs_Some_exists [OF rx_byte_inv [OF assms]] by blast
  with rx_byte_accepts(1) [OF assms d] obtain a where "e = rx_reset RX_ADDR a"
    by (cases "accept_frame c xs") auto
  then have "idle_rx e" by (simp add: idle_rx_def)
  with e show ?thesis by simp
qed

text \<open>C23 Resynchronisation: whatever octets a live station receives, they are processed, and one
  flag later it accepts the next well-formed frame that is addressed to it and fits.\<close>

theorem resynchronises:
  assumes "live c" "length info + 4 \<le> rx_capacity c" "our_address c addr"
  shows "\<exists>d d0. rx_octets c (noise @ [FLAG]) = Some d \<and> rx_frame d d0 \<and>
     rx_octets c (noise @ [FLAG] @ frame_octets (drv c) addr ctrl info) = map_option (rx_reset RX_ADDR)
       (dispatch_frame d0 addr ctrl (if info = [] then None else Some info) (word_of_nat (length info)))"
proof -
  have "runs (rx_octets c noise) (\<lambda>e. rx_inv e \<and> rx_env c e)"
    using assms(1) by (intro rx_octets_env) (simp add: live_def)
  then obtain e where e: "rx_octets c noise = Some e" "rx_inv e" "rx_env c e"
    by (auto simp: runs_iff)
  obtain d where d: "rx_byte e FLAG = Some d" "rx_inv d" "idle_rx d" "rx_env e d"
    using runs_conj [OF flag_idles [OF e(2)] rx_byte_env [OF e(2)]] by (auto simp: runs_iff)
  then have env: "rx_capacity d = rx_capacity c" "our_address d = our_address c" "drv d = drv c"
    using e(3) by (simp_all add: rx_env_def)
  have split: "rx_octets c (noise @ [FLAG]) = Some d"
    using d(1) e(1) by (simp add: rx_octets_append)
  obtain d0 where "rx_to d (Gather (frame_body (drv c) addr ctrl info) False) d0"
    "rx_octets d (frame_octets (drv c) addr ctrl info) = map_option (rx_reset RX_ADDR)
       (dispatch_frame d0 addr ctrl (if info = [] then None else Some info) (word_of_nat (length info)))"
    using rx_frame_octets [OF d(2,3), of info addr ctrl] assms(2,3) env by auto
  with split d(1) e(1) show ?thesis
    by (auto simp: rx_octets_append rx_to_def)
qed

lemma resynchronises_witness:
  "\<exists>d d0. rx_octets bm_ctx0 ([0x12, 0x7D, 0x7E, 0x01, 0x3F] @ [FLAG]) = Some d \<and> rx_frame d d0 \<and>
     rx_octets bm_ctx0 ([0x12, 0x7D, 0x7E, 0x01, 0x3F] @ [FLAG] @ frame_octets (drv bm_ctx0) 0x01 U_UI [0x41])
       = map_option (rx_reset RX_ADDR) (dispatch_frame d0 0x01 U_UI (Some [0x41]) 1)"
  using resynchronises [OF bm_live _ bm_rx(4), of "[0x41]" "[0x12, 0x7D, 0x7E, 0x01, 0x3F]" U_UI]
  by (simp add: bm_rx)

text \<open>C24 Splitting the input makes no difference as long as no frame is completed in the first
  part, that is, the reference deframer yields none over it: the split may be before, in or after the
  opening flag, between the two octets of an escape, or after a frame with a bad FCS.
  \<open>atc_hdlc_data_in\<close> on two chunks is then \<open>atc_hdlc_data_in\<close> on their concatenation.\<close>

theorem data_in_split:
  assumes "live c" "frames_in c (view c) xs = 0"
    and "unat n = length xs" "unat m = length ys" "unat k = length xs + length ys"
  shows "atc_hdlc_data_in c (Some (xs @ ys)) k
    = atc_hdlc_data_in c (Some xs) n \<bind> (\<lambda>c. atc_hdlc_data_in c (Some ys) m)"
proof -
  obtain d where d: "rx_octets c xs = Some d" "rx_frame c d"
    using runs_Some_exists [OF rx_octets_to [OF _ assms(2)]] assms(1) by (auto simp: live_def settled_def rx_to_def)
  then have "\<not> pending d"
    using assms(1) rx_frame_fields(6) [OF d(2)] by (simp add: live_def settled_def CTX_FLAG_def)
  with d assms(3-5) show ?thesis
    by (simp add: data_in_run rx_octets_append)
qed

lemma data_in_split_witness:
  "atc_hdlc_data_in bm_ctx0 (Some ([0x7E, 0x01, 0x7D] @ [0x5E, 0x7E])) 5
    = atc_hdlc_data_in bm_ctx0 (Some [0x7E, 0x01, 0x7D]) 3 \<bind> (\<lambda>c. atc_hdlc_data_in c (Some [0x5E, 0x7E]) 2)"
proof (rule data_in_split [OF bm_live])
  have "view bm_ctx0 = Hunt" by (simp add: view_def bm_rx(7))
  then show "frames_in bm_ctx0 (view bm_ctx0) [0x7E, 0x01, 0x7D] = 0"
    using bm_rx(4) by (simp add: FLAG_def ESC_def gather_def bm_rx)
qed simp_all

section \<open>Streaming\<close>

fun ui_stream :: "atc_hdlc_ctx_t \<Rightarrow> u8 list list \<Rightarrow> atc_hdlc_ctx_t option" where
  "ui_stream c [] = atc_hdlc_transmit_ui_end c"
| "ui_stream c (p # ps) = do {
     c \<leftarrow> atc_hdlc_transmit_ui_data c (Some p) (word_of_nat (length p)); ui_stream c ps }"

lemma ui_stream_run:
  "ready c \<Longrightarrow> list_all (\<lambda>p. length p < 2 ^ 32) ps \<Longrightarrow> ui_stream c ps =
     Some (let d = c\<lparr>tx_crc := foldl (driver_step (drv c)) (tx_crc c) (concat ps)\<rparr> in
       say d (map (\<lambda>b. On_send b False) (stuff (concat ps @ fcs_field (tx_crc d))) @ [On_send FLAG True]))"
proof (induction ps arbitrary: c)
  case Nil
  then show ?case by (simp add: atc_hdlc_transmit_ui_end_def frame_end_run)
next
  case (Cons p ps)
  then have "unat (word_of_nat (length p) :: u32) = length p"
    by (simp add: unat_of_nat take_bit_nat_eq_self)
  with Cons show ?case
    by (simp add: atc_hdlc_transmit_ui_data_def emit_loop_run Let_def)
qed

text \<open>C31 Streaming a UI frame is sending it at once: \<open>transmit_ui_start\<close>, any number of
  \<open>transmit_ui_data\<close> calls and \<open>transmit_ui_end\<close> leave the same context and put the same octets on
  the line as \<open>atc_hdlc_transmit_ui\<close> with the concatenated payload, when that accepts its length.\<close>

theorem ui_stream_equals_transmit_ui:
  assumes "ready c" "length (concat ps) < 2 ^ 32" "\<not> too_long c (word_of_nat (length (concat ps)))"
  shows "(atc_hdlc_transmit_ui_start c addr \<bind> (\<lambda>c. ui_stream c ps)) =
     map_option fst (atc_hdlc_transmit_ui c addr (Some (concat ps)) (word_of_nat (length (concat ps))))"
proof -
  have len: "unat (word_of_nat (length (concat ps)) :: u32) = length (concat ps)"
    using assms(2) by (simp add: unat_of_nat take_bit_nat_eq_self)
  have "list_all (\<lambda>p. length p < 2 ^ 32) ps"
    using assms(2) by (induction ps) auto
  then have "(atc_hdlc_transmit_ui_start c addr \<bind> (\<lambda>c. ui_stream c ps)) =
     Some (say (c\<lparr>tx_crc := driver_fcs (drv c) (addr # U_CTRL U_UI 0 # concat ps)\<rparr>)
       (frame_calls (drv c) addr (U_CTRL U_UI 0) (concat ps)))"
    using assms(1)
    by (simp add: atc_hdlc_transmit_ui_start_def frame_begin_run ui_stream_run Let_def driver_fcs_def
        frame_calls_def frame_body_def)
  then show ?thesis
    using assms(1,3) len by (simp add: atc_hdlc_transmit_ui_def frame_send_run)
qed

lemma ui_stream_equals_transmit_ui_witness:
  "(atc_hdlc_transmit_ui_start bm_ctx0 0xFF \<bind> (\<lambda>c. ui_stream c [[0x61, 0x7D], [], [0x62]])) =
     map_option fst (atc_hdlc_transmit_ui bm_ctx0 0xFF (Some [0x61, 0x7D, 0x62]) 3)"
proof -
  have "\<not> too_long bm_ctx0 3"
    by (simp add: too_long_def bm_ctx0_def atc_hdlc_init_def bm_storage_defs is_null_def txwin_error_def
        Let_def hdlc_len_defs)
  then show ?thesis
    using ui_stream_equals_transmit_ui [OF bm_ready, of "[[0x61, 0x7D], [], [0x62]]" "0xFF"] by simp
qed

end
