(* ===== verification/Hdlc_Link.thy ===== *)
theory Hdlc_Link
  imports Hdlc_Line
begin

text \<open>
  The link layer of a connected station: acknowledgements, the state machine, the supervision of
  outstanding frames by T1, and the properties of the frame handlers. \<open>next_state\<close> is the
  abstract transition function the dispatcher refines.
\<close>

section \<open>Acknowledgements\<close>

definition acked_fields :: "atc_hdlc_ctx_t \<Rightarrow> u8 \<Rightarrow> atc_hdlc_ctx_t" where
  "acked_fields c nr = (if nr = va c then c else c\<lparr>va := nr, n2 := 0\<rparr>)"

definition acked_calls :: "atc_hdlc_ctx_t \<Rightarrow> u8 \<Rightarrow> callback list" where
  "acked_calls c nr = (if nr \<noteq> va c \<and> \<not> tx_open c then event_calls c ATC_HDLC_EVENT_WINDOW_OPEN else [])"

lemma frames_acked_run:
  assumes "core c" "acceptable c nr"
  shows "frames_acked c nr = Some (say (acked_fields c nr) (acked_calls c nr))"
proof (cases "nr = va c")
  case True
  then show ?thesis by (simp add: frames_acked_def acked_fields_def acked_calls_def)
next
  case False
  then obtain w where w: "tx_window c = Some w"
    using assms acceptable_no_window by blast
  have "mask8_dist (vs c) (va c) \<ge> slot_count w \<longleftrightarrow> \<not> tx_open c"
    using w coreD(2) [OF assms(1)]
    by (simp add: tx_open_def out_count_def seq_ok_def word_le_nat_alt dist8_word not_less)
  with False w assms(1) show ?thesis
    by (simp add: frames_acked_def Let_def hdlc_run acked_fields_def acked_calls_def)
qed

definition processed :: "atc_hdlc_ctx_t \<Rightarrow> u8 \<Rightarrow> atc_hdlc_ctx_t" where
  "processed c nr = (if vs c = nr then say (CTX_CLR (acked_fields c nr) HDLC_F_T1_ACTIVE)
       (acked_calls c nr @ t1_stop_calls c)
     else if va c \<noteq> nr then say (CTX_SET (acked_fields c nr) HDLC_F_T1_ACTIVE)
       (acked_calls c nr @ t1_start_calls c)
     else c)"

lemma acked_fields_simps [simp]:
  "va (acked_fields c nr) = nr" "vs (acked_fields c nr) = vs c" "vr (acked_fields c nr) = vr c"
  "current_state (acked_fields c nr) = current_state c" "ready (acked_fields c nr) = ready c"
  "CTX_FLAG (acked_fields c nr) f = CTX_FLAG c f" "plat (acked_fields c nr) = plat c"
  "drv (acked_fields c nr) = drv c" "my_address (acked_fields c nr) = my_address c"
  "peer_address (acked_fields c nr) = peer_address c" "tx_window (acked_fields c nr) = tx_window c"
  "tx_next_slot (acked_fields c nr) = tx_next_slot c" "trace (acked_fields c nr) = trace c"
  "retransmit_from (acked_fields c nr) = retransmit_from c"
  "t1_start_calls (acked_fields c nr) = t1_start_calls c"
  "t1_stop_calls (acked_fields c nr) = t1_stop_calls c"
  "t2_start_calls (acked_fields c nr) = t2_start_calls c"
  "t2_stop_calls (acked_fields c nr) = t2_stop_calls c"
  "event_calls (acked_fields c nr) ev = event_calls c ev"
  "data_calls (acked_fields c nr) info n = data_calls c info n"
  by (simp_all add: acked_fields_def)

lemma process_nr_run:
  "core c \<Longrightarrow> acceptable c nr \<Longrightarrow> process_nr c nr = Some (processed c nr)"
  by (auto simp: process_nr_def processed_def frames_acked_run hdlc_run)

lemma processed_simps [simp]:
  "va (processed c nr) = nr" "vs (processed c nr) = vs c" "vr (processed c nr) = vr c"
  "current_state (processed c nr) = current_state c" "ready (processed c nr) = ready c"
  "plat (processed c nr) = plat c" "my_address (processed c nr) = my_address c"
  "peer_address (processed c nr) = peer_address c" "drv (processed c nr) = drv c"
  "tx_window (processed c nr) = tx_window c" "tx_next_slot (processed c nr) = tx_next_slot c"
  "retransmit_from (processed c nr) = retransmit_from c"
  by (simp_all add: processed_def)

lemma processed_flag [simp]: "HDLC_F_T1_ACTIVE AND f = 0 \<Longrightarrow> CTX_FLAG (processed c nr) f = CTX_FLAG c f"
  by (simp add: processed_def)

lemma validate_nr_run:
  assumes "core c" "unat nr < 8"
  shows "validate_nr c ctrl nr = (if acceptable c nr then Some (c, True) else do {
     c \<leftarrow> send_frmr c ctrl False False False True;
     c \<leftarrow> set_state c ATC_HDLC_STATE_FRMR_ERROR ATC_HDLC_EVENT_PROTOCOL_ERROR;
     Some (c, False) })"
  using assms by (simp add: validate_nr_def validate_nr_guard Let_def)
section \<open>Link states\<close>

text \<open>
  The transition function of the link, without buffers, timers or counters: the state, the
  control octet and whether its N(R) lies in the window give the next state.
\<close>

definition next_state :: "atc_hdlc_state_t \<Rightarrow> u8 \<Rightarrow> bool \<Rightarrow> atc_hdlc_state_t" where
  "next_state st ctrl nr_ok = (let cmd = ctrl AND NOT PF_BIT; pf = (CTRL_PF ctrl \<noteq> 0); u = is_uframe ctrl in
     case st of
       ATC_HDLC_STATE_DISCONNECTED \<Rightarrow> if u \<and> cmd = U_SABM then ATC_HDLC_STATE_CONNECTED else st
     | ATC_HDLC_STATE_CONNECTING \<Rightarrow> if u \<and> pf \<and> cmd = U_UA then ATC_HDLC_STATE_CONNECTED
         else if u \<and> pf \<and> cmd = U_DM then ATC_HDLC_STATE_DISCONNECTED else st
     | ATC_HDLC_STATE_CONNECTED \<Rightarrow>
         if \<not> u then (if nr_ok then st else ATC_HDLC_STATE_FRMR_ERROR)
         else if cmd = U_DISC \<or> cmd = U_DM then ATC_HDLC_STATE_DISCONNECTED
         else if cmd = U_FRMR then ATC_HDLC_STATE_FRMR_ERROR else st
     | ATC_HDLC_STATE_DISCONNECTING \<Rightarrow>
         if u \<and> pf \<and> (cmd = U_UA \<or> cmd = U_DM) then ATC_HDLC_STATE_DISCONNECTED else st
     | ATC_HDLC_STATE_FRMR_ERROR \<Rightarrow> if u \<and> cmd = U_SABM then ATC_HDLC_STATE_CONNECTED else st)"

lemma u_codes_distinct [simp]:
  "U_UA \<noteq> U_SABM" "U_DM \<noteq> U_SABM" "U_DISC \<noteq> U_SABM" "U_DM \<noteq> U_UA" "U_DISC \<noteq> U_UA" "U_DISC \<noteq> U_DM"
  "U_FRMR \<noteq> U_SABM" "U_FRMR \<noteq> U_DISC" "U_FRMR \<noteq> U_DM" "U_UI \<noteq> U_SABM" "U_UI \<noteq> U_DISC" "U_UI \<noteq> U_DM"
  "U_UI \<noteq> U_FRMR" "U_TEST \<noteq> U_SABM" "U_TEST \<noteq> U_DISC" "U_TEST \<noteq> U_DM" "U_TEST \<noteq> U_FRMR" "U_TEST \<noteq> U_UI"
  "U_SABM \<noteq> U_UA" "U_SABM \<noteq> U_DM" "U_SABM \<noteq> U_DISC" "U_UA \<noteq> U_DM" "U_UA \<noteq> U_DISC" "U_DM \<noteq> U_DISC"
  "U_SABME \<noteq> U_SABM" "U_SABME \<noteq> U_DISC" "U_SABME \<noteq> U_UA" "U_SABME \<noteq> U_DM"
  "U_SNRM \<noteq> U_DISC" "U_SNRM \<noteq> U_DM" "U_SNRM \<noteq> U_FRMR" "U_SNRME \<noteq> U_DISC" "U_SNRME \<noteq> U_DM" "U_SNRME \<noteq> U_FRMR"
  "U_SARME \<noteq> U_DISC" "U_SARME \<noteq> U_DM" "U_SARME \<noteq> U_FRMR" "U_SABME \<noteq> U_FRMR"
  by (simp_all add: hdlc_u_defs)

text \<open>Every control octet is exactly one of the three kinds.\<close>

lemma low_bits:
  fixes x :: u8
  shows "bit (x AND 1) n \<longleftrightarrow> bit x n \<and> n = 0" "bit (x AND 3) n \<longleftrightarrow> bit x n \<and> (n = 0 \<or> n = 1)"
    "bit (3 :: u8) n \<longleftrightarrow> n = 0 \<or> n = 1"
proof -
  have three: "(3 :: u8) = mask 2" and one: "(1 :: u8) = mask 1"
    by (simp_all add: mask_eq_exp_minus_1)
  have 2: "n < 2 \<longleftrightarrow> n = 0 \<or> n = 1" by auto
  show "bit (x AND 1) n \<longleftrightarrow> bit x n \<and> n = 0"
    unfolding one bit_and_iff bit_mask_iff using bit_octet [of x n] by auto
  show "bit (x AND 3) n \<longleftrightarrow> bit x n \<and> (n = 0 \<or> n = 1)"
    unfolding three bit_and_iff bit_mask_iff 2 using bit_octet [of x n] by auto
  show "bit (3 :: u8) n \<longleftrightarrow> n = 0 \<or> n = 1"
    unfolding three bit_mask_iff 2 by auto
qed

lemma frame_kinds:
  "is_uframe ctrl \<longleftrightarrow> bit ctrl 0 \<and> bit ctrl 1" "is_sframe ctrl \<longleftrightarrow> bit ctrl 0 \<and> \<not> bit ctrl 1"
  "is_iframe ctrl \<longleftrightarrow> \<not> bit ctrl 0"
proof -
  have ext: "x = y \<longleftrightarrow> (\<forall>n. bit x n = bit y n)" for x y :: u8
    by (auto intro: bit_word_eqI)
  show "is_uframe ctrl \<longleftrightarrow> bit ctrl 0 \<and> bit ctrl 1"
    unfolding is_uframe_def ext low_bits by blast
  show "is_iframe ctrl \<longleftrightarrow> \<not> bit ctrl 0"
  proof
    assume "is_iframe ctrl"
    then have "\<not> bit (ctrl AND 1) 0" by (simp only: is_iframe_def) simp
    then show "\<not> bit ctrl 0" using low_bits(1) [of ctrl 0] by blast
  next
    assume "\<not> bit ctrl 0"
    then have "bit (ctrl AND 1) n = bit (0 :: u8) n" for n
      unfolding low_bits by (cases n) simp_all
    then show "is_iframe ctrl"
      unfolding is_iframe_def by (intro bit_word_eqI)
  qed
  show "is_sframe ctrl \<longleftrightarrow> bit ctrl 0 \<and> \<not> bit ctrl 1"
  proof
    assume "is_sframe ctrl"
    then have "bit (ctrl AND 3) n = bit (1 :: u8) n" for n by (simp only: is_sframe_def)
    then show "bit ctrl 0 \<and> \<not> bit ctrl 1"
      unfolding low_bits bit_1_iff by (metis zero_neq_one)
  next
    assume "bit ctrl 0 \<and> \<not> bit ctrl 1"
    then have "bit (ctrl AND 3) n = bit (1 :: u8) n" for n
      unfolding low_bits bit_1_iff by auto
    then show "is_sframe ctrl"
      unfolding is_sframe_def by (intro bit_word_eqI)
  qed
qed

lemma not_uframe: "\<not> is_uframe ctrl \<longleftrightarrow> is_iframe ctrl \<or> is_sframe ctrl"
  by (auto simp: frame_kinds)

lemma handle_iframe_state:
  assumes "core c" "current_state c = ATC_HDLC_STATE_CONNECTED"
  shows "runs (handle_iframe c ctrl info n) (\<lambda>c'. current_state c' =
    (if acceptable c (CTRL_NR ctrl) then ATC_HDLC_STATE_CONNECTED else ATC_HDLC_STATE_FRMR_ERROR))"
  using assms
  by (simp add: handle_iframe_def Let_def validate_nr_run CTRL_NR_less process_nr_run hdlc_run send_frmr_def
      handle_in_sequence_iframe_def handle_out_of_sequence_iframe_def)

text \<open>The stages of \<open>handle_sframe\<close> after the busy bookkeeping.\<close>

definition sframe_answer :: "atc_hdlc_ctx_t \<Rightarrow> u8 \<Rightarrow> u8 \<Rightarrow> atc_hdlc_ctx_t option" where
  "sframe_answer c addr ctrl = (if is_cmd c addr \<and> CTRL_PF ctrl \<noteq> 0
     then do { c \<leftarrow> send_rr_resp c 1; t2_stop c } else Some c)"

definition sframe_body :: "atc_hdlc_ctx_t \<Rightarrow> u8 \<Rightarrow> atc_hdlc_ctx_t option" where
  "sframe_body c ctrl = (if CTRL_S ctrl = S_REJ
     then do { c \<leftarrow> frames_acked c (CTRL_NR ctrl); c \<leftarrow> t1_stop c;
               Some (if va c \<noteq> vs c then trigger_retransmit c (CTRL_NR ctrl) else c) }
     else process_nr c (CTRL_NR ctrl))"

definition sframe_final :: "atc_hdlc_ctx_t \<Rightarrow> u8 \<Rightarrow> u8 \<Rightarrow> atc_hdlc_ctx_t" where
  "sframe_final c addr ctrl = (if \<not> is_cmd c addr \<and> CTRL_PF ctrl \<noteq> 0 \<and> va c \<noteq> vs c
     then trigger_retransmit c (va c) else c)"

text \<open>What an S-frame never touches.\<close>

definition s_same :: "atc_hdlc_ctx_t \<Rightarrow> atc_hdlc_ctx_t \<Rightarrow> bool" where
  "s_same c d \<longleftrightarrow> core d \<and> vr d = vr c \<and> vs d = vs c \<and> my_address d = my_address c \<and> drv d = drv c
     \<and> plat d = plat c \<and> tx_window d = tx_window c \<and> tx_next_slot d = tx_next_slot c"

lemma sframe_busy_same:
  "core c \<Longrightarrow> runs (sframe_busy c s) (\<lambda>d. s_same c d \<and> va d = va c \<and> current_state d = current_state c
     \<and> pending d = pending c \<and> CTX_FLAG d HDLC_F_T1_ACTIVE = CTX_FLAG c HDLC_F_T1_ACTIVE)"
  by (simp add: sframe_busy_def Let_def hdlc_run s_same_def)

lemma sframe_answer_same:
  "core c \<Longrightarrow> runs (sframe_answer c addr ctrl) (\<lambda>d. s_same c d \<and> va d = va c \<and> current_state d = current_state c
     \<and> pending d = pending c \<and> CTX_FLAG d HDLC_F_T1_ACTIVE = CTX_FLAG c HDLC_F_T1_ACTIVE)"
  by (simp add: sframe_answer_def Let_def hdlc_run s_same_def)

lemma s_same_trans: "s_same a b \<Longrightarrow> s_same b c \<Longrightarrow> s_same a c"
  by (simp add: s_same_def)

text \<open>A station with frames to be acknowledged has T1 running, or is about to retransmit.\<close>

definition t1_live :: "atc_hdlc_ctx_t \<Rightarrow> bool" where
  "t1_live c \<longleftrightarrow> (current_state c = ATC_HDLC_STATE_CONNECTED \<and> va c \<noteq> vs c \<longrightarrow>
     CTX_FLAG c HDLC_F_T1_ACTIVE \<or> pending c)"

lemma t1_live_cong:
  "current_state d = current_state c \<Longrightarrow> va d = va c \<Longrightarrow> vs d = vs c \<Longrightarrow> pending d = pending c \<Longrightarrow>
   CTX_FLAG d HDLC_F_T1_ACTIVE = CTX_FLAG c HDLC_F_T1_ACTIVE \<Longrightarrow> t1_live d = t1_live c"
  by (simp add: t1_live_def)

lemma t1_live_processed: "t1_live c \<Longrightarrow> t1_live (processed c nr)"
  by (auto simp: t1_live_def processed_def)

lemma core_processed: "core c \<Longrightarrow> acceptable c nr \<Longrightarrow> core (processed c nr)"
  using process_nr_post [of c nr] process_nr_run [of c nr] by (simp add: frame_post_def)

lemma core_acked: "core c \<Longrightarrow> acceptable c nr \<Longrightarrow> core (acked_fields c nr)"
  using frames_acked_post [of c nr] frames_acked_run [of c nr] by (simp add: frame_post_def)

lemma trigger_live: "core c \<Longrightarrow> vs c \<noteq> n \<Longrightarrow> va c \<noteq> vs c \<Longrightarrow> pending (trigger_retransmit c n)"
  using no_window_idle [of c] by (auto simp: trigger_retransmit_def)

lemma trigger_same [simp]:
  "my_address (trigger_retransmit c n) = my_address c" "drv (trigger_retransmit c n) = drv c"
  "plat (trigger_retransmit c n) = plat c" "tx_next_slot (trigger_retransmit c n) = tx_next_slot c"
  "trace (trigger_retransmit c n) = trace c"
  by (simp_all add: trigger_retransmit_def)

lemma sframe_body_same:
  assumes "core c" "acceptable c (CTRL_NR ctrl)" "current_state c = ATC_HDLC_STATE_CONNECTED"
  shows "runs (sframe_body c ctrl) (\<lambda>d. s_same c d \<and> va d = CTRL_NR ctrl \<and> current_state d = current_state c
     \<and> (t1_live c \<longrightarrow> t1_live d))"
proof (cases "CTRL_S ctrl = S_REJ")
  case True
  let ?nr = "CTRL_NR ctrl"
  let ?d = "say (CTX_CLR (acked_fields c ?nr) HDLC_F_T1_ACTIVE) (acked_calls c ?nr @ t1_stop_calls c)"
  have d: "core ?d" using core_acked [OF assms(1,2)] by simp
  have run: "sframe_body c ctrl = Some (if ?nr \<noteq> vs c then trigger_retransmit ?d ?nr else ?d)"
    using True assms by (simp add: sframe_body_def frames_acked_run hdlc_run)
  have "core (trigger_retransmit ?d ?nr)"
    using d assms(3) by (intro core_trigger core_win_good) simp_all
  moreover have "pending (trigger_retransmit ?d ?nr)" if "?nr \<noteq> vs c"
    using that by (intro trigger_live [OF d]) auto
  ultimately show ?thesis
    using d by (auto simp: run s_same_def t1_live_def)
next
  case False
  then show ?thesis
    using assms by (simp add: sframe_body_def process_nr_run s_same_def core_processed t1_live_processed)
qed

lemma sframe_final_same:
  assumes "core c" "current_state c = ATC_HDLC_STATE_CONNECTED"
  shows "s_same c (sframe_final c addr ctrl)" "va (sframe_final c addr ctrl) = va c"
    "current_state (sframe_final c addr ctrl) = current_state c" "t1_live c \<Longrightarrow> t1_live (sframe_final c addr ctrl)"
proof -
  have "core (trigger_retransmit c (va c))"
    using assms by (intro core_trigger core_win_good)
  with assms(1) show "s_same c (sframe_final c addr ctrl)"
    by (simp add: sframe_final_def s_same_def)
  show "va (sframe_final c addr ctrl) = va c" "current_state (sframe_final c addr ctrl) = current_state c"
    by (simp_all add: sframe_final_def)
  show "t1_live c \<Longrightarrow> t1_live (sframe_final c addr ctrl)"
    by (auto simp: sframe_final_def t1_live_def trigger_retransmit_def)
qed

lemma handle_sframe_stages:
  "handle_sframe c addr ctrl = do {
     d \<leftarrow> sframe_busy c (CTRL_S ctrl);
     d \<leftarrow> (if is_cmd c addr \<and> CTRL_PF ctrl \<noteq> 0 then do { d \<leftarrow> send_rr_resp d 1; t2_stop d } else Some d);
     (d, ok) \<leftarrow> validate_nr d ctrl (CTRL_NR ctrl);
     if \<not> ok then Some d
     else do { e \<leftarrow> sframe_body d ctrl;
       Some (if \<not> is_cmd c addr \<and> CTRL_PF ctrl \<noteq> 0 \<and> va e \<noteq> vs e then trigger_retransmit e (va e) else e) } }"
  unfolding handle_sframe_def sframe_body_def Let_def ..

text \<open>What an S-frame does to the connection.\<close>

lemma handle_sframe_effect:
  assumes "core c" "current_state c = ATC_HDLC_STATE_CONNECTED"
  shows "runs (handle_sframe c addr ctrl) (\<lambda>d. vr d = vr c \<and> vs d = vs c
     \<and> (if acceptable c (CTRL_NR ctrl) then current_state d = ATC_HDLC_STATE_CONNECTED \<and> va d = CTRL_NR ctrl
          \<and> (t1_live c \<longrightarrow> t1_live d)
        else current_state d = ATC_HDLC_STATE_FRMR_ERROR \<and> va d = va c))"
proof -
  obtain c1 where c1: "sframe_busy c (CTRL_S ctrl) = Some c1" "s_same c c1" "va c1 = va c"
      "current_state c1 = current_state c" "pending c1 = pending c"
      "CTX_FLAG c1 HDLC_F_T1_ACTIVE = CTX_FLAG c HDLC_F_T1_ACTIVE"
    using runs_Some_exists [OF sframe_busy_same [OF assms(1)]] by blast
  then have core1: "core c1" and cmd: "is_cmd c1 addr = is_cmd c addr"
    by (simp_all add: s_same_def is_cmd_def)
  obtain c2 where c2: "sframe_answer c1 addr ctrl = Some c2" "s_same c1 c2" "va c2 = va c1"
      "current_state c2 = current_state c1" "pending c2 = pending c1"
      "CTX_FLAG c2 HDLC_F_T1_ACTIVE = CTX_FLAG c1 HDLC_F_T1_ACTIVE"
    using runs_Some_exists [OF sframe_answer_same [OF core1]] by blast
  then have core2: "core c2" and same: "s_same c c2" "is_cmd c2 addr = is_cmd c addr"
    using c1 s_same_trans [of c c1 c2] cmd by (simp_all add: s_same_def is_cmd_def)
  then have acc: "acceptable c2 (CTRL_NR ctrl) = acceptable c (CTRL_NR ctrl)"
    using c1 c2 by (intro acceptable_cong) (simp_all add: s_same_def)
  have t1: "t1_live c2 = t1_live c"
    using c1 c2 same by (intro t1_live_cong) (simp_all add: s_same_def)
  have unfold: "handle_sframe c addr ctrl = do { (d, ok) \<leftarrow> validate_nr c2 ctrl (CTRL_NR ctrl);
     if \<not> ok then Some d else do { e \<leftarrow> sframe_body d ctrl;
       Some (if \<not> is_cmd c addr \<and> CTRL_PF ctrl \<noteq> 0 \<and> va e \<noteq> vs e then trigger_retransmit e (va e) else e) } }"
    using c1(1) c2(1) cmd by (simp add: handle_sframe_stages sframe_answer_def)
  show ?thesis
  proof (cases "acceptable c (CTRL_NR ctrl)")
    case True
    have st2: "current_state c2 = ATC_HDLC_STATE_CONNECTED" using c1 c2 assms(2) by simp
    obtain e where e: "sframe_body c2 ctrl = Some e" "s_same c2 e" "va e = CTRL_NR ctrl"
        "current_state e = ATC_HDLC_STATE_CONNECTED" "t1_live c2 \<longrightarrow> t1_live e"
      using runs_Some_exists [OF sframe_body_same [OF core2 _ st2]] True acc st2 by auto
    then have "core e" "my_address e = my_address c" using same by (simp_all add: s_same_def)
    note f = sframe_final_same [OF this(1) e(4), of addr ctrl]
    have "handle_sframe c addr ctrl = Some (sframe_final e addr ctrl)"
      using unfold True acc core2 e(1) \<open>my_address e = my_address c\<close>
      by (simp add: validate_nr_run CTRL_NR_less sframe_final_def is_cmd_def)
    with f e t1 True same show ?thesis by (simp add: s_same_def)
  next
    case False
    with unfold acc core2 c1 c2 same assms(2) show ?thesis
      by (simp add: validate_nr_run CTRL_NR_less send_frmr_def hdlc_run s_same_def)
  qed
qed
lemma handle_iframe_effect:
  assumes "core c" "current_state c = ATC_HDLC_STATE_CONNECTED"
  shows "runs (handle_iframe c ctrl info n) (\<lambda>d. vs d = vs c
     \<and> (if acceptable c (CTRL_NR ctrl) then current_state d = ATC_HDLC_STATE_CONNECTED \<and> va d = CTRL_NR ctrl
          \<and> (t1_live c \<longrightarrow> t1_live d)
        else current_state d = ATC_HDLC_STATE_FRMR_ERROR \<and> va d = va c))"
proof (cases "acceptable c (CTRL_NR ctrl)")
  case True
  let ?d = "processed c (CTRL_NR ctrl)"
  have live: "t1_live (CTX_CLR ?d HDLC_F_T2_ACTIVE) = t1_live ?d" for d
    by (rule t1_live_cong) simp_all
  from True assms show ?thesis
    using t1_live_processed [of c "CTRL_NR ctrl"]
    by (simp add: handle_iframe_def Let_def validate_nr_run CTRL_NR_less process_nr_run hdlc_run
        handle_in_sequence_iframe_def handle_out_of_sequence_iframe_def t1_live_def)
next
  case False
  with assms show ?thesis
    by (simp add: handle_iframe_def Let_def validate_nr_run CTRL_NR_less hdlc_run send_frmr_def)
qed

lemma not_uframe_U:
  "is_uframe ctrl \<Longrightarrow> \<not> is_iframe ctrl" "is_uframe ctrl \<Longrightarrow> \<not> is_sframe ctrl" "is_iframe ctrl \<Longrightarrow> \<not> is_sframe ctrl"
  by (auto simp: frame_kinds)

lemma handle_uframe_effect:
  assumes "core c" "info_ok info n" "current_state c = ATC_HDLC_STATE_CONNECTED" "is_uframe ctrl"
  shows "runs (handle_uframe c addr ctrl info n) (\<lambda>d. current_state d = next_state ATC_HDLC_STATE_CONNECTED ctrl ok
     \<and> (t1_live c \<longrightarrow> t1_live d))"
proof -
  obtain xs where "frame_send c (my_address c) (U_CTRL U_TEST (CTRL_PF ctrl)) info (ucast n) =
     Some (say (c\<lparr>tx_crc := driver_fcs (drv c) (my_address c # U_CTRL U_TEST (CTRL_PF ctrl) # xs)\<rparr>)
       (frame_calls (drv c) (my_address c) (U_CTRL U_TEST (CTRL_PF ctrl)) xs))"
    using frame_send_info_run [OF core_ready [OF assms(1)] assms(2)] by blast
  with assms show ?thesis
    by (auto simp: handle_uframe_def hdlc_run Let_def send_frmr_def next_state_def t1_live_def)
qed

lemma dispatch_effect:
  assumes "core c" "info_ok info n"
  shows "runs (dispatch_frame c addr ctrl info n) (\<lambda>d.
     current_state d = next_state (current_state c) ctrl (acceptable c (CTRL_NR ctrl)) \<and> (t1_live c \<longrightarrow> t1_live d))"
proof (cases "current_state c")
  case ATC_HDLC_STATE_CONNECTED
  consider "is_iframe ctrl" | "is_sframe ctrl" | "is_uframe ctrl" using not_uframe by blast
  then show ?thesis
  proof cases
    case 1
    then have "\<not> is_uframe ctrl" using not_uframe by blast
    with handle_iframe_effect [OF assms(1) ATC_HDLC_STATE_CONNECTED, of ctrl info n] 1 ATC_HDLC_STATE_CONNECTED
    show ?thesis
      by (auto simp: dispatch_frame_def state_connected_def next_state_def Let_def t1_live_def
          elim!: runs_mono split: if_splits)
  next
    case 2
    then have "\<not> is_uframe ctrl" "\<not> is_iframe ctrl" using not_uframe not_uframe_U by blast+
    with handle_sframe_effect [OF assms(1) ATC_HDLC_STATE_CONNECTED, of addr ctrl] 2 ATC_HDLC_STATE_CONNECTED
    show ?thesis
      by (auto simp: dispatch_frame_def state_connected_def next_state_def Let_def t1_live_def
          elim!: runs_mono split: if_splits)
  next
    case 3
    with handle_uframe_effect [OF assms ATC_HDLC_STATE_CONNECTED 3, of addr] not_uframe_U [of ctrl] ATC_HDLC_STATE_CONNECTED
    show ?thesis by (simp add: dispatch_frame_def state_connected_def)
  qed
next
  case ATC_HDLC_STATE_DISCONNECTED
  with assms show ?thesis
    by (simp add: dispatch_frame_def state_disconnected_def next_state_def Let_def hdlc_run t1_live_def)
next
  case ATC_HDLC_STATE_CONNECTING
  with assms show ?thesis
    by (simp add: dispatch_frame_def state_connecting_def next_state_def Let_def hdlc_run t1_live_def core_lens_fit)
next
  case ATC_HDLC_STATE_DISCONNECTING
  with assms show ?thesis
    by (simp add: dispatch_frame_def state_disconnecting_def next_state_def Let_def hdlc_run t1_live_def)
next
  case ATC_HDLC_STATE_FRMR_ERROR
  with assms show ?thesis
    by (simp add: dispatch_frame_def state_frmr_error_def next_state_def Let_def hdlc_run t1_live_def)
qed
section \<open>T1 is running while frames are outstanding\<close>

lemma rx_byte_t1:
  assumes "rx_inv c" "t1_live c"
  shows "runs (rx_byte c b) t1_live"
proof (cases "frame_held c \<and> b = FLAG")
  case True
  have core: "core c" using assms(1) by simp
  have "runs (dispatch_frame c a t (info_ptr c) (info_size c)) t1_live" for a t
    by (rule runs_mono [OF dispatch_effect])
      (use True core assms(2) info_ok_held in \<open>simp_all add: frame_held_def\<close>)
  then have "runs (dispatch_frame c a t (info_ptr c) (info_size c)) (\<lambda>d. t1_live (rx_reset RX_ADDR d))" for a t
    by (rule runs_mono) (simp add: t1_live_def rx_reset_def)
  with True core show ?thesis by (simp add: rx_byte_def handle_flag_run)
next
  case False
  show ?thesis
  proof (cases "b = FLAG")
    case True
    with False assms show ?thesis
      by (simp add: rx_byte_def handle_flag_run t1_live_def rx_reset_def)
  next
    case flag: False
    have "t1_live d" if "rx_frame c d" for d
      using assms(2) rx_frame_fields [OF that] by (simp add: t1_live_def CTX_FLAG_def)
    then show ?thesis
      using runs_mono [OF rx_byte_quiet [OF rx_inv_core [OF assms(1)] flag]] by blast
  qed
qed

lemma rx_octets_t1: "rx_inv c \<Longrightarrow> t1_live c \<Longrightarrow> runs (rx_octets c xs) t1_live"
proof (induction xs arbitrary: c)
  case (Cons b xs)
  have "runs (rx_byte c b) (\<lambda>d. rx_inv d \<and> t1_live d)"
    using rx_byte_inv rx_byte_t1 Cons.prems by (intro runs_conj)
  then have "runs (rx_byte c b) (\<lambda>d. runs (rx_octets d xs) t1_live)"
    by (rule runs_mono) (use Cons.IH in blast)
  then show ?case by simp
qed simp

lemma data_in_t1:
  assumes "live c" "t1_live c" "unat len \<le> length xs" "chunk_ok c (take (unat len) xs)"
  shows "runs (atc_hdlc_data_in c (Some xs) len) t1_live"
proof -
  have "runs (rx_octets c (take (unat len) xs)) (\<lambda>d. retx_safe d \<and> t1_live d)"
    using assms chunk_safe rx_octets_t1 by (intro runs_conj) (simp_all add: live_def)
  then have "runs (rx_octets c (take (unat len) xs))
      (\<lambda>d. runs (if pending d then retransmit_outstanding d else Some d) t1_live)"
  proof (rule runs_mono)
    fix d assume d: "retx_safe d \<and> t1_live d"
    then have "runs (retransmit_outstanding d) t1_live" if "pending d"
      using that by (intro runs_mono [OF retransmit_outstanding_post]) (auto simp: retx_safe_def t1_live_def)
    with d show "runs (if pending d then retransmit_outstanding d else Some d) t1_live" by simp
  qed
  then show ?thesis unfolding data_in_run [OF assms(3)] runs_bind .
qed

lemma hdlc_do_t1:
  assumes "live c" "t1_live c" "legal c call"
  shows "runs (hdlc_do c call) (\<lambda>(d, r). t1_live d)"
proof -
  have c: "core c" "\<not> pending c" using assms(1) by (simp_all add: live_def settled_def)
  show ?thesis
  proof (cases call)
    case (Data_in data len)
    with assms show ?thesis
      by (cases data) (simp_all add: runs_void data_in_t1, simp add: atc_hdlc_data_in_def)
  next
    case (Transmit_i data len)
    have "t1_live (sent_ctx c p n)" if "tx_error c n = None" for p n
      using assms(2) c that
      by (auto simp: sent_ctx_def t1_live_def sent_fields_def split: option.splits)
    with Transmit_i assms(3) c assms(2) show ?thesis
      by (simp add: runs_result transmit_i_spec split: option.split)
  next
    case (Transmit_ui addr data len)
    with assms c show ?thesis
      by (simp add: runs_result transmit_u_spec split: option.split) (simp add: t1_live_def)
  next
    case (Transmit_test addr data len)
    with assms c show ?thesis
      by (simp add: runs_result transmit_u_spec split: option.split) (simp add: t1_live_def)
  next
    case (Transmit_ui_data data len)
    with assms c show ?thesis
      by (cases "readable data len")
        (auto simp: runs_void atc_hdlc_transmit_ui_data_def emit_loop_payload readable_def word_greater_zero_iff t1_live_def)
  next
    case T1_expired
    with assms c show ?thesis
    proof -
      let ?d = "CTX_CLR c HDLC_F_T1_ACTIVE\<lparr>n2 := n2 c + 1\<rparr>"
      have "core (?d\<lparr>current_state := ATC_HDLC_STATE_DISCONNECTED\<rparr>)"
        using c(1) by (intro core_state) simp_all
      with T1_expired c show ?thesis
        by (cases "current_state c") (simp_all add: runs_void atc_hdlc_t1_expired_def Let_def hdlc_run t1_live_def)
    qed
  qed (use assms(2) c in \<open>simp_all add: runs_void runs_result Let_def hdlc_run t1_live_def callback_if_say
      atc_hdlc_transmit_ui_start_def atc_hdlc_transmit_ui_end_def atc_hdlc_link_setup_def atc_hdlc_disconnect_def
      atc_hdlc_link_reset_def atc_hdlc_set_local_busy_def atc_hdlc_t2_expired_def atc_hdlc_abort_def\<close>)
qed

lemma reachable_t1: "reachable c \<Longrightarrow> t1_live c"
proof (induction rule: reachable.induct)
  case (reach_init p c c')
  then show ?case
    by (auto simp: atc_hdlc_init_def Let_def txwin_error_fails zero_ctx_def t1_live_def split: option.splits if_splits)
next
  case (reach_call c call c' r)
  then show ?case using hdlc_do_t1 [of c call] reachable_live [of c] by simp
qed (simp add: t1_live_def)

end
