(* ===== verification/Hdlc_Protocol.thy ===== *)
theory Hdlc_Protocol
  imports Hdlc_Link
begin

text \<open>
  The properties of the frame handlers and timers. The first section has the connected station
  the witnesses use.
\<close>

section \<open>A connected station\<close>

text \<open>The template's station after \<open>atc_hdlc_link_setup\<close> to \<open>0x02\<close> and the peer's UA.\<close>

definition bm_opening :: atc_hdlc_ctx_t where
  "bm_opening = (case atc_hdlc_link_setup bm_ctx0 0x02 of Some (c, _) \<Rightarrow> c | None \<Rightarrow> bm_ctx0)"

definition ua_octets :: "u8 list" where
  "ua_octets = [0x7E, 0x02, 0x73, 0x14, 0x82, 0x7E]"

definition bm_up :: atc_hdlc_ctx_t where
  "bm_up = (case atc_hdlc_data_in bm_opening (Some ua_octets) 6 of Some c \<Rightarrow> c | None \<Rightarrow> bm_ctx0)"

lemmas fcs_eval = soft_fcs ATC_HDLC_FCS_INIT_VALUE_def atc_hdlc_crc_ccitt_update_def fcstab_def fcs_field_def

lemma ua_octets_frame: "ua_octets = frame_octets atc_hdlc_crc_ops_default 0x02 0x73 []"
  by (simp add: ua_octets_def frame_octets_def frame_body_def escape_def fcs_eval FLAG_def ESC_def)

lemma bm_opening_run:
  "atc_hdlc_link_setup bm_ctx0 0x02 = Some (bm_opening, ATC_HDLC_OK)"
  "current_state bm_opening = ATC_HDLC_STATE_CONNECTING" "rx_inv bm_opening" "idle_rx bm_opening"
  "rx_capacity bm_opening = 72" "peer_address bm_opening = 0x02" "my_address bm_opening = 0x01"
  "drv bm_opening = atc_hdlc_crc_ops_default" "reachable bm_opening"
  "tx_window bm_opening = Some bm_tx_win" "plat bm_opening = bm_platform" "config bm_opening = Some bm_cfg"
  "n2 bm_opening = 0"
proof -
  have su: "atc_hdlc_link_setup bm_ctx0 0x02 = Some (say (CTX_SET
     (bm_ctx0\<lparr>peer_address := 0x02, tx_crc := driver_fcs (drv bm_ctx0) [0x02, U_CTRL U_SABM 1]\<rparr>)
     HDLC_F_T1_ACTIVE\<lparr>current_state := ATC_HDLC_STATE_CONNECTING\<rparr>)
     (frame_calls (drv bm_ctx0) 0x02 (U_CTRL U_SABM 1) [] @ t1_start_calls bm_ctx0
        @ event_calls bm_ctx0 ATC_HDLC_EVENT_SETUP_REQ), ATC_HDLC_OK)"
    using bm_ready bm_rx(8) by (simp add: atc_hdlc_link_setup_def Let_def hdlc_run)
  show run: "atc_hdlc_link_setup bm_ctx0 0x02 = Some (bm_opening, ATC_HDLC_OK)"
    using su by (simp add: bm_opening_def)
  have "hdlc_do bm_ctx0 (Link_setup 0x02) = Some (bm_opening, Result ATC_HDLC_OK)"
    using run by simp
  then show r: "reachable bm_opening" using reach_call [OF bm_reachable _ \<open>hdlc_do bm_ctx0 _ = _\<close>] by simp
  then show "rx_inv bm_opening" using reachable_live by (simp add: live_def)
  have c: "bm_opening = say (CTX_SET
     (bm_ctx0\<lparr>peer_address := 0x02, tx_crc := driver_fcs (drv bm_ctx0) [0x02, U_CTRL U_SABM 1]\<rparr>)
     HDLC_F_T1_ACTIVE\<lparr>current_state := ATC_HDLC_STATE_CONNECTING\<rparr>)
     (frame_calls (drv bm_ctx0) 0x02 (U_CTRL U_SABM 1) [] @ t1_start_calls bm_ctx0
        @ event_calls bm_ctx0 ATC_HDLC_EVENT_SETUP_REQ)"
    using su by (simp add: bm_opening_def)
  have fields: "tx_window bm_ctx0 = Some bm_tx_win" "config bm_ctx0 = Some bm_cfg" "n2 bm_ctx0 = 0"
    by (simp_all add: bm_ctx0_def atc_hdlc_init_def bm_storage_defs is_null_def txwin_error_def Let_def
        hdlc_len_defs zero_ctx_def)
  show "current_state bm_opening = ATC_HDLC_STATE_CONNECTING" "idle_rx bm_opening"
    "rx_capacity bm_opening = 72" "peer_address bm_opening = 0x02" "my_address bm_opening = 0x01"
    "drv bm_opening = atc_hdlc_crc_ops_default" "tx_window bm_opening = Some bm_tx_win"
    "plat bm_opening = bm_platform" "config bm_opening = Some bm_cfg" "n2 bm_opening = 0"
    using bm_rx fields unfolding c by (simp_all add: idle_rx_def view_def rx_capacity_def)
qed

lemma ua_control: "is_uframe 0x73" "(0x73 :: u8) AND NOT PF_BIT = U_UA" "CTRL_PF 0x73 = 1"
  by (simp_all add: is_uframe_def PF_BIT_def U_UA_def CTRL_PF_def)

lemma lens_fit_say [simp]: "lens_fit (say c xs) = lens_fit c"
  by (simp add: lens_fit_def)

lemma reset_fields_calls [simp]:
  "event_calls (reset_fields c) ev = event_calls c ev" "data_calls (reset_fields c) info n = data_calls c info n"
  "t1_start_calls (reset_fields c) = t1_start_calls c" "t2_start_calls (reset_fields c) = t2_start_calls c"
  "t1_stop_calls (reset_fields c) = []" "t2_stop_calls (reset_fields c) = []"
  by (simp_all add: reset_fields_def) (simp_all add: call_defs)

lemma ua_connects:
  assumes "core c" "current_state c = ATC_HDLC_STATE_CONNECTING"
  shows "dispatch_frame c addr 0x73 info n = Some (say (reset_fields (CTX_CLR c HDLC_F_T1_ACTIVE)
     \<lparr>current_state := ATC_HDLC_STATE_CONNECTED\<rparr>) (t1_stop_calls c @ t2_stop_calls c
       @ event_calls c ATC_HDLC_EVENT_CONN_ACCEPTED))"
proof -
  have "lens_fit (CTX_CLR c HDLC_F_T1_ACTIVE)" using assms(1) core_lens_fit [of "CTX_CLR c HDLC_F_T1_ACTIVE"] by simp
  moreover have "ready c" using assms(1) by (rule core_ready)
  ultimately have "(t1_stop c \<bind> (\<lambda>c. reset_state c \<bind> (\<lambda>c. set_state c ATC_HDLC_STATE_CONNECTED ATC_HDLC_EVENT_CONN_ACCEPTED)))
    = Some (say (reset_fields (CTX_CLR c HDLC_F_T1_ACTIVE)\<lparr>current_state := ATC_HDLC_STATE_CONNECTED\<rparr>)
     (t1_stop_calls c @ t1_stop_calls (CTX_CLR c HDLC_F_T1_ACTIVE) @ t2_stop_calls c @ event_calls c ATC_HDLC_EVENT_CONN_ACCEPTED))"
    using assms(2) by (simp add: hdlc_run)
  moreover have "t1_stop_calls (CTX_CLR c HDLC_F_T1_ACTIVE) = []" by (simp add: t1_stop_calls_def)
  ultimately show ?thesis
    using assms(2) by (simp add: dispatch_frame_def state_connecting_def Let_def ua_control)
qed

lemma bm_up_run:
  "atc_hdlc_data_in bm_opening (Some ua_octets) 6 = Some bm_up" "reachable bm_up"
  "current_state bm_up = ATC_HDLC_STATE_CONNECTED" "vs bm_up = 0" "vr bm_up = 0" "va bm_up = 0"
  "tx_next_slot bm_up = 0" "idle_rx bm_up" "tx_window bm_up = Some bm_tx_win" "n2 bm_up = 0"
  "peer_address bm_up = 0x02" "my_address bm_up = 0x01" "plat bm_up = bm_platform" "config bm_up = Some bm_cfg"
  "\<not> CTX_FLAG bm_up HDLC_F_REMOTE_BUSY" "\<not> CTX_FLAG bm_up HDLC_F_LOCAL_BUSY"
  "\<not> CTX_FLAG bm_up HDLC_F_REJ_EXCEPTION" "\<not> CTX_FLAG bm_up HDLC_F_T2_ACTIVE"
  "drv bm_up = atc_hdlc_crc_ops_default" "rx_capacity bm_up = 72"
proof -
  obtain c0 where c0: "rx_to bm_opening (Gather (frame_body (drv bm_opening) 0x02 0x73 []) False) c0"
    "rx_octets bm_opening ua_octets = map_option (rx_reset RX_ADDR) (dispatch_frame c0 0x02 0x73 None 0)"
    using rx_frame_octets [OF bm_opening_run(3,4), of "[]" "0x02" "0x73"] bm_opening_run
    by (auto simp: our_address_def ua_octets_frame)
  note f = rx_frame_fields [OF rx_to_fields(2) [OF c0(1)]]
  have core: "core c0" using rx_to_fields(1) [OF c0(1)] by simp
  have st: "current_state c0 = ATC_HDLC_STATE_CONNECTING" using f bm_opening_run by simp
  have win: "zero_lens bm_tx_win = bm_tx_win"
    by (simp add: zero_lens_def bm_tx_win_def WINDOW_SIZE_def)
  have "dispatch_frame c0 0x02 0x73 None 0 = Some (say (reset_fields (CTX_CLR c0 HDLC_F_T1_ACTIVE)
     \<lparr>current_state := ATC_HDLC_STATE_CONNECTED\<rparr>) (t1_stop_calls c0 @ t2_stop_calls c0
       @ event_calls c0 ATC_HDLC_EVENT_CONN_ACCEPTED))"
    using core st ua_connects by simp
  then have e: "rx_octets bm_opening ua_octets = Some (rx_reset RX_ADDR (say (reset_fields (CTX_CLR c0 HDLC_F_T1_ACTIVE)
     \<lparr>current_state := ATC_HDLC_STATE_CONNECTED\<rparr>) (t1_stop_calls c0 @ t2_stop_calls c0
       @ event_calls c0 ATC_HDLC_EVENT_CONN_ACCEPTED)))" (is "_ = Some ?e")
    using c0(2) by simp
  have fl: "CTX_FLAG c0 g = CTX_FLAG bm_opening g" for g using f by (simp add: CTX_FLAG_def)
  have "settled bm_opening" using bm_opening_run(9) by (rule reachable_settled)
  then have np: "\<not> pending ?e" using fl by (simp add: settled_def rx_reset_def)
  have up: "bm_up = ?e" "atc_hdlc_data_in bm_opening (Some ua_octets) 6 = Some bm_up"
    using e np by (simp_all add: bm_up_def data_in_run ua_octets_def)
  have "chunk_ok bm_opening (take (unat (6::u32)) ua_octets)"
    using bm_opening_run(10) by (simp add: chunk_ok_def any_retx_ok_def bm_tx_win_def WINDOW_SIZE_def)
  then have "hdlc_do bm_opening (Data_in (Some ua_octets) 6) = Some (bm_up, Void)"
      "legal bm_opening (Data_in (Some ua_octets) 6)"
    using up(2) by (simp_all add: ua_octets_def)
  then show "reachable bm_up" using reach_call [OF bm_opening_run(9)] by blast
  show "atc_hdlc_data_in bm_opening (Some ua_octets) 6 = Some bm_up" by (rule up(2))
  have "idle_rx ?e" by (simp add: idle_rx_def)
  then show "idle_rx bm_up" by (simp only: up(1))
  have pd: "plat c0 = plat bm_opening" "drv c0 = drv bm_opening"
    by (simp_all only: plat_def drv_def f)
  have w: "tx_window c0 = Some bm_tx_win" "plat c0 = bm_platform" "config c0 = Some bm_cfg"
      "drv c0 = atc_hdlc_crc_ops_default"
    by (simp_all only: pd f bm_opening_run)
  show "current_state bm_up = ATC_HDLC_STATE_CONNECTED" "vs bm_up = 0" "vr bm_up = 0" "va bm_up = 0"
    "tx_next_slot bm_up = 0" "tx_window bm_up = Some bm_tx_win" "n2 bm_up = 0"
    "peer_address bm_up = 0x02" "my_address bm_up = 0x01" "plat bm_up = bm_platform" "config bm_up = Some bm_cfg"
    "\<not> CTX_FLAG bm_up HDLC_F_REMOTE_BUSY" "\<not> CTX_FLAG bm_up HDLC_F_LOCAL_BUSY"
    "\<not> CTX_FLAG bm_up HDLC_F_REJ_EXCEPTION" "\<not> CTX_FLAG bm_up HDLC_F_T2_ACTIVE"
    "drv bm_up = atc_hdlc_crc_ops_default" "rx_capacity bm_up = 72"
    unfolding up(1) using w win bm_opening_run(5,6,7) f(10,11) rx_to_fields(4) [OF c0(1)]
    by (simp_all add: rx_reset_def rx_capacity_def)
qed

text \<open>The receiver of a station stays idle through calls that do not receive.\<close>

lemma kept_idle: "rx_kept c c' \<Longrightarrow> idle_rx c \<Longrightarrow> idle_rx c' \<and> rx_capacity c' = rx_capacity c"
proof -
  assume a: "rx_kept c c'" "idle_rx c"
  then have "held_octets c' = held_octets c"
    by (simp add: rx_kept_def held_octets_def cong: option.case_cong)
  moreover have "rx_capacity c' = rx_capacity c"
    using a(1) by (simp add: rx_kept_def rx_capacity_def cong: option.case_cong)
  ultimately show ?thesis
    using a by (auto simp: rx_kept_def idle_rx_def view_def split: if_splits)
qed

text \<open>The same station with one frame sent.\<close>

definition bm_sent :: atc_hdlc_ctx_t where
  "bm_sent = (case atc_hdlc_transmit_i bm_up (Some [0x41, 0x7E]) 2 of Some (c, _) \<Rightarrow> c | None \<Rightarrow> bm_up)"

lemma bm_core: "core bm_ctx0" "core bm_opening" "core bm_up"
  using reachable_settled [OF bm_reachable] reachable_settled [OF bm_opening_run(9)] reachable_settled [OF bm_up_run(2)]
  by (simp_all add: settled_def)

lemma bm_up_open: "tx_open bm_up" "tx_fits bm_up 2"
  by (simp_all add: tx_open_def tx_fits_def out_count_def too_long_def bm_up_run bm_tx_win_def bm_cfg_def
      WINDOW_SIZE_def MAX_INFO_SIZE_def)

lemma bm_sent_run:
  "atc_hdlc_transmit_i bm_up (Some [0x41, 0x7E]) 2 = Some (bm_sent, ATC_HDLC_OK)" "reachable bm_sent"
  "current_state bm_sent = ATC_HDLC_STATE_CONNECTED" "vs bm_sent = 1" "va bm_sent = 0" "vr bm_sent = 0"
  "my_address bm_sent = 0x01" "drv bm_sent = atc_hdlc_crc_ops_default" "idle_rx bm_sent"
  "rx_capacity bm_sent = 72" "peer_address bm_sent = 0x02"
proof -
  have r: "readable (Some [0x41, 0x7E :: u8]) 2" by (simp add: readable_def)
  note run = transmit_i_run [OF bm_core(3) bm_up_run(3,15) bm_up_open r]
  then show t: "atc_hdlc_transmit_i bm_up (Some [0x41, 0x7E]) 2 = Some (bm_sent, ATC_HDLC_OK)"
    by (simp add: bm_sent_def)
  show "reachable bm_sent"
    by (rule reach_call [OF bm_up_run(2), of "Transmit_i (Some [0x41, 0x7E]) 2"]) (simp_all add: r t)
  have e: "bm_sent = fst (the (atc_hdlc_transmit_i bm_up (Some [0x41, 0x7E]) 2))"
    by (simp add: t)
  show "current_state bm_sent = ATC_HDLC_STATE_CONNECTED" "vs bm_sent = 1" "va bm_sent = 0" "vr bm_sent = 0"
    "my_address bm_sent = 0x01" "drv bm_sent = atc_hdlc_crc_ops_default" "peer_address bm_sent = 0x02"
    unfolding e run by (simp_all add: sent_fields_def bm_up_run mod8_succ_def int_smod_pos)
  have "settled bm_up" using bm_up_run(2) by (rule reachable_settled)
  from transmit_kept(1) [OF this r] have "rx_kept bm_up bm_sent" by (simp add: t)
  from kept_idle [OF this bm_up_run(8)] show "idle_rx bm_sent" "rx_capacity bm_sent = 72"
    by (simp_all add: bm_up_run)
qed

lemma bm_sent_ctx: "bm_sent = sent_ctx bm_up [0x41, 0x7E] 2"
proof -
  have r: "readable (Some [0x41, 0x7E :: u8]) 2" by (simp add: readable_def)
  show ?thesis
    using transmit_i_run [OF bm_core(3) bm_up_run(3,15) bm_up_open r] bm_sent_run(1)
    by (simp add: sent_ctx_def payload_def)
qed

section \<open>Safety of the interface\<close>

text \<open>C1 No legal sequence of calls can make the library access memory outside its objects,
  dereference a null pointer or divide by zero: from every station that \<open>atc_hdlc_init\<close> and legal
  calls produce, every further legal call has a defined result, and a station where every descriptor
  still fits its memory. Legal means readable ranges, no null payload with a length for
  \<open>atc_hdlc_transmit_i\<close>, and for windows of two to six slots at most one frame per input chunk.\<close>

theorem api_never_stuck:
  assumes "reachable c" "legal c call"
  shows "\<exists>c' r. hdlc_do c call = Some (c', r) \<and> live c'"
  using hdlc_do_live [OF reachable_live [OF assms(1)] assms(2)] by (auto simp: runs_iff)

lemma api_never_stuck_witness:
  "\<exists>c' r. hdlc_do bm_up (Transmit_i (Some [0x41]) 1) = Some (c', r) \<and> live c'"
  by (rule api_never_stuck [OF bm_up_run(2)]) (simp add: readable_def)

text \<open>C11 Bounds of every reachable station: the sequence variables stay below 8, the frames sent and
  not acknowledged never exceed the window, the next slot lies in the window, the receive index never
  passes the capacity of the buffer, and no retransmission is left pending.\<close>

theorem reachable_bounds:
  assumes "reachable c"
  shows "unat (vs c) < 8 \<and> unat (vr c) < 8 \<and> unat (va c) < 8
    \<and> (case tx_window c of None \<Rightarrow> vs c = va c
        | Some w \<Rightarrow> dist8 (vs c) (va c) \<le> unat (slot_count w) \<and> tx_next_slot c < slot_count w)
    \<and> (case rx_buf c of None \<Rightarrow> False | Some rb \<Rightarrow> rx_index c \<le> capacity rb)
    \<and> \<not> CTX_FLAG c HDLC_F_RETRANSMIT_PENDING"
proof -
  have c: "core c" "\<not> pending c" using reachable_settled [OF assms] by (simp_all add: settled_def)
  then show ?thesis
    using coreD [OF c(1)] by (auto simp: seq_ok_def tx_ok_def out_count_def rx_geom_def word_le_nat_alt split: option.splits)
qed

lemma reachable_bounds_witness:
  "dist8 (vs bm_up) (va bm_up) \<le> 1 \<and> tx_next_slot bm_up < 1"
  using reachable_bounds [OF bm_up_run(2)] by (simp add: bm_up_run bm_tx_win_def WINDOW_SIZE_def)

text \<open>C12 A connected station with frames to be acknowledged always has T1 running, so it cannot wait
  for ever for an acknowledgement that was lost.\<close>

theorem outstanding_supervised:
  assumes "reachable c" "current_state c = ATC_HDLC_STATE_CONNECTED" "va c \<noteq> vs c"
  shows "CTX_FLAG c HDLC_F_T1_ACTIVE"
  using assms reachable_t1 [OF assms(1)] reachable_settled [OF assms(1)] by (simp add: t1_live_def settled_def)

lemma outstanding_supervised_witness: "CTX_FLAG bm_sent HDLC_F_T1_ACTIVE"
  by (rule outstanding_supervised [OF bm_sent_run(2,3)]) (simp add: bm_sent_run)

section \<open>The link state machine\<close>

text \<open>C10 The dispatcher refines the link's transition function: for every frame, the state it leaves
  is the one \<open>next_state\<close> gives for the state before, the control octet and whether N(R) lies
  between the last acknowledged and the next sequence number.\<close>

theorem dispatch_refines_next_state:
  assumes "reachable c" "info_ok info n"
  shows "map_option current_state (dispatch_frame c addr ctrl info n) =
    Some (next_state (current_state c) ctrl (dist8 (CTRL_NR ctrl) (va c) \<le> dist8 (vs c) (va c)))"
proof -
  have "core c" using reachable_settled [OF assms(1)] by (simp add: settled_def)
  from dispatch_effect [OF this assms(2), of addr ctrl] show ?thesis
    by (auto simp: runs_iff acceptable_def out_count_def CTRL_NR_less)
qed

lemma dispatch_refines_next_state_witness:
  "map_option current_state (dispatch_frame bm_up 0x01 0x53 None 0) = Some ATC_HDLC_STATE_DISCONNECTED"
proof -
  have "next_state ATC_HDLC_STATE_CONNECTED 0x53 x = ATC_HDLC_STATE_DISCONNECTED" for x
    by (simp add: next_state_def is_uframe_def PF_BIT_def hdlc_u_defs)
  then show ?thesis
    using dispatch_refines_next_state [OF bm_up_run(2), of None 0 "0x01" "0x53"] by (simp add: info_ok_def bm_up_run)
qed

text \<open>C26 I-frames and S-frames change nothing and get no answer unless the station is connected or
  disconnecting: no data is delivered before the link is up or after it failed.\<close>

theorem unconnected_ignores:
  assumes "current_state c \<in> {ATC_HDLC_STATE_DISCONNECTED, ATC_HDLC_STATE_CONNECTING, ATC_HDLC_STATE_FRMR_ERROR}"
    and "is_iframe ctrl \<or> is_sframe ctrl"
  shows "dispatch_frame c addr ctrl info n = Some c"
  using assms not_uframe [of ctrl]
  by (auto simp: dispatch_frame_def state_disconnected_def state_connecting_def state_frmr_error_def)

lemma unconnected_ignores_witness: "dispatch_frame bm_ctx0 0x01 0x00 (Some [0x41]) 1 = Some bm_ctx0"
  by (rule unconnected_ignores) (simp_all add: bm_rx is_iframe_def)

definition sabm_fields :: "atc_hdlc_ctx_t \<Rightarrow> u8 \<Rightarrow> atc_hdlc_ctx_t" where
  "sabm_fields c ctrl = reset_fields c\<lparr>tx_crc := driver_fcs (drv c) [my_address c, U_CTRL U_UA (CTRL_PF ctrl)],
     current_state := ATC_HDLC_STATE_CONNECTED\<rparr>"

lemma sabm_value:
  assumes "core c" "is_uframe ctrl" "ctrl AND NOT PF_BIT = U_SABM"
    and "current_state c \<in> {ATC_HDLC_STATE_DISCONNECTED, ATC_HDLC_STATE_CONNECTED, ATC_HDLC_STATE_FRMR_ERROR}"
  shows "dispatch_frame c addr ctrl info n = Some (say (sabm_fields c ctrl) (t1_stop_calls c @ t2_stop_calls c
         @ frame_calls (drv c) (my_address c) (U_CTRL U_UA (CTRL_PF ctrl)) [] @ event_calls c ATC_HDLC_EVENT_CONN_REQ))"
  using assms not_uframe_U(1,2) [OF assms(2)]
  by (auto simp: dispatch_frame_def state_disconnected_def state_connected_def handle_uframe_def
      state_frmr_error_def Let_def hdlc_run sabm_fields_def)

lemma sabm_run:
  assumes "core c" "is_uframe ctrl" "ctrl AND NOT PF_BIT = U_SABM"
    and "current_state c \<in> {ATC_HDLC_STATE_DISCONNECTED, ATC_HDLC_STATE_CONNECTED, ATC_HDLC_STATE_FRMR_ERROR}"
  shows "\<exists>d. dispatch_frame c addr ctrl info n = Some d \<and> current_state d = ATC_HDLC_STATE_CONNECTED
     \<and> vs d = 0 \<and> vr d = 0 \<and> va d = 0 \<and> tx_next_slot d = 0 \<and> n2 d = 0
     \<and> flags d AND (HDLC_F_T1_ACTIVE OR HDLC_F_T2_ACTIVE OR HDLC_F_REJ_EXCEPTION OR HDLC_F_REMOTE_BUSY
           OR HDLC_F_LOCAL_BUSY) = 0
     \<and> pending d = pending c \<and> same_env c d \<and> trace d = trace c @ new_calls c d
     \<and> new_calls c d = t1_stop_calls c @ t2_stop_calls c
         @ frame_calls (drv c) (my_address c) (U_CTRL U_UA (CTRL_PF ctrl)) [] @ event_calls c ATC_HDLC_EVENT_CONN_REQ"
proof -
  let ?d = "say (reset_fields c\<lparr>tx_crc := driver_fcs (drv c) [my_address c, U_CTRL U_UA (CTRL_PF ctrl)],
     current_state := ATC_HDLC_STATE_CONNECTED\<rparr>) (t1_stop_calls c @ t2_stop_calls c
         @ frame_calls (drv c) (my_address c) (U_CTRL U_UA (CTRL_PF ctrl)) [] @ event_calls c ATC_HDLC_EVENT_CONN_REQ)"
  have run: "dispatch_frame c addr ctrl info n = Some ?d"
    using sabm_value [OF assms] by (simp add: sabm_fields_def)
  have fl: "flags ?d AND f = 0" if "\<not> CTX_FLAG (reset_fields c) f" for f
    using that by (simp add: CTX_FLAG_def)
  have "flags ?d AND (HDLC_F_T1_ACTIVE OR HDLC_F_T2_ACTIVE OR HDLC_F_REJ_EXCEPTION OR HDLC_F_REMOTE_BUSY
           OR HDLC_F_LOCAL_BUSY) = 0"
    by (simp only: bit.conj_disj_distrib fl [OF reset_fields_flags(1)] fl [OF reset_fields_flags(2)]
        fl [OF reset_fields_flags(3)] fl [OF reset_fields_flags(4)] fl [OF reset_fields_flags(5)] or.left_neutral)
  with run show ?thesis by simp
qed

text \<open>C25 SABM, received while disconnected, connected or in frame-reject, resets the sequence
  variables, the busy and reject conditions and both timers, is answered by exactly one UA whose F bit
  is the P bit, and reports \<open>CONN_REQ\<close>.\<close>

theorem sabm_resets:
  assumes "core c" "is_uframe ctrl" "ctrl AND NOT PF_BIT = U_SABM"
    and "current_state c \<in> {ATC_HDLC_STATE_DISCONNECTED, ATC_HDLC_STATE_CONNECTED, ATC_HDLC_STATE_FRMR_ERROR}"
  shows "\<exists>d. dispatch_frame c addr ctrl info n = Some d \<and> current_state d = ATC_HDLC_STATE_CONNECTED
     \<and> vs d = 0 \<and> vr d = 0 \<and> va d = 0 \<and> tx_next_slot d = 0 \<and> n2 d = 0
     \<and> flags d AND (HDLC_F_T1_ACTIVE OR HDLC_F_T2_ACTIVE OR HDLC_F_REJ_EXCEPTION OR HDLC_F_REMOTE_BUSY
           OR HDLC_F_LOCAL_BUSY) = 0
     \<and> new_calls c d = t1_stop_calls c @ t2_stop_calls c
         @ frame_calls (drv c) (my_address c) (U_CTRL U_UA (CTRL_PF ctrl)) [] @ event_calls c ATC_HDLC_EVENT_CONN_REQ"
  using sabm_run [OF assms, of addr info n] by blast

lemma sabm_resets_witness:
  "\<exists>d. dispatch_frame bm_sent 0x01 0x3F None 0 = Some d \<and> vs d = 0 \<and> current_state d = ATC_HDLC_STATE_CONNECTED"
proof -
  have "core bm_sent" using reachable_settled [OF bm_sent_run(2)] by (simp add: settled_def)
  moreover have "is_uframe 0x3F" "(0x3F :: u8) AND NOT PF_BIT = U_SABM"
    by (simp_all add: is_uframe_def PF_BIT_def U_SABM_def)
  ultimately show ?thesis using sabm_resets [of bm_sent "0x3F" "0x01" None 0] by (auto simp: bm_sent_run)
qed

section \<open>I-frames\<close>

lemma delivered_calls [simp]:
  "delivered (t1_start_calls c) = []" "delivered (t1_stop_calls c) = []" "delivered (t2_start_calls c) = []"
  "delivered (t2_stop_calls c) = []" "delivered (event_calls c ev) = []"
  by (simp_all add: call_defs split: option.split)

lemma line_calls [simp]:
  "line_octets (t1_start_calls c) = []" "line_octets (t1_stop_calls c) = []" "line_octets (t2_start_calls c) = []"
  "line_octets (t2_stop_calls c) = []" "line_octets (event_calls c ev) = []" "line_octets (data_calls c info n) = []"
  by (simp_all add: call_defs split: option.split)

lemma acked_calls_quiet [simp]: "delivered (acked_calls c nr) = []" "line_octets (acked_calls c nr) = []"
  by (simp_all add: acked_calls_def)

lemma processed_trace: "\<exists>xs. trace (processed c nr) = trace c @ xs \<and> delivered xs = [] \<and> line_octets xs = []"
  by (auto simp: processed_def)

text \<open>What decides whether a station can poll: frames leave it alone, except that an acknowledgement starts the
  count of retries again.\<close>

definition retry_kept :: "atc_hdlc_ctx_t \<Rightarrow> atc_hdlc_ctx_t \<Rightarrow> bool" where
  "retry_kept c d \<longleftrightarrow> config d = config c \<and> CTX_FLAG d HDLC_F_LOCAL_BUSY = CTX_FLAG c HDLC_F_LOCAL_BUSY
     \<and> (n2 d = n2 c \<or> n2 d = 0)"

lemma retry_kept_refl [simp]: "retry_kept c c"
  by (simp add: retry_kept_def)

lemma retry_kept_trans: "retry_kept c d \<Longrightarrow> retry_kept d e \<Longrightarrow> retry_kept c e"
  by (auto simp: retry_kept_def)

lemma retry_kept_processed [simp]: "retry_kept c (processed c nr)" "retry_kept c (acked_fields c nr)"
  by (simp_all add: retry_kept_def processed_def acked_fields_def)

lemma retry_kept_more [simp]:
  "retry_kept c (say d xs) = retry_kept c d" "retry_kept c (d\<lparr>tx_crc := x\<rparr>) = retry_kept c d"
  "retry_kept c (d\<lparr>vr := y\<rparr>) = retry_kept c d" "retry_kept c (d\<lparr>vs := y\<rparr>) = retry_kept c d"
  "retry_kept c (rx_reset st d) = retry_kept c d" "retry_kept c (trigger_retransmit d y) = retry_kept c d"
  "f AND HDLC_F_LOCAL_BUSY = 0 \<Longrightarrow> retry_kept c (CTX_SET d f) = retry_kept c d"
  "f AND HDLC_F_LOCAL_BUSY = 0 \<Longrightarrow> retry_kept c (CTX_CLR d f) = retry_kept c d"
  by (simp_all add: retry_kept_def trigger_retransmit_def rx_reset_def)

text \<open>The octets of the answer to an I-frame taken in sequence.\<close>

definition in_sequence_reply :: "atc_hdlc_ctx_t \<Rightarrow> u8 \<Rightarrow> u8 list" where
  "in_sequence_reply c pf =
     (if pf \<noteq> 0 then frame_octets (drv c) (my_address c)
          (S_CTRL (if CTX_FLAG c HDLC_F_LOCAL_BUSY then S_RNR else S_RR) (mod8_succ (vr c)) 1) []
      else if CTX_FLAG c HDLC_F_LOCAL_BUSY \<and> \<not> CTX_FLAG c HDLC_F_T2_ACTIVE
      then frame_octets (drv c) (my_address c) (S_CTRL S_RNR (mod8_succ (vr c)) 0) []
      else [])"

lemma processed_calls [simp]:
  "data_calls (processed c nr) info n = data_calls c info n" "event_calls (processed c nr) ev = event_calls c ev"
  by (simp_all add: processed_def)

lemma in_sequence_run:
  assumes "core c" "current_state c = ATC_HDLC_STATE_CONNECTED" "is_iframe ctrl"
    and "acceptable c (CTRL_NR ctrl)" "CTRL_NS ctrl = vr c"
  shows "\<exists>d. dispatch_frame c addr ctrl info n = Some d \<and> current_state d = ATC_HDLC_STATE_CONNECTED
     \<and> vr d = mod8_succ (vr c) \<and> vs d = vs c \<and> va d = CTRL_NR ctrl \<and> \<not> CTX_FLAG d HDLC_F_REJ_EXCEPTION
     \<and> delivered (new_calls c d) = delivered (data_calls c info n)
     \<and> line_octets (new_calls c d) = in_sequence_reply c (CTRL_PF ctrl)
     \<and> pending d = pending c \<and> same_env c d \<and> CTX_FLAG d HDLC_F_LOCAL_BUSY = CTX_FLAG c HDLC_F_LOCAL_BUSY
     \<and> trace d = trace c @ new_calls c d
     \<and> tx_window d = tx_window c \<and> tx_next_slot d = tx_next_slot c \<and> retry_kept c d
     \<and> (CTRL_PF ctrl = 0 \<and> (CTX_FLAG c HDLC_F_T2_ACTIVE \<or> \<not> CTX_FLAG c HDLC_F_LOCAL_BUSY) \<longrightarrow> CTX_FLAG d HDLC_F_T2_ACTIVE)"
proof -
  obtain xs where xs: "trace (processed c (CTRL_NR ctrl)) = trace c @ xs" "delivered xs = []" "line_octets xs = []"
    using processed_trace by blast
  have "dispatch_frame c addr ctrl info n
      = handle_in_sequence_iframe (processed c (CTRL_NR ctrl)) (CTRL_PF ctrl) info n"
    using assms by (simp add: dispatch_frame_def state_connected_def handle_iframe_def Let_def validate_nr_run
        CTRL_NR_less process_nr_run)
  moreover have "same_env c (processed c (CTRL_NR ctrl))"
    using process_nr_post [OF assms(1,4)] process_nr_run [OF assms(1,4)] by (simp add: frame_post_def)
  ultimately show ?thesis
    using assms xs
    by (simp add: handle_in_sequence_iframe_def Let_def hdlc_run in_sequence_reply_def new_calls_def)
qed

text \<open>C14 An I-frame in sequence is delivered exactly once, with its information field and length,
  and moves V(R) by one modulo 8; its N(R) becomes the acknowledged number; a reject condition ends.
  A poll is answered at once by RR, or RNR when locally busy, with the F bit and the new V(R); without
  a poll the acknowledgement waits for T2, and only a busy station with T2 stopped sends RNR.\<close>

theorem iframe_in_sequence:
  assumes "core c" "current_state c = ATC_HDLC_STATE_CONNECTED" "is_iframe ctrl"
    and "acceptable c (CTRL_NR ctrl)" "CTRL_NS ctrl = vr c"
  shows "\<exists>d. dispatch_frame c addr ctrl info n = Some d \<and> current_state d = ATC_HDLC_STATE_CONNECTED
     \<and> vr d = mod8_succ (vr c) \<and> vs d = vs c \<and> va d = CTRL_NR ctrl \<and> \<not> CTX_FLAG d HDLC_F_REJ_EXCEPTION
     \<and> delivered (new_calls c d) = delivered (data_calls c info n)
     \<and> line_octets (new_calls c d) = in_sequence_reply c (CTRL_PF ctrl)
     \<and> (CTRL_PF ctrl = 0 \<and> \<not> CTX_FLAG c HDLC_F_LOCAL_BUSY \<longrightarrow> CTX_FLAG d HDLC_F_T2_ACTIVE)"
  using in_sequence_run [OF assms] by blast

lemma out_of_sequence_run:
  assumes "core c" "current_state c = ATC_HDLC_STATE_CONNECTED" "is_iframe ctrl"
    and "acceptable c (CTRL_NR ctrl)" "CTRL_NS ctrl \<noteq> vr c"
  shows "\<exists>d. dispatch_frame c addr ctrl info n = Some d \<and> current_state d = ATC_HDLC_STATE_CONNECTED
     \<and> vr d = vr c \<and> vs d = vs c \<and> va d = CTRL_NR ctrl \<and> CTX_FLAG d HDLC_F_REJ_EXCEPTION \<and> pending d = pending c
     \<and> delivered (new_calls c d) = [] \<and> tx_window d = tx_window c \<and> tx_next_slot d = tx_next_slot c \<and> retry_kept c d
     \<and> line_octets (new_calls c d) =
         (if \<not> CTX_FLAG c HDLC_F_REJ_EXCEPTION
          then frame_octets (drv c) (peer_address c) (S_CTRL S_REJ (vr c) (CTRL_PF ctrl)) []
          else if CTRL_PF ctrl \<noteq> 0 then frame_octets (drv c) (my_address c) (S_CTRL S_RR (vr c) 1) []
          else [])"
proof -
  obtain xs where xs: "trace (processed c (CTRL_NR ctrl)) = trace c @ xs" "delivered xs = []" "line_octets xs = []"
    using processed_trace by blast
  have "dispatch_frame c addr ctrl info n
      = handle_out_of_sequence_iframe (processed c (CTRL_NR ctrl)) (CTRL_NS ctrl) (CTRL_PF ctrl)"
    using assms by (simp add: dispatch_frame_def state_connected_def handle_iframe_def Let_def validate_nr_run
        CTRL_NR_less process_nr_run)
  with assms xs show ?thesis
    by (simp add: handle_out_of_sequence_iframe_def Let_def hdlc_run new_calls_def)
qed

text \<open>C15 An I-frame out of sequence is never delivered and leaves V(R). The first one is answered by
  exactly one REJ asking for V(R) and sets the reject condition; while the condition lasts, further
  ones are silent unless they poll, and then answered by RR with the F bit.\<close>

theorem iframe_out_of_sequence:
  assumes "core c" "current_state c = ATC_HDLC_STATE_CONNECTED" "is_iframe ctrl"
    and "acceptable c (CTRL_NR ctrl)" "CTRL_NS ctrl \<noteq> vr c"
  shows "\<exists>d. dispatch_frame c addr ctrl info n = Some d \<and> current_state d = ATC_HDLC_STATE_CONNECTED
     \<and> vr d = vr c \<and> vs d = vs c \<and> va d = CTRL_NR ctrl \<and> CTX_FLAG d HDLC_F_REJ_EXCEPTION
     \<and> delivered (new_calls c d) = []
     \<and> line_octets (new_calls c d) =
         (if \<not> CTX_FLAG c HDLC_F_REJ_EXCEPTION
          then frame_octets (drv c) (peer_address c) (S_CTRL S_REJ (vr c) (CTRL_PF ctrl)) []
          else if CTRL_PF ctrl \<noteq> 0 then frame_octets (drv c) (my_address c) (S_CTRL S_RR (vr c) 1) []
          else [])"
  using out_of_sequence_run [OF assms] by blast

text \<open>What a supervisory frame does before its N(R) is looked at: it may change the peer's busy
  condition, with an event when it does, and a command that polls is answered by RR.\<close>

definition sframe_first_calls :: "atc_hdlc_ctx_t \<Rightarrow> u8 \<Rightarrow> u8 \<Rightarrow> callback list" where
  "sframe_first_calls c addr ctrl =
     (if CTRL_S ctrl = S_RR \<and> CTX_FLAG c HDLC_F_REMOTE_BUSY then event_calls c ATC_HDLC_EVENT_PEER_READY
      else if CTRL_S ctrl = S_RNR \<and> \<not> CTX_FLAG c HDLC_F_REMOTE_BUSY then event_calls c ATC_HDLC_EVENT_PEER_BUSY
      else [])
   @ (if is_cmd c addr \<and> CTRL_PF ctrl \<noteq> 0
      then frame_calls (drv c) (my_address c) (S_CTRL S_RR (vr c) 1) [] else [])"

definition peer_busy_after :: "atc_hdlc_ctx_t \<Rightarrow> u8 \<Rightarrow> bool" where
  "peer_busy_after c ctrl =
     (if is_sframe ctrl \<and> CTRL_S ctrl = S_RNR then True
      else if is_sframe ctrl \<and> (CTRL_S ctrl = S_RR \<or> CTRL_S ctrl = S_REJ) then False
      else CTX_FLAG c HDLC_F_REMOTE_BUSY)"

lemma u8_and_7: "unat (x :: u8) < 8 \<Longrightarrow> x AND 7 = x"
proof -
  assume "unat x < 8"
  then have "unat (take_bit 3 x) = unat x" by (simp add: unsigned_take_bit_eq take_bit_nat_eq_self)
  then have "take_bit 3 x = x" by (simp only: word_unat_eq_iff)
  then show ?thesis by (simp add: take_bit_eq_mask mask_eq_exp_minus_1)
qed

text \<open>C16 An I-frame or an S-frame with an N(R) outside the window is a protocol error for a connected
  station: it is not delivered and acknowledges nothing, one FRMR goes out, whose information field
  holds the rejected control octet, V(R) and V(S), and the Z flag; the station enters the frame-reject
  state, reports it, and runs T1. An S-frame has acted before that: the peer's busy condition follows
  RR, RNR and REJ, with its event, and a polling command is answered by RR with the F bit ahead of the
  FRMR.\<close>

theorem invalid_nr_rejected:
  assumes "core c" "current_state c = ATC_HDLC_STATE_CONNECTED" "is_iframe ctrl \<or> is_sframe ctrl"
    and "\<not> dist8 (CTRL_NR ctrl) (va c) \<le> dist8 (vs c) (va c)"
  shows "\<exists>d. dispatch_frame c addr ctrl info n = Some d \<and> current_state d = ATC_HDLC_STATE_FRMR_ERROR
     \<and> vr d = vr c \<and> vs d = vs c \<and> va d = va c \<and> CTX_FLAG d HDLC_F_T1_ACTIVE
     \<and> CTX_FLAG d HDLC_F_REMOTE_BUSY = peer_busy_after c ctrl
     \<and> new_calls c d = (if is_sframe ctrl then sframe_first_calls c addr ctrl else [])
         @ t2_stop_calls c
         @ frame_calls (drv c) (my_address c) U_FRMR
             [ctrl, push_bit 5 (vr c) OR push_bit 1 (vs c), FRMR_Z]
         @ t1_start_calls c @ event_calls c ATC_HDLC_EVENT_PROTOCOL_ERROR"
proof -
  have nacc: "\<not> acceptable c (CTRL_NR ctrl)" using assms(4) by (simp add: acceptable_def out_count_def)
  have seq: "vr c AND 7 = vr c" "vs c AND 7 = vs c"
    using coreD(2) [OF assms(1)] by (simp_all add: seq_ok_def u8_and_7)
  show ?thesis
  proof (cases "is_sframe ctrl")
    case False
    then have "is_iframe ctrl" "\<not> is_uframe ctrl" using assms(3) by (auto simp: frame_kinds)
    with False assms(1,2) nacc seq show ?thesis
      by (simp add: dispatch_frame_def state_connected_def handle_iframe_def Let_def validate_nr_run
          CTRL_NR_less send_frmr_def hdlc_run frmr_info_def U_CTRL_def new_calls_def peer_busy_after_def)
  next
    case True
    then have k: "\<not> is_iframe ctrl" "\<not> is_uframe ctrl" by (auto simp: frame_kinds)
    have s: "S_RR \<noteq> S_RNR" "S_RR \<noteq> S_REJ" "S_RNR \<noteq> S_REJ" by (simp_all add: S_RR_def S_RNR_def S_REJ_def)
    have t2: "t2_stop_calls (CTX_CLR d HDLC_F_T2_ACTIVE) = []" for d by (simp add: t2_stop_calls_def)
    from True k assms(1,2,4) seq s t2 show ?thesis
      by (simp add: dispatch_frame_def state_connected_def handle_sframe_def sframe_busy_def Let_def validate_nr_run
          CTRL_NR_less send_frmr_def hdlc_run frmr_info_def U_CTRL_def new_calls_def peer_busy_after_def
          sframe_first_calls_def acceptable_def out_count_def)
  qed
qed

text \<open>An I-frame whose N(S) and N(R) are zero is in sequence for the connected template station.\<close>

lemma zero_iframe: "is_iframe 0x00" "CTRL_NR 0x00 = 0" "CTRL_NS 0x00 = 0" "CTRL_PF 0x00 = 0"
  by (simp_all add: is_iframe_def CTRL_NR_def CTRL_NS_def CTRL_PF_def)

lemma iframe_in_sequence_witness:
  "\<exists>d. dispatch_frame bm_up 0x01 0x00 (Some [0x41, 0x42]) 2 = Some d \<and> vr d = 1
     \<and> delivered (new_calls bm_up d) = [(Some [0x41, 0x42], 2)] \<and> CTX_FLAG d HDLC_F_T2_ACTIVE"
proof -
  have "acceptable bm_up (CTRL_NR 0x00)" by (simp add: acceptable_def zero_iframe bm_up_run)
  then show ?thesis
    using iframe_in_sequence [OF bm_core(3) bm_up_run(3) zero_iframe(1), of "0x01" "Some [0x41, 0x42]" 2]
    by (auto simp: zero_iframe bm_up_run data_calls_def bm_platform_def mod8_succ_def int_smod_pos)
qed

lemma iframe_out_of_sequence_witness:
  "\<exists>d. dispatch_frame bm_up 0x01 0x02 (Some [0x41]) 1 = Some d \<and> vr d = 0 \<and> delivered (new_calls bm_up d) = []
     \<and> line_octets (new_calls bm_up d) = frame_octets atc_hdlc_crc_ops_default 0x02 0x09 []"
proof -
  have c: "is_iframe 0x02" "CTRL_NR 0x02 = 0" "CTRL_NS 0x02 = 1" "CTRL_PF 0x02 = 0"
    by (simp_all add: is_iframe_def CTRL_NR_def CTRL_NS_def CTRL_PF_def)
  have "acceptable bm_up (CTRL_NR 0x02)" by (simp add: acceptable_def c bm_up_run)
  then show ?thesis
    using iframe_out_of_sequence [OF bm_core(3) bm_up_run(3) c(1), of "0x01" "Some [0x41]" 1]
    by (auto simp: c bm_up_run S_CTRL_def S_REJ_def)
qed

lemma invalid_nr_rejected_witness:
  "(\<exists>d. dispatch_frame bm_up 0x01 0x20 None 0 = Some d \<and> current_state d = ATC_HDLC_STATE_FRMR_ERROR)
   \<and> (\<exists>d. dispatch_frame bm_up 0x01 0x31 None 0 = Some d \<and> current_state d = ATC_HDLC_STATE_FRMR_ERROR
     \<and> line_octets (new_calls bm_up d) = frame_octets atc_hdlc_crc_ops_default 0x01 0x11 []
         @ frame_octets atc_hdlc_crc_ops_default 0x01 U_FRMR [0x31, 0, FRMR_Z])"
  (is "?A \<and> ?B")
proof
  have c: "is_iframe 0x20" "CTRL_NR 0x20 = 1" "is_sframe 0x31" "\<not> is_sframe 0x20" "CTRL_NR 0x31 = 1" "CTRL_PF 0x31 \<noteq> 0"
    "CTRL_S 0x31 = S_RR" "S_RR \<noteq> S_RNR"
    by (simp_all add: is_iframe_def is_sframe_def CTRL_NR_def CTRL_PF_def CTRL_S_def S_RR_def S_RNR_def)
  show ?A
    using invalid_nr_rejected [OF bm_core(3) bm_up_run(3) disjI1 [OF c(1)], of "0x01" None 0]
    by (auto simp: c bm_up_run dist8_def)
  show ?B
    using invalid_nr_rejected [OF bm_core(3) bm_up_run(3) disjI2 [OF c(3)], of "0x01" None 0]
    by (auto simp: c bm_up_run dist8_def sframe_first_calls_def is_cmd_def S_CTRL_def S_RR_def)
qed

section \<open>Retries\<close>

text \<open>What T1 supervises: a request to be answered, a rejection to be answered, or frames to be
  acknowledged; and the octets sent again each time it expires.\<close>

definition awaiting :: "atc_hdlc_ctx_t \<Rightarrow> bool" where
  "awaiting c \<longleftrightarrow> (case current_state c of
       ATC_HDLC_STATE_DISCONNECTED \<Rightarrow> False | ATC_HDLC_STATE_CONNECTED \<Rightarrow> va c \<noteq> vs c | _ \<Rightarrow> True)"

definition retry_octets :: "atc_hdlc_ctx_t \<Rightarrow> u8 list" where
  "retry_octets c = (case current_state c of
       ATC_HDLC_STATE_DISCONNECTED \<Rightarrow> []
     | ATC_HDLC_STATE_CONNECTING \<Rightarrow> frame_octets (drv c) (peer_address c) (U_CTRL U_SABM 1) []
     | ATC_HDLC_STATE_DISCONNECTING \<Rightarrow> frame_octets (drv c) (peer_address c) (U_CTRL U_DISC 1) []
     | ATC_HDLC_STATE_FRMR_ERROR \<Rightarrow> frame_octets (drv c) (my_address c) (U_CTRL U_FRMR 0) (frmr_info c)
     | ATC_HDLC_STATE_CONNECTED \<Rightarrow>
         if CTX_FLAG c HDLC_F_LOCAL_BUSY then frame_octets (drv c) (my_address c) (S_CTRL S_RNR (vr c) 1) []
         else frame_octets (drv c) (peer_address c) (S_CTRL S_RR (vr c) 1) [])"

fun t1_expiries :: "nat \<Rightarrow> atc_hdlc_ctx_t \<Rightarrow> atc_hdlc_ctx_t option" where
  "t1_expiries 0 c = Some c"
| "t1_expiries (Suc k) c = atc_hdlc_t1_expired c \<bind> t1_expiries k"

text \<open>What an expiry that tries again leaves: the same station, one retry more, T1 running.\<close>

definition retried :: "nat \<Rightarrow> atc_hdlc_ctx_t \<Rightarrow> atc_hdlc_ctx_t \<Rightarrow> bool" where
  "retried k c d \<longleftrightarrow> core d \<and> current_state d = current_state c \<and> awaiting d = awaiting c
     \<and> retry_octets d = retry_octets c \<and> config d = config c \<and> plat d = plat c \<and> n2 d = n2 c + word_of_nat k
     \<and> (\<exists>xs. trace d = trace c @ xs \<and> line_octets xs = concat (replicate k (retry_octets c)))"

lemma t1_retry:
  assumes "core c" "awaiting c" "config c = Some cfg" "max_retries cfg = 0 \<or> n2 c + 1 \<le> max_retries cfg"
  shows "\<exists>d. atc_hdlc_t1_expired c = Some d \<and> retried 1 c d \<and> CTX_FLAG d HDLC_F_T1_ACTIVE"
proof -
  have go: "max_retries cfg = 0 \<or> \<not> max_retries cfg < n2 c + 1" using assms(4) by auto
  have "runs (atc_hdlc_t1_expired c) (\<lambda>d. retried 1 c d \<and> CTX_FLAG d HDLC_F_T1_ACTIVE)"
    using go
  proof
    assume "max_retries cfg = 0"
    with assms(1-3) show ?thesis
      by (cases "current_state c") (simp_all add: atc_hdlc_t1_expired_def Let_def hdlc_run retried_def
          awaiting_def retry_octets_def frmr_info_def)
  next
    assume "\<not> max_retries cfg < n2 c + 1"
    with assms(1-3) show ?thesis
      by (cases "current_state c") (simp_all add: atc_hdlc_t1_expired_def Let_def hdlc_run retried_def
          awaiting_def retry_octets_def frmr_info_def)
  qed
  then show ?thesis by (simp add: runs_iff)
qed

lemma t1_retries:
  assumes "core c" "awaiting c" "config c = Some cfg" "max_retries cfg = 0 \<or> unat (n2 c) + k \<le> unat (max_retries cfg)"
  shows "\<exists>d. t1_expiries k c = Some d \<and> retried k c d"
  using assms
proof (induction k arbitrary: c)
  case 0
  then show ?case by (simp add: retried_def)
next
  case (Suc k)
  have n: "unat (n2 c + 1) = unat (n2 c) + 1 \<and> n2 c + 1 \<le> max_retries cfg" if "max_retries cfg \<noteq> 0"
  proof -
    have "n2 c < max_retries cfg" using Suc.prems(4) that by (simp add: word_less_nat_alt)
    then show ?thesis using unat_succ [of "n2 c" "max_retries cfg"] Suc.prems(4) that by (simp add: word_le_nat_alt)
  qed
  then obtain d where d: "atc_hdlc_t1_expired c = Some d" "retried 1 c d"
    using t1_retry [OF Suc.prems(1-3)] by blast
  moreover have "\<exists>e. t1_expiries k d = Some e \<and> retried k d e"
  proof (rule Suc.IH)
    show "max_retries cfg = 0 \<or> unat (n2 d) + k \<le> unat (max_retries cfg)"
      using d(2) n Suc.prems(4) by (cases "max_retries cfg = 0") (auto simp: retried_def)
  qed (use d(2) Suc.prems(1-3) in \<open>auto simp: retried_def\<close>)
  ultimately show ?case
    by (auto simp: retried_def)
qed

text \<open>C13 Retries are bounded: when T1 keeps expiring and no frame arrives, a station that waits for an
  answer or an acknowledgement, whose retry counter N2 stands at \<open>n2 c\<close> and whose limit
  \<open>max_retries\<close> is between 1 and 254, sends its request, rejection or poll again exactly
  \<open>max_retries - n2 c\<close> times; the next expiry takes it to \<open>DISCONNECTED\<close> with \<open>LINK_FAILURE\<close>,
  reset sequence variables, N2 cleared and T1 stopped. With N2 at zero that is \<open>max_retries\<close> times;
  \<open>atc_hdlc_link_setup\<close>, \<open>atc_hdlc_disconnect\<close> and a DM received while connecting do not clear N2, so
  after them fewer retries may be left. A limit of 0 means no limit, and 255 wraps.\<close>

theorem t1_gives_up:
  assumes "core c" "awaiting c" "config c = Some cfg" "0 < max_retries cfg" "max_retries cfg < 255"
    and "n2 c \<le> max_retries cfg"
  shows "\<exists>d e. t1_expiries (unat (max_retries cfg) - unat (n2 c)) c = Some d \<and> current_state d = current_state c
     \<and> line_octets (new_calls c d) = concat (replicate (unat (max_retries cfg) - unat (n2 c)) (retry_octets c))
     \<and> atc_hdlc_t1_expired d = Some e \<and> current_state e = ATC_HDLC_STATE_DISCONNECTED
     \<and> new_calls d e = event_calls c ATC_HDLC_EVENT_LINK_FAILURE @ t2_stop_calls d
     \<and> vs e = 0 \<and> vr e = 0 \<and> va e = 0 \<and> n2 e = 0 \<and> \<not> CTX_FLAG e HDLC_F_T1_ACTIVE"
proof -
  let ?m = "max_retries cfg" and ?k = "unat (max_retries cfg) - unat (n2 c)"
  have k: "unat (n2 c) + ?k = unat ?m" using assms(6) by (simp add: word_le_nat_alt)
  obtain d where d: "t1_expiries ?k c = Some d" "retried ?k c d"
    using t1_retries [OF assms(1-3), of ?k] k by auto
  have "n2 c + word_of_nat ?k = word_of_nat (unat (n2 c) + ?k)" by simp
  then have "n2 c + word_of_nat ?k = ?m" by (simp add: k)
  then have n: "n2 d = ?m" "core d" "config d = Some cfg" "plat d = plat c"
      "current_state d \<noteq> ATC_HDLC_STATE_DISCONNECTED"
    using d(2) assms(2,3) by (auto simp: retried_def awaiting_def)
  have "unat (?m + 1) = unat ?m + 1" using unat_succ [OF assms(5)] by simp
  then have more: "?m < ?m + 1" by (simp add: word_less_nat_alt)
  let ?d = "CTX_CLR d HDLC_F_T1_ACTIVE\<lparr>n2 := ?m + 1\<rparr>"
  have "core (?d\<lparr>current_state := ATC_HDLC_STATE_DISCONNECTED\<rparr>)"
    using n(2) by (intro core_state) simp_all
  then have "atc_hdlc_t1_expired d = Some (say (reset_fields (?d\<lparr>current_state := ATC_HDLC_STATE_DISCONNECTED\<rparr>))
      (event_calls d ATC_HDLC_EVENT_LINK_FAILURE @ t1_stop_calls (CTX_CLR d HDLC_F_T1_ACTIVE) @ t2_stop_calls d))"
    using n more assms(4) by (simp add: atc_hdlc_t1_expired_def Let_def hdlc_run)
  moreover have "t1_stop_calls (CTX_CLR d HDLC_F_T1_ACTIVE) = []" "event_calls d = event_calls c"
    using n(4) by (simp_all add: t1_stop_calls_def event_calls_def fun_eq_iff)
  ultimately show ?thesis
    using d by (auto simp: retried_def new_calls_def)
qed

lemma t1_gives_up_witness:
  "(\<exists>d e. t1_expiries 3 bm_opening = Some d \<and> current_state d = ATC_HDLC_STATE_CONNECTING
     \<and> atc_hdlc_t1_expired d = Some e \<and> current_state e = ATC_HDLC_STATE_DISCONNECTED)
   \<and> (\<exists>d e. t1_expiries 1 (bm_opening\<lparr>n2 := 2\<rparr>) = Some d \<and> current_state d = ATC_HDLC_STATE_CONNECTING
     \<and> atc_hdlc_t1_expired d = Some e \<and> current_state e = ATC_HDLC_STATE_DISCONNECTED)"
  (is "?A \<and> ?B")
proof
  have "awaiting bm_opening" "n2 bm_opening = 0" by (simp_all add: awaiting_def bm_opening_run)
  then show ?A
    using t1_gives_up [OF bm_core(2) _ bm_opening_run(12)] bm_opening_run by (auto simp: bm_cfg_def)
  have "awaiting (bm_opening\<lparr>n2 := 2\<rparr>)" "core (bm_opening\<lparr>n2 := 2\<rparr>)" "config (bm_opening\<lparr>n2 := 2\<rparr>) = Some bm_cfg"
    by (simp_all add: awaiting_def bm_opening_run bm_core)
  then show ?B
    using t1_gives_up [of "bm_opening\<lparr>n2 := 2\<rparr>" bm_cfg] bm_opening_run by (auto simp: bm_cfg_def)
qed

text \<open>C38 With \<open>max_retries\<close> at its largest value, 255, the retry counter wraps from 255 to 0 before it
  can exceed the limit, and the station retries for ever.\<close>

theorem t1_255_never_gives_up:
  assumes "core c" "awaiting c" "config c = Some cfg" "max_retries cfg = 255"
  shows "\<exists>d. t1_expiries k c = Some d \<and> current_state d = current_state c
    \<and> line_octets (new_calls c d) = concat (replicate k (retry_octets c))"
proof -
  have step: "\<exists>d. atc_hdlc_t1_expired c = Some d \<and> retried 1 c d" if "core c" "awaiting c" "config c = Some cfg" for c
  proof -
    have "unat (n2 c + 1) \<le> 255" using unat_u8_less [of "n2 c + 1"] by linarith
    then have "n2 c + 1 \<le> max_retries cfg" using assms(4) by (simp add: word_le_nat_alt)
    then show ?thesis using t1_retry [OF that] by blast
  qed
  have "\<exists>d. t1_expiries k c = Some d \<and> retried k c d"
    using assms(1-3)
  proof (induction k arbitrary: c)
    case 0
    then show ?case by (simp add: retried_def)
  next
    case (Suc k)
    obtain d where d: "atc_hdlc_t1_expired c = Some d" "retried 1 c d" using step [OF Suc.prems] by blast
    moreover have "\<exists>e. t1_expiries k d = Some e \<and> retried k d e"
      by (rule Suc.IH) (use d(2) Suc.prems in \<open>auto simp: retried_def\<close>)
    ultimately show ?case by (auto simp: retried_def)
  qed
  then show ?thesis by (auto simp: retried_def new_calls_def)
qed

lemma core_config [simp]: "core (c\<lparr>config := x\<rparr>) = core c"
  unfolding core_def ready_def plat_def drv_def rx_geom_def seq_ok_def tx_ok_def
  by (simp add: out_count_def CTX_FLAG_def cong: option.case_cong)

lemma t1_255_never_gives_up_witness:
  "\<exists>d. t1_expiries 1000 (bm_opening\<lparr>config := Some (bm_cfg\<lparr>max_retries := 255\<rparr>)\<rparr>) = Some d
    \<and> current_state d = ATC_HDLC_STATE_CONNECTING"
  using t1_255_never_gives_up [of "bm_opening\<lparr>config := Some (bm_cfg\<lparr>max_retries := 255\<rparr>)\<rparr>" _ 1000]
  by (auto simp: bm_core bm_opening_run awaiting_def)

end
