(* ===== verification/Hdlc_Service.thy ===== *)
theory Hdlc_Service
  imports Hdlc_Protocol
begin

text \<open>
  What the entry points promise an application: initialisation, the refusals and the effect of
  \<open>atc_hdlc_transmit_i\<close>, local busy, and the cases in which the code does not keep a promise.
\<close>

section \<open>Initialisation\<close>

text \<open>The conditions \<open>atc_hdlc_init\<close> checks, sizes as natural numbers.\<close>

definition window_ok :: "u32 \<Rightarrow> atc_hdlc_txwin_t option \<Rightarrow> bool" where
  "window_ok n w = (case w of None \<Rightarrow> True
     | Some w \<Rightarrow> slots w \<noteq> None \<and> slot_lens w \<noteq> None \<and> 1 \<le> unat (slot_count w) \<and> unat (slot_count w) \<le> 7
         \<and> unat n \<le> unat (slot_capacity w))"

definition init_ok :: "atc_hdlc_params_t \<Rightarrow> bool" where
  "init_ok p = (case (p_config p, p_platform p, p_rx_buf p) of
       (Some cfg, Some plt, Some rb) \<Rightarrow> has_on_send plt \<and> buffer rb \<noteq> None \<and> mode cfg = ATC_HDLC_MODE_ABM
         \<and> unat (max_info_size cfg) + 4 \<le> unat (capacity rb) \<and> window_ok (max_info_size cfg) (p_tx_window p)
     | _ \<Rightarrow> False)"

lemma txwin_error_iff: "txwin_error cfg w = None \<longleftrightarrow> window_ok (max_info_size cfg) w"
proof (cases w)
  case (Some x)
  have "slot_count x < 1 \<longleftrightarrow> \<not> 1 \<le> unat (slot_count x)" "slot_count x > 7 \<longleftrightarrow> \<not> unat (slot_count x) \<le> 7"
    "slot_capacity x < max_info_size cfg \<longleftrightarrow> \<not> unat (max_info_size cfg) \<le> unat (slot_capacity x)"
    by (auto simp: word_less_nat_alt)
  with Some show ?thesis
    by (auto simp: txwin_error_def window_ok_def is_null_def split: option.splits)
qed (simp add: txwin_error_def window_ok_def)

lemma init_checks:
  assumes "\<forall>cfg. p_config p = Some cfg \<longrightarrow> unat (max_info_size cfg) + 4 < 2 ^ 32"
  shows "case atc_hdlc_init c p of (d, e) \<Rightarrow> (e = ATC_HDLC_OK \<longleftrightarrow> init_ok p)
     \<and> (if init_ok p then current_state d = ATC_HDLC_STATE_DISCONNECTED \<and> config d = p_config p
            \<and> vs d = 0 \<and> vr d = 0 \<and> va d = 0 \<and> n2 d = 0 \<and> flags d = 0 \<and> rx_state d = RX_HUNT \<and> rx_index d = 0
            \<and> trace d = trace c
          else d = c)"
proof (cases "\<exists>cfg plt rb. p_config p = Some cfg \<and> p_platform p = Some plt \<and> p_rx_buf p = Some rb")
  case True
  then obtain cfg plt rb where p: "p_config p = Some cfg" "p_platform p = Some plt" "p_rx_buf p = Some rb"
    by blast
  let ?min = "max_info_size cfg + word_of_nat ADDR_LEN + word_of_nat CTRL_LEN + word_of_nat FCS_LEN"
  have "?min = max_info_size cfg + 4" by (simp add: hdlc_len_defs)
  moreover have "unat (max_info_size cfg + 4) = unat (max_info_size cfg) + 4"
    using assms p(1) by (simp add: unat_word_ariths)
  ultimately have m: "unat ?min = unat (max_info_size cfg) + 4" by (simp only:)
  have "capacity rb < ?min \<or> capacity rb < word_of_nat MIN_FRAME_LEN
      \<longleftrightarrow> \<not> unat (max_info_size cfg) + 4 \<le> unat (capacity rb)"
    unfolding word_less_nat_alt m by (auto simp: hdlc_len_defs)
  moreover have "is_null (buffer rb) \<longleftrightarrow> buffer rb = None"
    by (simp add: is_null_def split: option.split)
  ultimately have ok: "init_ok p \<longleftrightarrow> has_on_send plt \<and> \<not> is_null (buffer rb) \<and> mode cfg = ATC_HDLC_MODE_ABM
       \<and> \<not> (capacity rb < ?min \<or> capacity rb < word_of_nat MIN_FRAME_LEN)
       \<and> txwin_error cfg (p_tx_window p) = None"
    using p by (auto simp: init_ok_def txwin_error_iff)
  show ?thesis
  proof (cases "init_ok p")
    case True
    then show ?thesis using ok p unfolding atc_hdlc_init_def Let_def by (simp add: zero_ctx_def)
  next
    case False
    with ok p txwin_error_fails [of cfg "p_tx_window p"] show ?thesis
      unfolding atc_hdlc_init_def Let_def by (cases "txwin_error cfg (p_tx_window p)") (simp_all, blast+)
  qed
next
  case False
  then show ?thesis
    by (cases "p_config p"; cases "p_platform p"; cases "p_rx_buf p") (simp_all add: atc_hdlc_init_def init_ok_def)
qed

text \<open>C30 \<open>atc_hdlc_init\<close> accepts exactly the parameters that pass its checks: configuration, platform
  with \<open>on_send\<close>, receive buffer and its storage set, ABM, a receive buffer for \<open>max_info_size\<close> and four
  octets of overhead, and if there is a window, one to seven slots each holding \<open>max_info_size\<close>; all
  this under the hypothesis that \<open>max_info_size\<close> plus the overhead does not pass 32 bits. The
  documented \<open>t2_ms < t1_ms\<close> is not among the checks: parameters that differ from accepted ones only in
  the two times are accepted too. When it refuses, the context is not touched; when it accepts, the
  station is disconnected with its sequence variables, flags and receiver reset and no callback made.
  A \<open>NULL\<close> context is refused with \<open>BAD_PARAM\<close> whatever the parameters.\<close>

theorem init_accepts:
  assumes "\<forall>cfg. p_config p = Some cfg \<longrightarrow> unat (max_info_size cfg) + 4 < 2 ^ 32"
  shows "(case atc_hdlc_init c p of (d, e) \<Rightarrow> (e = ATC_HDLC_OK \<longleftrightarrow> init_ok p)
     \<and> (if init_ok p then current_state d = ATC_HDLC_STATE_DISCONNECTED \<and> config d = p_config p
            \<and> vs d = 0 \<and> vr d = 0 \<and> va d = 0 \<and> n2 d = 0 \<and> flags d = 0 \<and> rx_state d = RX_HUNT \<and> rx_index d = 0
            \<and> trace d = trace c
          else d = c)
     \<and> hdlc_api (Some c) (Init p) = Some (Some d, Returned (Result e)))
   \<and> hdlc_api None (Init p) = Some (None, Returned (Result ATC_HDLC_ERR_BAD_PARAM))
   \<and> (init_ok (p\<lparr>p_config := map_option (\<lambda>cfg. cfg\<lparr>t1_ms := t1, t2_ms := t2\<rparr>) (p_config p)\<rparr>) \<longleftrightarrow> init_ok p)"
proof -
  have "init_ok (p\<lparr>p_config := map_option (\<lambda>cfg. cfg\<lparr>t1_ms := t1, t2_ms := t2\<rparr>) (p_config p)\<rparr>) \<longleftrightarrow> init_ok p"
    by (simp add: init_ok_def split: option.split)
  with init_checks [OF assms, of c] show ?thesis
    by (cases "atc_hdlc_init c p") (simp add: hdlc_api_def)
qed

lemma init_accepts_witness:
  "snd (atc_hdlc_init static_ctx bm_params) = ATC_HDLC_OK \<and>
   atc_hdlc_init static_ctx (bm_params\<lparr>p_rx_buf := Some (bm_rx_buf\<lparr>capacity := 67\<rparr>)\<rparr>)
     = (static_ctx, snd (atc_hdlc_init static_ctx (bm_params\<lparr>p_rx_buf := Some (bm_rx_buf\<lparr>capacity := 67\<rparr>)\<rparr>)))
   \<and> snd (atc_hdlc_init static_ctx (bm_params\<lparr>p_config := Some (bm_cfg\<lparr>t1_ms := 10, t2_ms := 1000\<rparr>)\<rparr>)) = ATC_HDLC_OK"
proof -
  let ?p = "bm_params\<lparr>p_rx_buf := Some (bm_rx_buf\<lparr>capacity := 67\<rparr>)\<rparr>"
  let ?q = "bm_params\<lparr>p_config := Some (bm_cfg\<lparr>t1_ms := 10, t2_ms := 1000\<rparr>)\<rparr>"
  have ok: "init_ok bm_params" "\<not> init_ok ?p"
    by (simp_all add: init_ok_def window_ok_def bm_storage_defs)
  have small: "\<forall>cfg. p_config bm_params = Some cfg \<longrightarrow> unat (max_info_size cfg) + 4 < 2 ^ 32"
    "\<forall>cfg. p_config ?p = Some cfg \<longrightarrow> unat (max_info_size cfg) + 4 < 2 ^ 32"
    "\<forall>cfg. p_config ?q = Some cfg \<longrightarrow> unat (max_info_size cfg) + 4 < 2 ^ 32"
    by (simp_all add: bm_storage_defs)
  have "init_ok ?q"
    using ok(1) by (simp add: init_ok_def window_ok_def bm_storage_defs)
  moreover have "snd (atc_hdlc_init static_ctx bm_params) = ATC_HDLC_OK"
    using ok(1) init_accepts [OF small(1), of static_ctx 0 0] by (simp add: case_prod_beta)
  moreover have "fst (atc_hdlc_init static_ctx ?p) = static_ctx"
    using ok(2) init_accepts [OF small(2), of static_ctx 0 0] by (simp add: case_prod_beta)
  ultimately show ?thesis
    using init_accepts [OF small(3), of static_ctx 0 0] by (simp add: case_prod_beta prod_eq_iff)
qed

text \<open>C40 Without that bound on \<open>max_info_size\<close> the 32-bit sum wraps: with \<open>max_info_size\<close> at 2^32 - 1, a
  receive buffer of four octets is accepted.\<close>

theorem init_overflow:
  assumes "p_config p = Some cfg" "p_platform p = Some plt" "p_rx_buf p = Some rb" "p_tx_window p = None"
    and "has_on_send plt" "buffer rb \<noteq> None" "mode cfg = ATC_HDLC_MODE_ABM"
    and "max_info_size cfg = 0xFFFFFFFF" "capacity rb = 4"
  shows "snd (atc_hdlc_init c p) = ATC_HDLC_OK"
proof -
  have "is_null (buffer rb) \<longleftrightarrow> buffer rb = None"
    by (simp add: is_null_def split: option.split)
  with assms show ?thesis by (simp add: atc_hdlc_init_def hdlc_len_defs txwin_error_def Let_def)
qed

lemma init_overflow_witness:
  "snd (atc_hdlc_init static_ctx (bm_params\<lparr>p_config := Some (bm_cfg\<lparr>max_info_size := 0xFFFFFFFF\<rparr>),
     p_rx_buf := Some \<lparr>buffer = Some [0, 0, 0, 0], capacity = 4\<rparr>, p_tx_window := None\<rparr>)) = ATC_HDLC_OK"
  by (rule init_overflow [of _ "bm_cfg\<lparr>max_info_size := 0xFFFFFFFF\<rparr>" bm_platform
        "\<lparr>buffer = Some [0, 0, 0, 0], capacity = 4\<rparr>"]) (simp_all add: bm_storage_defs)

section \<open>Sending\<close>

text \<open>C17 \<open>atc_hdlc_transmit_i\<close> takes a payload exactly when the link is connected, the peer is not busy,
  there is a window, the payload fits and fewer frames than the window holds are outstanding. It then
  emits exactly one I-frame with that payload, N(S) = V(S) and N(R) = V(R), moves V(S) by one modulo 8
  and has T1 running and T2 stopped. Otherwise it returns the error of the first failing check and
  leaves the context as it was.\<close>

theorem transmit_i_correct:
  assumes "reachable c" "readable data len"
  shows "(case tx_error c len of
     Some e \<Rightarrow> atc_hdlc_transmit_i c data len = Some (c, e) \<and> e \<noteq> ATC_HDLC_OK
   | None \<Rightarrow> (\<exists>d. atc_hdlc_transmit_i c data len = Some (d, ATC_HDLC_OK)
       \<and> line_octets (new_calls c d) =
           frame_octets (drv c) (peer_address c) (I_CTRL (vs c) (vr c) 0) (payload data len)
       \<and> vs d = mod8_succ (vs c) \<and> va d = va c \<and> vr d = vr c \<and> current_state d = ATC_HDLC_STATE_CONNECTED
       \<and> CTX_FLAG d HDLC_F_T1_ACTIVE \<and> \<not> CTX_FLAG d HDLC_F_T2_ACTIVE))"
proof -
  have c: "core c" "\<not> pending c" using reachable_settled [OF assms(1)] by (simp_all add: settled_def)
  show ?thesis
  proof (cases "tx_error c len")
    case None
    then obtain w where w: "tx_window c = Some w" "current_state c = ATC_HDLC_STATE_CONNECTED"
      by (auto simp: tx_error_def split: if_splits)
    moreover have "vs c \<noteq> va c \<Longrightarrow> CTX_FLAG c HDLC_F_T1_ACTIVE"
      using reachable_t1 [OF assms(1)] c(2) w by (auto simp: t1_live_def)
    moreover have "new_calls c (sent_ctx c p len) = sent_calls c p" for p
      by (simp add: sent_ctx_def sent_fields_def split: option.split)
    ultimately show ?thesis
      using None transmit_i_spec [OF c(1) assms(2)]
      by (auto simp: sent_ctx_def sent_fields_def sent_calls_def)
  next
    case (Some e)
    then have "e \<noteq> ATC_HDLC_OK" by (auto simp: tx_error_def split: if_splits)
    with Some transmit_i_spec [OF c(1) assms(2)] show ?thesis by simp
  qed
qed

lemma transmit_i_correct_witness:
  "\<exists>d. atc_hdlc_transmit_i bm_up (Some [0x41, 0x7E]) 2 = Some (d, ATC_HDLC_OK)
     \<and> line_octets (new_calls bm_up d) = frame_octets atc_hdlc_crc_ops_default 0x02 0x00 [0x41, 0x7E]"
proof -
  have "readable (Some [0x41, 0x7E :: u8]) 2" by (simp add: readable_def)
  moreover have "tx_error bm_up 2 = None"
    using bm_up_open by (simp add: tx_error_def bm_up_run)
  ultimately show ?thesis
    using transmit_i_correct [OF bm_up_run(2), of "Some [0x41, 0x7E]" 2]
    by (auto simp: bm_up_run I_CTRL_def payload_def)
qed

text \<open>C39 A null payload with a length is not refused by \<open>atc_hdlc_transmit_i\<close>, unlike by
  \<open>atc_hdlc_transmit_ui\<close> and \<open>atc_hdlc_transmit_test\<close>: when the payload would be taken, the call
  dereferences the null pointer.\<close>

theorem transmit_i_null_undefined:
  assumes "reachable c" "tx_error c len = None" "0 < len"
  shows "atc_hdlc_transmit_i c None len = None"
proof -
  have c: "core c" using reachable_settled [OF assms(1)] by (simp add: settled_def)
  obtain w where w: "tx_window c = Some w" "current_state c = ATC_HDLC_STATE_CONNECTED"
      "\<not> CTX_FLAG c HDLC_F_REMOTE_BUSY" "\<not> too_long c len" "tx_open c"
    using assms(2) by (auto simp: tx_error_def tx_fits_def split: if_splits option.splits)
  obtain k where k: "unat len = Suc k" using assms(3) by (metis not0_implies_Suc unat_eq_zero word_neq_0_conv)
  have "emit_loop d None 0 (unat len) = None" for d unfolding k by simp
  then have frame: "frame_send d addr ctrl None len = None" for d addr ctrl
    by (simp add: frame_send_def)
  have seq: "unat (vs c) < 8" "unat (va c) < 8" using coreD(2) [OF c] by (simp_all add: seq_ok_def)
  have "\<not> slot_count w \<le> mod8_dist (vs c) (va c)"
    using w(1,5) seq by (simp add: tx_open_def out_count_def word_le_nat_alt dist8_word)
  with w show ?thesis
    by (simp add: atc_hdlc_transmit_i_def Let_def frame)
qed

lemma transmit_i_null_undefined_witness: "atc_hdlc_transmit_i bm_up None 2 = None"
  by (rule transmit_i_null_undefined [OF bm_up_run(2)]) (use bm_up_open in \<open>simp_all add: tx_error_def bm_up_run\<close>)

section \<open>Local busy\<close>

text \<open>C36 Asserting local busy sends nothing: the peer learns of it only from the next acknowledgement.
  Clearing it sends exactly one RR with V(R). Outside the connected state the call is refused.\<close>

theorem local_busy_signals:
  assumes "core c"
  shows "(case atc_hdlc_set_local_busy c busy of None \<Rightarrow> False | Some (d, e) \<Rightarrow>
     if current_state c \<noteq> ATC_HDLC_STATE_CONNECTED then d = c \<and> e = ATC_HDLC_ERR_BAD_STATE
     else e = ATC_HDLC_OK \<and> CTX_FLAG d HDLC_F_LOCAL_BUSY = busy \<and> line_octets (new_calls c d) =
       (if \<not> busy \<and> CTX_FLAG c HDLC_F_LOCAL_BUSY
        then frame_octets (drv c) (peer_address c) (S_CTRL S_RR (vr c) 0) [] else []))"
  using assms by (simp add: atc_hdlc_set_local_busy_def Let_def hdlc_run new_calls_def)

lemma local_busy_signals_witness:
  "\<exists>d. atc_hdlc_set_local_busy bm_up True = Some (d, ATC_HDLC_OK) \<and> line_octets (new_calls bm_up d) = []"
  using local_busy_signals [OF bm_core(3), of True] by (auto simp: bm_up_run split: option.splits)

section \<open>Test frames\<close>

text \<open>C32 A connected station answers a TEST command with exactly one TEST response that carries the
  same information field and the F bit of the command's P bit, and delivers nothing.\<close>

theorem test_echoed:
  assumes "core c" "current_state c = ATC_HDLC_STATE_CONNECTED" "info_ok info n"
    and "is_uframe ctrl" "ctrl AND NOT PF_BIT = U_TEST"
  shows "\<exists>d. dispatch_frame c (my_address c) ctrl info n = Some d \<and> new_calls c d =
     frame_calls (drv c) (my_address c) (U_CTRL U_TEST (CTRL_PF ctrl)) (payload info (ucast n))"
proof -
  have r: "readable info (ucast n)"
    using assms(3) by (auto simp: info_ok_def readable_def split: option.splits)
  have "dispatch_frame c (my_address c) ctrl info n
      = frame_send c (my_address c) (U_CTRL U_TEST (CTRL_PF ctrl)) info (ucast n)"
    using assms not_uframe_U(1,2) [OF assms(4)]
    by (simp add: dispatch_frame_def state_connected_def handle_uframe_def Let_def is_cmd_def)
  with assms(1) r show ?thesis by (simp add: frame_send_payload)
qed

lemma test_echoed_witness:
  "\<exists>d. dispatch_frame bm_up 0x01 0xF3 (Some [0x41, 0x42]) 2 = Some d
    \<and> line_octets (new_calls bm_up d) = frame_octets atc_hdlc_crc_ops_default 0x01 0xF3 [0x41, 0x42]"
proof -
  have t: "is_uframe 0xF3" "(0xF3 :: u8) AND NOT PF_BIT = U_TEST" "CTRL_PF 0xF3 = 1"
    by (simp_all add: is_uframe_def PF_BIT_def U_TEST_def CTRL_PF_def)
  then show ?thesis
    using test_echoed [OF bm_core(3) bm_up_run(3) _ t(1,2), of "Some [0x41, 0x42]" 2]
    by (auto simp: bm_up_run info_ok_def payload_def U_CTRL_def U_TEST_def PF_BIT_def)
qed

end
