(* ===== verification/Hdlc_Window.thy ===== *)
theory Hdlc_Window
  imports Hdlc_Service
begin

text \<open>
  The transmit window as a queue: \<open>unacked\<close> reads the ring of slots back as the list of payloads
  sent and not acknowledged. Sending appends to it, an acknowledgement drops a prefix, and a
  retransmission emits exactly its payloads in order. The queue is stated as an interface
  (\<open>payload_queue\<close>) and interpreted on the context.
\<close>

section \<open>Slots as a queue\<close>

text \<open>
  The payloads of the frames sent and not acknowledged, oldest first: \<open>n\<close> slots ending before
  \<open>nxt\<close> in a ring of \<open>m\<close>.
\<close>

definition ring_index :: "nat \<Rightarrow> nat \<Rightarrow> nat \<Rightarrow> nat \<Rightarrow> nat" where
  "ring_index m nxt n k = (nxt + m - n + k) mod m"

definition window_queue :: "atc_hdlc_txwin_t \<Rightarrow> nat \<Rightarrow> nat \<Rightarrow> u8 list list" where
  "window_queue w nxt n = map (\<lambda>k. slot_payload w (ring_index (unat (slot_count w)) nxt n k)) [0..<n]"

definition unacked :: "atc_hdlc_ctx_t \<Rightarrow> u8 list list" where
  "unacked c = (case tx_window c of None \<Rightarrow> []
     | Some w \<Rightarrow> window_queue w (unat (tx_next_slot c)) (out_count c))"

lemma ring_index_succ:
  assumes "nxt < m" "n < m"
  shows "ring_index m ((nxt + 1) mod m) (Suc n) k = ring_index m nxt n k"
proof -
  have "(nxt + 1) mod m + m - Suc n + k = (nxt + 1) mod m + (m - Suc n + k)"
    using assms by simp
  then have "ring_index m ((nxt + 1) mod m) (Suc n) k = ((nxt + 1) mod m + (m - Suc n + k)) mod m"
    by (simp only: ring_index_def)
  also have "\<dots> = (nxt + 1 + (m - Suc n + k)) mod m" by (rule mod_add_left_eq)
  also have "nxt + 1 + (m - Suc n + k) = nxt + m - n + k" using assms by simp
  finally show ?thesis by (simp add: ring_index_def)
qed

lemma ring_index_next: "nxt < m \<Longrightarrow> n < m \<Longrightarrow> ring_index m nxt n n = nxt"
  by (simp add: ring_index_def)

lemma ring_index_old:
  assumes "nxt < m" "n < m" "k < n"
  shows "ring_index m nxt n k \<noteq> nxt"
proof -
  define e where "e = n - k"
  have e: "0 < e" "e < m" using assms by (simp_all add: e_def)
  have "nxt + m - n + k = nxt + m - e" using assms by (simp add: e_def)
  moreover have "(nxt + m - e) mod m = (if e \<le> nxt then nxt - e else nxt + m - e)"
    using assms(1) e by (simp add: mod_if)
  ultimately show ?thesis using e assms(1) by (auto simp: ring_index_def)
qed

lemma ring_index_drop: "d \<le> n \<Longrightarrow> n \<le> nxt + m \<Longrightarrow> ring_index m nxt (n - d) k = ring_index m nxt n (d + k)"
  by (simp add: ring_index_def add.assoc)

lemma take_drop_splice:
  assumes "a + length p \<le> length ss" "off + n \<le> a \<or> a + length p \<le> off" "off + n \<le> length ss"
  shows "take n (drop off (take a ss @ p @ drop (a + length p) ss)) = take n (drop off ss)"
  using assms(2)
proof
  assume "off + n \<le> a"
  with assms(1) show ?thesis by (simp add: drop_take)
next
  assume "a + length p \<le> off"
  with assms(1) show ?thesis by simp
qed

lemma slot_payload_fill:
  assumes "win_geom w" "lens_ok w" "i < slot_count w" "unat len = length p" "len \<le> slot_capacity w"
    and "j < unat (slot_count w)"
  shows "slot_payload (fill_slot w i p len) j = (if j = unat i then p else slot_payload w j)"
proof -
  obtain ss ls where s: "slots w = Some ss" "slot_lens w = Some ls"
    using win_geom_lens [OF assms(1)] by blast
  let ?c = "unat (slot_capacity w)" and ?m = "unat (slot_count w)"
  have g: "?m \<le> length ls" "?m * ?c \<le> length ss"
    using assms(1) s by (simp_all add: win_geom_def)
  have i: "unat i < ?m" using assms(3) by (simp add: word_less_nat_alt)
  have len: "length p \<le> ?c" using assms(4,5) by (simp add: word_le_nat_alt)
  have room: "k * ?c + ?c \<le> length ss" if "k < ?m" for k
    using that g(2) by (metis Suc_leI add.commute le_trans mult_Suc mult_le_mono1)
  show ?thesis
  proof (cases "j = unat i")
    case True
    with s i g room [OF i] len assms(4) show ?thesis by (simp add: slot_payload_def)
  next
    case False
    have "take ?m ls ! j \<le> slot_capacity w"
      using assms(2,6) s g(1) by (simp add: lens_ok_def list_all_length)
    then have lj: "unat (ls ! j) \<le> ?c" using assms(6) by (simp add: word_le_nat_alt)
    have far: "j * ?c + ?c \<le> unat i * ?c \<or> unat i * ?c + ?c \<le> j * ?c"
      using False by (metis Suc_leI add.commute linorder_neqE_nat mult_Suc mult_le_mono1)
    have "take (unat (ls ! j)) (drop (j * ?c) (take (unat i * ?c) ss @ p @ drop (unat i * ?c + length p) ss))
        = take (unat (ls ! j)) (drop (j * ?c) ss)"
      using room [OF i] room [OF assms(6)] far len lj by (intro take_drop_splice) auto
    with False s show ?thesis by (simp add: slot_payload_def)
  qed
qed

lemma unat_ring_succ:
  assumes "i < slot_count w"
  shows "unat (ring_succ w i) = (unat i + 1) mod unat (slot_count w)"
proof -
  have i: "unat i < unat (slot_count w)" using assms by (simp add: word_less_nat_alt)
  have s: "unat (i + 1) = Suc (unat i)" using assms by (rule unat_succ)
  have "i + 1 = slot_count w \<longleftrightarrow> Suc (unat i) = unat (slot_count w)"
    using s by (metis word_unat_eq_iff)
  with i s show ?thesis by (simp add: ring_succ_def)
qed

section \<open>Sending appends\<close>

lemma unacked_length: "core c \<Longrightarrow> length (unacked c) = out_count c"
  using coreD(3) [of c] by (auto simp: unacked_def window_queue_def tx_ok_def out_count_def split: option.splits)

lemma window_queue_fill:
  assumes "win_geom w" "lens_ok w" "i < slot_count w" "unat len = length p" "len \<le> slot_capacity w"
    and "n < unat (slot_count w)"
  shows "window_queue (fill_slot w i p len) (unat (ring_succ w i)) (Suc n) = window_queue w (unat i) n @ [p]"
proof -
  let ?m = "unat (slot_count w)"
  have i: "unat i < ?m" using assms(3) by (simp add: word_less_nat_alt)
  have "0 < ?m" using i by simp
  then have idx: "ring_index ?m (unat i) n k < ?m" for k by (simp add: ring_index_def)
  have old: "slot_payload (fill_slot w i p len) (ring_index ?m (unat i) n k)
      = (if k = n then p else slot_payload w (ring_index ?m (unat i) n k))" if "k \<le> n" for k
    using that slot_payload_fill [OF assms(1-5) idx] ring_index_next [OF i assms(6)]
      ring_index_old [OF i assms(6), of k] by auto
  have "window_queue (fill_slot w i p len) (unat (ring_succ w i)) (Suc n)
      = map (\<lambda>k. slot_payload (fill_slot w i p len) (ring_index ?m (unat i) n k)) [0..<Suc n]"
    using ring_index_succ [OF i assms(6)] by (simp add: window_queue_def unat_ring_succ [OF assms(3)])
  also have "\<dots> = map (\<lambda>k. if k = n then p else slot_payload w (ring_index ?m (unat i) n k)) [0..<Suc n]"
    by (rule map_cong [OF refl]) (simp only: set_upt atLeastLessThan_iff less_Suc_eq_le old)
  also have "\<dots> = window_queue w (unat i) n @ [p]" by (simp add: window_queue_def)
  finally show ?thesis .
qed

lemma unacked_fields [simp]:
  "unacked (say c xs) = unacked c" "unacked (CTX_SET c f) = unacked c" "unacked (CTX_CLR c f) = unacked c"
  by (simp_all add: unacked_def out_count_def cong: option.case_cong)

lemma unacked_cong:
  "tx_window d = tx_window c \<Longrightarrow> tx_next_slot d = tx_next_slot c \<Longrightarrow> vs d = vs c \<Longrightarrow> va d = va c \<Longrightarrow>
   unacked d = unacked c"
  by (simp add: unacked_def out_count_def cong: option.case_cong)

lemma sent_unacked:
  assumes "core c" "tx_error c len = None" "unat len = length p"
  shows "unacked (sent_ctx c p len) = unacked c @ [p]"
proof -
  obtain w where w: "tx_window c = Some w" "out_count c < unat (slot_count w)" "len \<le> slot_capacity w"
      "current_state c = ATC_HDLC_STATE_CONNECTED"
    using assms(2) by (auto simp: tx_error_def tx_open_def tx_fits_def split: if_splits option.splits)
  have tx: "win_geom w" "tx_next_slot c < slot_count w" "lens_ok w"
    using coreD(3) [OF assms(1)] w by (auto simp: tx_ok_def)
  have seq: "unat (vs c) < 8" "unat (va c) < 8"
    using coreD(2) [OF assms(1)] by (simp_all add: seq_ok_def)
  have "unat (slot_count w) \<le> 7"
    using tx(1) by (auto simp: win_geom_def split: option.splits)
  then have "dist8 (mod8_succ (vs c)) (va c) = Suc (out_count c)"
    using seq w(2) by (simp add: dist8_succ out_count_def)
  then have "unacked (sent_fields c p len) = unacked c @ [p]"
    using w window_queue_fill [OF tx(1,3,2) assms(3) w(3,2)] by (simp add: unacked_def sent_fields_def out_count_def)
  then show ?thesis by (simp add: sent_ctx_def)
qed

section \<open>Acknowledging drops\<close>

lemma acked_unacked:
  assumes "core c" "acceptable c nr"
  shows "unacked (acked_fields c nr) = drop (dist8 nr (va c)) (unacked c)"
proof (cases "tx_window c")
  case None
  then show ?thesis by (simp add: unacked_def)
next
  case (Some w)
  let ?d = "dist8 nr (va c)" and ?n = "out_count c" and ?m = "unat (slot_count w)"
  have seq: "unat (vs c) < 8" "unat (va c) < 8"
    using coreD(2) [OF assms(1)] by (simp_all add: seq_ok_def)
  have d: "unat nr < 8" "?d \<le> ?n" using assms(2) by (simp_all add: acceptable_def)
  have n: "?n \<le> ?m" using coreD(3) [OF assms(1)] Some by (simp add: tx_ok_def)
  have "dist8 (vs c) nr = ?n - ?d"
    using dist8_ack [OF seq(2,1) d(1)] d(2) by (simp add: out_count_def)
  then have "out_count (acked_fields c nr) = ?n - ?d" by (simp add: out_count_def)
  moreover have "window_queue w nxt (?n - ?d) = drop ?d (window_queue w nxt ?n)" for nxt
    
  proof (rule nth_equalityI)
    fix i assume "i < length (window_queue w nxt (?n - ?d))"
    then have "?d + i < ?n" by (simp add: window_queue_def)
    with d(2) n show "window_queue w nxt (?n - ?d) ! i = drop ?d (window_queue w nxt ?n) ! i"
      by (simp add: window_queue_def ring_index_drop)
  qed (simp add: window_queue_def)
  ultimately show ?thesis using Some by (simp add: unacked_def)
qed

lemma processed_unacked:
  assumes "core c" "acceptable c nr"
  shows "unacked (processed c nr) = drop (dist8 nr (va c)) (unacked c)"
proof -
  have "unacked (processed c nr) = unacked (acked_fields c nr)"
    by (rule unacked_cong) simp_all
  with acked_unacked [OF assms] show ?thesis by simp
qed

section \<open>Retransmission sends the queue\<close>

lemma retransmit_sends:
  assumes "core c" "pending c" "retransmit_from c = va c" "tx_window c = Some w"
  shows "\<exists>d xs. retransmit_outstanding c = Some d \<and> trace d = trace c @ xs \<and> line_octets xs = iframes c (va c) (unacked c)
    \<and> delivered xs = [] \<and> current_state d = current_state c \<and> unacked d = unacked c \<and> vs d = vs c \<and> va d = va c \<and> vr d = vr c
    \<and> CTX_FLAG d HDLC_F_T1_ACTIVE \<and> \<not> pending d \<and> retry_kept c d"
proof -
  have seq: "unat (vs c) < 8" "unat (va c) < 8"
    using coreD(2) [OF assms(1)] by (simp_all add: seq_ok_def)
  let ?m = "unat (slot_count w)" and ?n = "out_count c" and ?x = "tx_next_slot c"
  have n: "?n \<le> ?m" "?x < slot_count w" using coreD(3) [OF assms(1)] assms(4) by (simp_all add: tx_ok_def)
  have pos: "0 < ?m" using n(2) by (auto simp: word_less_nat_alt)
  have "retx_ok c" using assms(4) n seq assms(3) by (simp add: retx_ok_def out_count_def)
  then obtain fcs xs i where r: "retransmit_outstanding c = Some (say (CTX_SET (CTX_CLR c HDLC_F_RETRANSMIT_PENDING
       \<lparr>tx_crc := fcs, vs := vs c\<rparr>) HDLC_F_T1_ACTIVE) (xs @ t1_start_calls c))"
    "c_mod (uint ?x + uint (slot_count w) - uint (mod8_dist (vs c) (va c))) (uint (slot_count w)) = Some i"
    "delivered xs = []" "line_octets xs = iframes c (va c) (map (\<lambda>k. slot_payload w ((unat i + k) mod ?m)) [0..<?n])"
    using retransmit_outstanding_run [OF assms(1,2) _ assms(4)] assms(3) by (auto simp: out_count_def)
  have dist: "unat (mod8_dist (vs c) (va c)) = ?n" using seq by (simp add: dist8_word out_count_def)
  have i: "unat i = (unat ?x + ?m - ?n) mod ?m"
  proof -
    have "uint ?x + uint (slot_count w) - uint (mod8_dist (vs c) (va c)) = int (unat ?x + ?m - ?n)"
      using n(1) by (simp add: dist [symmetric] of_nat_diff del: dist)
    moreover obtain r where "c_mod (int (unat ?x + ?m - ?n)) (uint (slot_count w)) = Some r"
        "unat r = nat (int (unat ?x + ?m - ?n) mod uint (slot_count w))"
      using c_mod_slot [of "slot_count w" "int (unat ?x + ?m - ?n)"] pos by auto
    moreover have "int (unat ?x + ?m - ?n) mod uint (slot_count w) = int ((unat ?x + ?m - ?n) mod ?m)"
      by (simp only: zmod_int uint_nat)
    ultimately show ?thesis using r(2) by (simp only: option.inject nat_int)
  qed
  have "map (\<lambda>k. slot_payload w ((unat i + k) mod ?m)) [0..<?n] = unacked c"
    using assms(4) by (simp add: unacked_def window_queue_def ring_index_def i mod_simps)
  moreover have "unacked (CTX_CLR c HDLC_F_RETRANSMIT_PENDING\<lparr>tx_crc := fcs, vs := vs c\<rparr>) = unacked c"
    by (rule unacked_cong) simp_all
  ultimately show ?thesis using r by simp
qed

section \<open>The window as an interface\<close>

datatype 'a queue_op = Put 'a | Release nat

text \<open>What a sequence of operations puts in, and how much it releases.\<close>

fun puts :: "'a queue_op list \<Rightarrow> 'a list" where
  "puts [] = []"
| "puts (Put x # ops) = x # puts ops"
| "puts (Release n # ops) = puts ops"

fun released :: "'a queue_op list \<Rightarrow> nat" where
  "released [] = 0"
| "released (Put x # ops) = released ops"
| "released (Release n # ops) = n + released ops"

locale payload_queue =
  fixes items :: "'s \<Rightarrow> 'a list" and room :: "'s \<Rightarrow> nat" and ok :: "'s \<Rightarrow> bool"
    and fits :: "'s \<Rightarrow> 'a \<Rightarrow> bool" and put :: "'s \<Rightarrow> 'a \<Rightarrow> 's" and release :: "'s \<Rightarrow> nat \<Rightarrow> 's"
  assumes bounded: "ok s \<Longrightarrow> length (items s) \<le> room s"
    and put_law: "ok s \<Longrightarrow> fits s x \<Longrightarrow> length (items s) < room s \<Longrightarrow>
      ok (put s x) \<and> items (put s x) = items s @ [x] \<and> room (put s x) = room s"
    and release_law: "ok s \<Longrightarrow> n \<le> length (items s) \<Longrightarrow>
      ok (release s n) \<and> items (release s n) = drop n (items s) \<and> room (release s n) = room s"
begin

fun perform :: "'s \<Rightarrow> 'a queue_op list \<Rightarrow> 's" where
  "perform s [] = s"
| "perform s (Put x # ops) = perform (put s x) ops"
| "perform s (Release n # ops) = perform (release s n) ops"

fun possible :: "'s \<Rightarrow> 'a queue_op list \<Rightarrow> bool" where
  "possible s [] = True"
| "possible s (Put x # ops) \<longleftrightarrow> fits s x \<and> length (items s) < room s \<and> possible (put s x) ops"
| "possible s (Release n # ops) \<longleftrightarrow> n \<le> length (items s) \<and> possible (release s n) ops"

lemma perform_items:
  "ok s \<Longrightarrow> possible s ops \<Longrightarrow> ok (perform s ops) \<and> room (perform s ops) = room s
     \<and> items (perform s ops) = drop (released ops) (items s @ puts ops)"
proof (induction ops arbitrary: s rule: puts.induct)
  case (2 x ops)
  then show ?case using put_law [of s x] by (simp del: drop_append)
next
  case (3 n ops)
  then show ?case using release_law [of s n] by (simp add: add.commute)
qed simp

end

definition win_ok :: "atc_hdlc_ctx_t \<Rightarrow> bool" where
  "win_ok c \<longleftrightarrow> core c \<and> tx_window c \<noteq> None \<and> current_state c = ATC_HDLC_STATE_CONNECTED
     \<and> \<not> CTX_FLAG c HDLC_F_REMOTE_BUSY"

definition win_room :: "atc_hdlc_ctx_t \<Rightarrow> nat" where
  "win_room c = (case tx_window c of None \<Rightarrow> 0 | Some w \<Rightarrow> unat (slot_count w))"

definition win_fits :: "atc_hdlc_ctx_t \<Rightarrow> u8 list \<Rightarrow> bool" where
  "win_fits c p \<longleftrightarrow> length p < 2 ^ 32 \<and> tx_fits c (word_of_nat (length p))"

definition win_put :: "atc_hdlc_ctx_t \<Rightarrow> u8 list \<Rightarrow> atc_hdlc_ctx_t" where
  "win_put c p = sent_ctx c p (word_of_nat (length p))"

definition win_release :: "atc_hdlc_ctx_t \<Rightarrow> nat \<Rightarrow> atc_hdlc_ctx_t" where
  "win_release c n = processed c (word_of_nat ((unat (va c) + n) mod 8))"

lemma win_put_law:
  assumes "win_ok c" "win_fits c p" "length (unacked c) < win_room c"
  shows "win_ok (win_put c p) \<and> unacked (win_put c p) = unacked c @ [p] \<and> win_room (win_put c p) = win_room c
    \<and> tx_error c (word_of_nat (length p)) = None"
proof -
  let ?n = "word_of_nat (length p) :: u32"
  have n: "unat ?n = length p" using assms(2) by (simp add: win_fits_def unat_of_nat take_bit_nat_eq_self)
  have c: "core c" using assms(1) by (simp add: win_ok_def)
  have room: "tx_open c"
    using assms(1,3) c by (auto simp: tx_open_def win_room_def win_ok_def unacked_length)
  then have e: "tx_error c ?n = None"
    using assms(1,2) by (simp add: tx_error_def win_ok_def win_fits_def)
  have "core (sent_fields c p ?n)"
    using assms(1,2) c room n by (intro sent_core) (simp_all add: win_ok_def win_fits_def)
  then have "core (win_put c p)" by (simp add: win_put_def sent_ctx_def)
  moreover have "tx_window (win_put c p) \<noteq> None \<and> current_state (win_put c p) = current_state c
      \<and> CTX_FLAG (win_put c p) HDLC_F_REMOTE_BUSY = CTX_FLAG c HDLC_F_REMOTE_BUSY
      \<and> win_room (win_put c p) = win_room c"
    using assms(1) by (auto simp: win_put_def sent_ctx_def sent_fields_def win_ok_def win_room_def)
  ultimately show ?thesis
    using sent_unacked [OF c e n] e assms(1) by (simp add: win_ok_def win_put_def)
qed

lemma dist8_plus: "unat a < 8 \<Longrightarrow> n < 8 \<Longrightarrow> dist8 (word_of_nat ((unat a + n) mod 8)) a = n"
  by (auto simp: dist8_def unat_of_nat take_bit_nat_eq_self mod_if)

lemma win_release_law:
  assumes "win_ok c" "n \<le> length (unacked c)"
  shows "win_ok (win_release c n) \<and> unacked (win_release c n) = drop n (unacked c)
    \<and> win_room (win_release c n) = win_room c"
proof -
  let ?nr = "word_of_nat ((unat (va c) + n) mod 8) :: u8"
  have c: "core c" using assms(1) by (simp add: win_ok_def)
  have va: "unat (va c) < 8" using coreD(2) [OF c] by (simp add: seq_ok_def)
  have n: "n \<le> out_count c" using assms(2) c by (simp add: unacked_length)
  also have "\<dots> < 8" by (simp add: out_count_def dist8_less)
  finally have d: "dist8 ?nr (va c) = n" using va by (intro dist8_plus)
  have "unat ?nr < 8" by (simp add: unat_of_nat take_bit_nat_eq_self)
  then have acc: "acceptable c ?nr" using d n by (simp add: acceptable_def)
  then show ?thesis
    using assms(1) d core_processed [OF c acc] processed_unacked [OF c acc]
    by (simp add: win_ok_def win_release_def win_room_def)
qed

interpretation window: payload_queue unacked win_room win_ok win_fits win_put win_release
proof
  fix c :: atc_hdlc_ctx_t
  assume "win_ok c"
  then show "length (unacked c) \<le> win_room c"
    using coreD(3) [of c] by (auto simp: win_ok_def win_room_def tx_ok_def unacked_length split: option.splits)
qed (use win_put_law win_release_law in auto)

text \<open>The code's operations on the window: take a payload, and process an N(R).\<close>

fun window_steps :: "atc_hdlc_ctx_t \<Rightarrow> u8 list queue_op list \<Rightarrow> atc_hdlc_ctx_t option" where
  "window_steps c [] = Some c"
| "window_steps c (Put p # ops) = do {
     (c, e) \<leftarrow> atc_hdlc_transmit_i c (Some p) (word_of_nat (length p));
     if e = ATC_HDLC_OK then window_steps c ops else None }"
| "window_steps c (Release n # ops) = do {
     c \<leftarrow> process_nr c (word_of_nat ((unat (va c) + n) mod 8));
     window_steps c ops }"

lemma window_steps_perform:
  "win_ok c \<Longrightarrow> window.possible c ops \<Longrightarrow> window_steps c ops = Some (window.perform c ops)"
proof (induction ops arbitrary: c rule: puts.induct)
  case (2 p ops)
  then have e: "tx_error c (word_of_nat (length p)) = None" and ok: "win_ok (win_put c p)"
    using win_put_law [of c p] by auto
  have "win_fits c p" using 2 by simp
  then have "unat (word_of_nat (length p) :: u32) = length p"
    by (simp add: win_fits_def unat_of_nat take_bit_nat_eq_self)
  then have "readable (Some p) (word_of_nat (length p))" "payload (Some p) (word_of_nat (length p)) = p"
    by (simp_all add: readable_def payload_def)
  then have "atc_hdlc_transmit_i c (Some p) (word_of_nat (length p)) = Some (win_put c p, ATC_HDLC_OK)"
    using 2 e by (simp add: win_ok_def transmit_i_spec win_put_def)
  with 2 ok show ?case by simp
next
  case (3 n ops)
  let ?nr = "word_of_nat ((unat (va c) + n) mod 8) :: u8"
  have c: "core c" "unat (va c) < 8" using 3 coreD(2) [of c] by (simp_all add: win_ok_def seq_ok_def)
  have n: "n \<le> out_count c" using 3 c by (simp add: unacked_length)
  also have "\<dots> < 8" by (simp add: out_count_def dist8_less)
  finally have "dist8 ?nr (va c) = n" using c(2) by (intro dist8_plus)
  then have "acceptable c ?nr" using n by (simp add: acceptable_def unat_of_nat take_bit_nat_eq_self)
  then have "process_nr c ?nr = Some (win_release c n)" using c by (simp add: process_nr_run win_release_def)
  with 3 win_release_law [of c n] show ?case by simp
qed simp

definition window_possible :: "atc_hdlc_ctx_t \<Rightarrow> u8 list queue_op list \<Rightarrow> bool" where
  "window_possible = window.possible"

lemma window_possible_simps [simp]:
  "window_possible c []"
  "window_possible c (Put p # ops) \<longleftrightarrow> win_fits c p \<and> length (unacked c) < win_room c \<and> window_possible (win_put c p) ops"
  "window_possible c (Release n # ops) \<longleftrightarrow> n \<le> length (unacked c) \<and> window_possible (win_release c n) ops"
  by (simp_all add: window_possible_def)

text \<open>C8 The transmit window is a queue of payloads. However sends and acknowledgements are
  interleaved, what the station keeps for retransmission is exactly what was taken and not yet
  acknowledged, in order; there is one entry per sequence number between V(A) and V(S), and never more
  than the window holds.\<close>

theorem window_refines_queue:
  assumes "win_ok c" "window_possible c ops"
  shows "\<exists>d. window_steps c ops = Some d \<and> win_ok d
     \<and> unacked d = drop (released ops) (unacked c @ puts ops)
     \<and> length (unacked d) = dist8 (vs d) (va d) \<and> length (unacked d) \<le> win_room c"
proof -
  let ?d = "window.perform c ops"
  have steps: "window_steps c ops = Some ?d"
    using assms by (intro window_steps_perform) (simp_all add: window_possible_def)
  have d: "win_ok ?d \<and> win_room ?d = win_room c \<and> unacked ?d = drop (released ops) (unacked c @ puts ops)"
    using assms by (intro window.perform_items) (simp_all add: window_possible_def)
  then have "length (unacked ?d) = dist8 (vs ?d) (va ?d)"
    using unacked_length [of ?d] by (auto simp: win_ok_def out_count_def)
  moreover have "length (unacked ?d) \<le> win_room ?d" using d by (intro window.bounded) simp
  ultimately show ?thesis using steps d by metis
qed

lemma window_refines_queue_witness:
  "\<exists>d. window_steps bm_up [Put [0x41], Release 1, Put [0x42, 0x43]] = Some d \<and> unacked d = [[0x42, 0x43]]"
proof -
  have ok: "win_ok bm_up" by (simp add: win_ok_def bm_core(3) bm_up_run)
  have none: "unacked bm_up = []" by (simp add: unacked_def window_queue_def out_count_def bm_up_run)
  have room: "win_room c = 1 \<Longrightarrow> win_room (win_put c p) = 1 \<and> win_room (win_release c n) = 1" for c p n
    by (auto simp: win_room_def win_put_def win_release_def sent_ctx_def sent_fields_def split: option.splits)
  have r: "win_room bm_up = 1" by (simp add: win_room_def bm_up_run bm_tx_win_def WINDOW_SIZE_def)
  have f: "win_fits bm_up [0x41]" by (simp add: win_fits_def tx_fits_def too_long_def bm_up_run bm_storage_defs)
  let ?c1 = "win_put bm_up [0x41]" and ?c2 = "win_release (win_put bm_up [0x41]) 1"
  have c1: "win_ok ?c1" "unacked ?c1 = [[0x41]]"
    using win_put_law [OF ok f] none r by auto
  have c2: "win_ok ?c2" "unacked ?c2 = []"
    using win_release_law [OF c1(1), of 1] c1 by auto
  have "win_fits ?c2 [0x42, 0x43]"
    by (simp add: win_fits_def tx_fits_def too_long_def bm_up_run bm_storage_defs win_put_def win_release_def
        sent_ctx_def sent_fields_def processed_def acked_fields_def cong: option.case_cong)
  then have "window_possible bm_up [Put [0x41], Release 1, Put [0x42, 0x43]]"
    using f none r c1 c2 room by simp
  from window_refines_queue [OF ok this] none show ?thesis by (auto simp del: window_steps.simps)
qed

section \<open>S-frames\<close>

text \<open>What an S-frame leaves alone, and calls that neither send nor deliver.\<close>

definition calm :: "callback list \<Rightarrow> bool" where
  "calm xs \<longleftrightarrow> line_octets xs = [] \<and> delivered xs = []"

lemma calm_simps [simp]:
  "calm []" "calm (xs @ ys) \<longleftrightarrow> calm xs \<and> calm ys" "calm (t1_start_calls c)" "calm (t1_stop_calls c)"
  "calm (t2_start_calls c)" "calm (t2_stop_calls c)" "calm (event_calls c ev)" "calm (acked_calls c nr)"
  by (auto simp: calm_def)

lemma processed_calm: "\<exists>xs. trace (processed c nr) = trace c @ xs \<and> calm xs"
  using processed_trace [of c nr] by (auto simp: calm_def)

definition sframe_keeps :: "atc_hdlc_ctx_t \<Rightarrow> atc_hdlc_ctx_t \<Rightarrow> bool" where
  "sframe_keeps c d \<longleftrightarrow> core d \<and> current_state d = current_state c \<and> vr d = vr c \<and> vs d = vs c \<and> drv d = drv c
     \<and> my_address d = my_address c \<and> peer_address d = peer_address c \<and> tx_window d = tx_window c
     \<and> tx_next_slot d = tx_next_slot c \<and> retry_kept c d"

lemma sframe_keeps_trans: "sframe_keeps c d \<Longrightarrow> sframe_keeps d e \<Longrightarrow> sframe_keeps c e"
  by (auto simp: sframe_keeps_def intro: retry_kept_trans)

text \<open>The answer to a polling S-command, and whether an S-frame asks for retransmission.\<close>

definition sframe_reply :: "atc_hdlc_ctx_t \<Rightarrow> u8 \<Rightarrow> u8 \<Rightarrow> u8 list" where
  "sframe_reply c addr ctrl = (if is_cmd c addr \<and> CTRL_PF ctrl \<noteq> 0
     then frame_octets (drv c) (my_address c) (S_CTRL S_RR (vr c) 1) [] else [])"

definition asks_again :: "atc_hdlc_ctx_t \<Rightarrow> u8 \<Rightarrow> u8 \<Rightarrow> bool" where
  "asks_again c addr ctrl \<longleftrightarrow> CTRL_S ctrl = S_REJ \<or> \<not> is_cmd c addr \<and> CTRL_PF ctrl \<noteq> 0"

lemma trigger_peer [simp]: "peer_address (trigger_retransmit c n) = peer_address c"
  by (simp add: trigger_retransmit_def)

lemma sframe_busy_calm:
  "core c \<Longrightarrow> runs (sframe_busy c s) (\<lambda>d. sframe_keeps c d \<and> va d = va c \<and> pending d = pending c
     \<and> (\<exists>xs. trace d = trace c @ xs \<and> calm xs))"
  by (simp add: sframe_busy_def Let_def hdlc_run sframe_keeps_def)

lemma sframe_answer_line:
  "core c \<Longrightarrow> runs (sframe_answer c addr ctrl) (\<lambda>d. sframe_keeps c d \<and> va d = va c \<and> pending d = pending c
     \<and> (\<exists>xs. trace d = trace c @ xs \<and> line_octets xs = sframe_reply c addr ctrl \<and> delivered xs = []))"
  by (simp add: sframe_answer_def Let_def hdlc_run sframe_keeps_def sframe_reply_def)

lemma sframe_body_line:
  assumes "core c" "acceptable c (CTRL_NR ctrl)" "current_state c = ATC_HDLC_STATE_CONNECTED" "\<not> pending c"
  shows "runs (sframe_body c ctrl) (\<lambda>d. sframe_keeps c d \<and> va d = CTRL_NR ctrl
     \<and> (pending d \<longleftrightarrow> CTRL_S ctrl = S_REJ \<and> CTRL_NR ctrl \<noteq> vs c) \<and> (pending d \<longrightarrow> retransmit_from d = va d)
     \<and> (\<exists>xs. trace d = trace c @ xs \<and> calm xs))"
proof (cases "CTRL_S ctrl = S_REJ")
  case True
  let ?nr = "CTRL_NR ctrl"
  let ?d = "say (CTX_CLR (acked_fields c ?nr) HDLC_F_T1_ACTIVE) (acked_calls c ?nr @ t1_stop_calls c)"
  have d: "core ?d" using core_acked [OF assms(1,2)] by simp
  have run: "sframe_body c ctrl = Some (if ?nr \<noteq> vs c then trigger_retransmit ?d ?nr else ?d)"
    using True assms by (simp add: sframe_body_def frames_acked_run hdlc_run)
  have "core (trigger_retransmit ?d ?nr)"
    using d assms(3) by (intro core_trigger core_win_good) simp_all
  moreover have "pending (trigger_retransmit ?d ?nr) \<and> retransmit_from (trigger_retransmit ?d ?nr) = ?nr"
    if "?nr \<noteq> vs c"
    using that no_window_idle [OF d] by (auto simp: trigger_retransmit_def)
  ultimately show ?thesis
    using d True assms(4) by (auto simp: run sframe_keeps_def)
next
  case False
  then show ?thesis
    using assms processed_calm [of c "CTRL_NR ctrl"]
    by (simp add: sframe_body_def process_nr_run sframe_keeps_def core_processed)
qed

lemma sframe_final_line:
  assumes "core c" "current_state c = ATC_HDLC_STATE_CONNECTED" "pending c \<longrightarrow> retransmit_from c = va c"
  shows "sframe_keeps c (sframe_final c addr ctrl)" "va (sframe_final c addr ctrl) = va c"
    "trace (sframe_final c addr ctrl) = trace c"
    "pending (sframe_final c addr ctrl) \<longleftrightarrow> pending c \<or> \<not> is_cmd c addr \<and> CTRL_PF ctrl \<noteq> 0 \<and> va c \<noteq> vs c"
    "pending (sframe_final c addr ctrl) \<longrightarrow> retransmit_from (sframe_final c addr ctrl) = va c"
proof -
  have "core (trigger_retransmit c (va c))"
    using assms by (intro core_trigger core_win_good)
  with assms(1) show "sframe_keeps c (sframe_final c addr ctrl)"
    by (simp add: sframe_final_def sframe_keeps_def)
  show "va (sframe_final c addr ctrl) = va c" "trace (sframe_final c addr ctrl) = trace c"
    by (simp_all add: sframe_final_def)
  show "pending (sframe_final c addr ctrl) \<longleftrightarrow> pending c \<or> \<not> is_cmd c addr \<and> CTRL_PF ctrl \<noteq> 0 \<and> va c \<noteq> vs c"
    using no_window_idle [OF assms(1)] by (auto simp: sframe_final_def trigger_retransmit_def)
  show "pending (sframe_final c addr ctrl) \<longrightarrow> retransmit_from (sframe_final c addr ctrl) = va c"
    using assms(3) by (auto simp: sframe_final_def trigger_retransmit_def)
qed

lemma handle_sframe_line:
  assumes "core c" "acceptable c (CTRL_NR ctrl)" "current_state c = ATC_HDLC_STATE_CONNECTED" "\<not> pending c"
  shows "runs (handle_sframe c addr ctrl) (\<lambda>d. sframe_keeps c d \<and> va d = CTRL_NR ctrl
     \<and> (pending d \<longleftrightarrow> asks_again c addr ctrl \<and> CTRL_NR ctrl \<noteq> vs c) \<and> (pending d \<longrightarrow> retransmit_from d = va d)
     \<and> (\<exists>xs. trace d = trace c @ xs \<and> line_octets xs = sframe_reply c addr ctrl \<and> delivered xs = []))"
proof -
  obtain c1 xs1 where c1: "sframe_busy c (CTRL_S ctrl) = Some c1" "sframe_keeps c c1" "va c1 = va c"
      "pending c1 = pending c" "trace c1 = trace c @ xs1" "calm xs1"
    using runs_Some_exists [OF sframe_busy_calm [OF assms(1)]] by blast
  then have core1: "core c1" by (simp add: sframe_keeps_def)
  obtain c2 xs2 where c2: "sframe_answer c1 addr ctrl = Some c2" "sframe_keeps c1 c2" "va c2 = va c1"
      "pending c2 = pending c1" "trace c2 = trace c1 @ xs2" "line_octets xs2 = sframe_reply c1 addr ctrl" "delivered xs2 = []"
    using runs_Some_exists [OF sframe_answer_line [OF core1]] by blast
  have keep: "sframe_keeps c c2" using c1(2) c2(2) by (rule sframe_keeps_trans)
  then have core2: "core c2" and same: "sframe_keeps c c2" "is_cmd c1 addr = is_cmd c addr"
      "sframe_reply c1 addr ctrl = sframe_reply c addr ctrl" "current_state c2 = ATC_HDLC_STATE_CONNECTED"
    using c1(2) assms(3) by (simp_all add: sframe_keeps_def is_cmd_def sframe_reply_def)
  have acc: "acceptable c2 (CTRL_NR ctrl)"
    using assms(2) acceptable_cong [of c2 c "CTRL_NR ctrl"] c1 c2 by (simp add: sframe_keeps_def)
  have np: "\<not> pending c2" using assms(4) c1 c2 by simp
  obtain e xs3 where e: "sframe_body c2 ctrl = Some e" "sframe_keeps c2 e" "va e = CTRL_NR ctrl"
      "pending e \<longleftrightarrow> CTRL_S ctrl = S_REJ \<and> CTRL_NR ctrl \<noteq> vs c2" "pending e \<longrightarrow> retransmit_from e = va e"
      "trace e = trace c2 @ xs3" "calm xs3"
    using runs_Some_exists [OF sframe_body_line [OF core2 acc same(4) np]] by blast
  then have ec: "core e" "current_state e = ATC_HDLC_STATE_CONNECTED" "is_cmd e addr = is_cmd c addr"
    using same by (simp_all add: sframe_keeps_def is_cmd_def)
  note f = sframe_final_line [OF ec(1,2) e(5), of addr ctrl]
  have "handle_sframe c addr ctrl = Some (sframe_final e addr ctrl)"
    using c1(1) c2(1) e(1) core2 acc same(2) ec(3)
    by (simp add: handle_sframe_stages sframe_answer_def validate_nr_run CTRL_NR_less sframe_final_def)
  moreover have "sframe_keeps c (sframe_final e addr ctrl)"
    using sframe_keeps_trans [OF sframe_keeps_trans [OF same(1) e(2)] f(1)] .
  moreover have "vs e = vs c" using e(2) same(1) by (simp add: sframe_keeps_def)
  ultimately show ?thesis
    using f(2-5) e ec(3) c1(5,6) c2(5-7) same(1,3) by (auto simp: calm_def asks_again_def sframe_keeps_def)
qed

lemma keeps_unacked:
  assumes "core c" "acceptable c nr" "sframe_keeps c d" "va d = nr"
  shows "unacked d = drop (dist8 nr (va c)) (unacked c)"
proof -
  have "unacked d = unacked (acked_fields c nr)"
    using assms(3,4) by (intro unacked_cong) (simp_all add: sframe_keeps_def)
  with acked_unacked [OF assms(1,2)] show ?thesis by simp
qed

lemma length_stuff: "length (stuff xs) \<le> 2 * length xs"
  by (induction xs) (simp_all add: escape_def)

lemma frame_octets_size:
  assumes "length info < 2 ^ 30"
  shows "unat (word_of_nat (length (frame_octets d addr ctrl info)) :: u32) = length (frame_octets d addr ctrl info)"
proof -
  have "length (frame_octets d addr ctrl info) \<le> 2 * (length info + 4) + 2"
    using length_stuff [of "frame_body d addr ctrl info"]
    by (simp add: frame_octets_def frame_body_def fcs_field_def del: stuff_simps)
  with assms show ?thesis by (simp add: unat_of_nat take_bit_nat_eq_self)
qed

text \<open>The receiver's fields do not matter to an S-frame.\<close>

lemma rx_frame_same:
  assumes "rx_frame c d"
  shows "unacked d = unacked c" "acceptable d nr = acceptable c nr" "is_cmd d addr = is_cmd c addr"
    "CTX_FLAG d f = CTX_FLAG c f" "drv d = drv c" "plat d = plat c"
    "sframe_reply d addr ctrl = sframe_reply c addr ctrl" "asks_again d addr ctrl = asks_again c addr ctrl"
    "iframes d v ps = iframes c v ps"
proof -
  note f = rx_frame_fields [OF assms]
  show u: "unacked d = unacked c" using f by (intro unacked_cong) simp_all
  show "acceptable d nr = acceptable c nr" using f by (intro acceptable_cong) simp_all
  show i: "is_cmd d addr = is_cmd c addr" using f by (simp add: is_cmd_def)
  show "CTX_FLAG d f = CTX_FLAG c f" using f by (simp add: CTX_FLAG_def)
  show p: "drv d = drv c" "plat d = plat c" by (simp_all only: drv_def plat_def f)
  show "sframe_reply d addr ctrl = sframe_reply c addr ctrl" "asks_again d addr ctrl = asks_again c addr ctrl"
    using f i p by (simp_all add: sframe_reply_def asks_again_def)
  show "iframes d v ps = iframes c v ps" using f p by (intro iframes_cong) simp_all
qed

lemma rx_frame_retry: "rx_frame c d \<Longrightarrow> retry_kept c d"
  using rx_frame_fields [of c d] by (simp add: retry_kept_def CTX_FLAG_def)

text \<open>An S-frame with a valid N(R) received between frames.\<close>

lemma sframe_data_in:
  assumes "reachable c" "idle_rx c" "our_address c addr" "4 \<le> rx_capacity c"
    and "current_state c = ATC_HDLC_STATE_CONNECTED" "is_sframe ctrl"
    and "dist8 (CTRL_NR ctrl) (va c) \<le> dist8 (vs c) (va c)"
    and "unat len = length (frame_octets (drv c) addr ctrl [])"
  shows "\<exists>d. atc_hdlc_data_in c (Some (frame_octets (drv c) addr ctrl [])) len = Some d
     \<and> va d = CTRL_NR ctrl \<and> vs d = vs c \<and> vr d = vr c \<and> current_state d = ATC_HDLC_STATE_CONNECTED
     \<and> unacked d = drop (dist8 (CTRL_NR ctrl) (va c)) (unacked c)
     \<and> (asks_again c addr ctrl \<and> CTRL_NR ctrl \<noteq> vs c \<longrightarrow> CTX_FLAG d HDLC_F_T1_ACTIVE)
     \<and> line_octets (new_calls c d) = sframe_reply c addr ctrl
         @ (if asks_again c addr ctrl \<and> CTRL_NR ctrl \<noteq> vs c then iframes c (CTRL_NR ctrl) (unacked d) else [])
     \<and> delivered (new_calls c d) = [] \<and> retry_kept c d"
proof -
  let ?nr = "CTRL_NR ctrl" and ?again = "asks_again c addr ctrl \<and> CTRL_NR ctrl \<noteq> vs c"
  have c: "rx_inv c" "core c" "\<not> pending c"
    using reachable_live [OF assms(1)] by (simp_all add: live_def settled_def)
  have acc: "acceptable c ?nr"
    using assms(7) by (simp add: acceptable_def out_count_def CTRL_NR_less)
  obtain c0 where c0: "rx_to c (Gather (frame_body (drv c) addr ctrl []) False) c0"
    "rx_octets c (frame_octets (drv c) addr ctrl []) = map_option (rx_reset RX_ADDR) (dispatch_frame c0 addr ctrl None 0)"
    using rx_frame_octets [OF c(1) assms(2), of "[]" addr ctrl] assms(3,4) by auto
  note rx = rx_to_fields(2) [OF c0(1)]
  note f = rx_frame_fields [OF rx] and s = rx_frame_same [OF rx]
  have core0: "core c0" using rx_to_fields(1) [OF c0(1)] by simp
  have "\<not> is_iframe ctrl" using assms(6) by (auto simp: frame_kinds)
  then have disp: "dispatch_frame c0 addr ctrl None 0 = handle_sframe c0 addr ctrl"
    using assms(5,6) f by (simp add: dispatch_frame_def state_connected_def)
  obtain d xs where d: "handle_sframe c0 addr ctrl = Some d" "sframe_keeps c0 d" "va d = ?nr"
      "pending d \<longleftrightarrow> ?again" "pending d \<longrightarrow> retransmit_from d = va d"
      "trace d = trace c0 @ xs" "line_octets xs = sframe_reply c addr ctrl" "delivered xs = []"
    using runs_Some_exists [OF handle_sframe_line [OF core0, of ctrl addr]] acc c(3) assms(5) s f by auto
  have unacked: "unacked d = drop (dist8 ?nr (va c)) (unacked c)"
    using keeps_unacked [OF core0 _ d(2,3)] acc s f by simp
  let ?e = "rx_reset RX_ADDR d"
  have e: "rx_frame d ?e" by (simp add: rx_frame_def rx_reset_def)
  note ef = rx_frame_fields [OF e] and es = rx_frame_same [OF e]
  have "retry_kept c0 d" using d(2) by (simp add: sframe_keeps_def)
  then have retry: "retry_kept c ?e" using rx_frame_retry [OF rx] by (auto intro: retry_kept_trans)
  have same: "vs d = vs c" "vr d = vr c" "drv d = drv c" "peer_address d = peer_address c" "core d"
      "current_state d = ATC_HDLC_STATE_CONNECTED"
    using d(2) f s assms(5) by (simp_all add: sframe_keeps_def)
  have run: "atc_hdlc_data_in c (Some (frame_octets (drv c) addr ctrl [])) len
      = (if pending ?e then retransmit_outstanding ?e else Some ?e)"
    using c0(2) disp d(1) assms(8) by (simp add: data_in_run)
  show ?thesis
  proof (cases ?again)
    case True
    then have p: "pending ?e" "retransmit_from ?e = va ?e" using d(4,5) es(4) ef by simp_all
    have core_e: "core ?e" using same(5) core_rx_reset by blast
    have "va ?e \<noteq> vs ?e" using True ef d(3) same(1) by simp
    then obtain w where "tx_window ?e = Some w"
      using no_window_idle [OF core_e] by (cases "tx_window ?e") auto
    from retransmit_sends [OF core_e p this] obtain g ys where
      g: "retransmit_outstanding ?e = Some g" "trace g = trace ?e @ ys"
        "line_octets ys = iframes ?e (va ?e) (unacked ?e)" "unacked g = unacked ?e" "vs g = vs ?e" "va g = va ?e"
        "vr g = vr ?e" "CTX_FLAG g HDLC_F_T1_ACTIVE" "delivered ys = []"
        "current_state g = current_state ?e" "retry_kept ?e g"
      by blast
    moreover from this have "retry_kept c g" using retry by (blast intro: retry_kept_trans)
    moreover have "iframes ?e v ps = iframes c v ps" for v ps
      using es(9) same by (simp add: iframes_cong [of d c])
    ultimately show ?thesis
      using run p(1) True ef es(1) unacked d(3,6,7,8) same f by (simp add: new_calls_def)
  next
    case False
    then have "\<not> pending ?e" using d(4) es(4) by simp
    then show ?thesis
      using retry run False ef es(1) unacked d(3,6,7,8) same f by (auto simp: new_calls_def)
  qed
qed

text \<open>C9 An S-frame with a valid N(R), received between frames by a connected station, releases exactly
  the payloads below N(R), is answered by RR with the F bit when it is a polling command, and, when it
  is a REJ or a response with the F bit and frames are left, makes the station send again exactly the
  payloads not acknowledged, in order, numbered from N(R) on (Go-Back-N); with T1 running then.\<close>

theorem sframe_acknowledges:
  assumes "reachable c" "idle_rx c" "our_address c addr" "4 \<le> rx_capacity c"
    and "current_state c = ATC_HDLC_STATE_CONNECTED" "is_sframe ctrl"
    and "dist8 (CTRL_NR ctrl) (va c) \<le> dist8 (vs c) (va c)"
    and "unat len = length (frame_octets (drv c) addr ctrl [])"
  shows "\<exists>d. atc_hdlc_data_in c (Some (frame_octets (drv c) addr ctrl [])) len = Some d
     \<and> va d = CTRL_NR ctrl \<and> vs d = vs c \<and> vr d = vr c
     \<and> unacked d = drop (dist8 (CTRL_NR ctrl) (va c)) (unacked c)
     \<and> (asks_again c addr ctrl \<and> CTRL_NR ctrl \<noteq> vs c \<longrightarrow> CTX_FLAG d HDLC_F_T1_ACTIVE)
     \<and> line_octets (new_calls c d) = sframe_reply c addr ctrl
         @ (if asks_again c addr ctrl \<and> CTRL_NR ctrl \<noteq> vs c then iframes c (CTRL_NR ctrl) (unacked d) else [])"
  using sframe_data_in [OF assms] by blast

lemma sframe_acknowledges_witness:
  "\<exists>d. atc_hdlc_data_in bm_sent (Some (frame_octets atc_hdlc_crc_ops_default 0x02 0x09 []))
       (word_of_nat (length (frame_octets atc_hdlc_crc_ops_default 0x02 0x09 []))) = Some d
     \<and> unacked d = [[0x41, 0x7E]]
     \<and> line_octets (new_calls bm_sent d) = frame_octets atc_hdlc_crc_ops_default 0x02 0x00 [0x41, 0x7E]"
proof -
  let ?n = "word_of_nat (length (frame_octets atc_hdlc_crc_ops_default 0x02 0x09 [])) :: u32"
  have n: "unat ?n = length (frame_octets (drv bm_sent) 0x02 0x09 [])"
    by (simp only: bm_sent_run) (rule frame_octets_size, simp)
  have r: "is_sframe 0x09" "CTRL_NR 0x09 = 0" "CTRL_S 0x09 = S_REJ" "CTRL_PF 0x09 = 0"
    by (simp_all add: is_sframe_def CTRL_NR_def CTRL_S_def S_REJ_def CTRL_PF_def)
  have a: "our_address bm_sent 0x02" "4 \<le> rx_capacity bm_sent" "asks_again bm_sent 0x02 0x09"
    by (simp_all add: our_address_def bm_sent_run asks_again_def r)
  have "unacked bm_sent = [[0x41, 0x7E]]"
    using sent_unacked [OF bm_core(3), of 2 "[0x41, 0x7E]"] bm_up_open
    by (simp add: bm_sent_ctx tx_error_def bm_up_run unacked_def window_queue_def out_count_def)
  then show ?thesis
    using sframe_acknowledges [OF bm_sent_run(2,9) a(1,2) bm_sent_run(3) r(1) _ n] a(3)
    by (auto simp: r bm_sent_run I_CTRL_def sframe_reply_def)
qed

end
