(* ===== verification/Hdlc_Pair.thy ===== *)
theory Hdlc_Pair
  imports Hdlc_Window
begin

text \<open>
  Two stations joined by a line that loses nothing: what one puts on the line is the other's input.
  Each leg of an exchange is a lemma; \<open>transfer\<close> is one payload with its acknowledgement,
  \<open>connect\<close> and \<open>disconnect\<close> are the handshakes, and the properties compose them.
\<close>

section \<open>Hearing a frame\<close>

text \<open>A station receives what its peer has put on the line; it is at rest between frames.\<close>

definition hear :: "atc_hdlc_ctx_t \<Rightarrow> callback list \<Rightarrow> atc_hdlc_ctx_t option" where
  "hear c xs = atc_hdlc_data_in c (Some (line_octets xs)) (word_of_nat (length (line_octets xs)))"

definition at_rest :: "atc_hdlc_ctx_t \<Rightarrow> bool" where
  "at_rest c \<longleftrightarrow> reachable c \<and> idle_rx c"

lemma at_restD: "at_rest c \<Longrightarrow> core c" "at_rest c \<Longrightarrow> \<not> pending c" "at_rest c \<Longrightarrow> rx_inv c" "at_rest c \<Longrightarrow> settled c"
  using reachable_live [of c] by (simp_all add: at_rest_def live_def settled_def)

lemma at_rest_call:
  assumes "at_rest c" "legal c call" "hdlc_do c call = Some (d, r)" "rx_kept c d"
  shows "at_rest d" "rx_capacity d = rx_capacity c"
  using assms reach_call [of c call d r] kept_idle [of c d] by (simp_all add: at_rest_def)

lemma frames_in_append: "frames_in c v (xs @ ys) = frames_in c v xs + frames_in c (deframes c v xs) ys"
  by (induction xs arbitrary: v) (simp_all split: prod.split)

lemma frames_in_no_flag: "FLAG \<notin> set xs \<Longrightarrow> frames_in c v xs = 0"
proof (induction xs arbitrary: v)
  case (Cons b xs)
  then show ?case using deframe_no_flag [of b c v] by (cases "deframe c v b") auto
qed simp

lemma one_frame_chunk:
  assumes "idle_rx c"
  shows "chunk_ok c (frame_octets d addr ctrl info)"
proof -
  have "frames_in c (view c) (FLAG # stuff zs @ [FLAG]) \<le> 1" for zs
  proof -
    have "deframe c (view c) FLAG = (Gather [] False, None)"
      using assms by (cases "view c") (simp_all add: idle_rx_def)
    then show ?thesis
      using stuff_no_flag [of zs] by (simp add: frames_in_append frames_in_no_flag split: prod.split)
  qed
  then show ?thesis by (simp add: chunk_ok_def frame_octets_def)
qed

abbreviation info_of :: "u8 list \<Rightarrow> octets" where
  "info_of info \<equiv> (if info = [] then None else Some info)"

lemma info_ok_of: "length info < 65536 \<Longrightarrow> info_ok (info_of info) (word_of_nat (length info))"
  by (simp add: info_ok_def unat_of_nat take_bit_nat_eq_self)

lemma hear_frame:
  assumes "at_rest c" "length info + 4 \<le> rx_capacity c" "length info < 65536" "our_address c addr"
    and "line_octets xs = frame_octets (drv c) addr ctrl info"
  shows "\<exists>c0. core c0 \<and> rx_frame c c0 \<and> rx_capacity c0 = rx_capacity c \<and> hear c xs =
     dispatch_frame c0 addr ctrl (info_of info) (word_of_nat (length info)) \<bind> (\<lambda>d.
       if pending d then retransmit_outstanding (rx_reset RX_ADDR d) else Some (rx_reset RX_ADDR d))"
proof -
  obtain c0 where c0: "rx_to c (Gather (frame_body (drv c) addr ctrl info) False) c0"
    "rx_octets c (line_octets xs) = map_option (rx_reset RX_ADDR)
       (dispatch_frame c0 addr ctrl (info_of info) (word_of_nat (length info)))"
    using rx_frame_octets [OF at_restD(3) [OF assms(1)] _ assms(2,4), of ctrl] assms(1,5)
    by (auto simp: at_rest_def)
  have n: "unat (word_of_nat (length (line_octets xs)) :: u32) = length (line_octets xs)"
    using assms(3) unfolding assms(5) by (intro frame_octets_size) simp
  have p: "pending (rx_reset RX_ADDR d) = pending d" for d
    by (rule rx_frame_same(4) [OF rx_reset_frame])
  have "hear c xs = rx_octets c (line_octets xs) \<bind> (\<lambda>c. if pending c then retransmit_outstanding c else Some c)"
    using n by (simp add: hear_def data_in_run)
  with c0 p rx_to_fields [OF c0(1)] show ?thesis
    by (intro exI [of _ c0]) (simp add: map_option_case bind_split split: option.split)
qed

lemma hear_at_rest:
  assumes "at_rest c" "length info < 65536" "line_octets xs = frame_octets (drv c) addr ctrl info"
    and "hear c xs = Some d" "idle_rx d"
  shows "at_rest d"
proof -
  have n: "unat (word_of_nat (length (line_octets xs)) :: u32) = length (line_octets xs)"
    using assms(2) unfolding assms(3) by (intro frame_octets_size) simp
  have "legal c (Data_in (Some (line_octets xs)) (word_of_nat (length (line_octets xs))))"
    using n one_frame_chunk assms(1,3) by (simp add: at_rest_def)
  moreover have "hdlc_do c (Data_in (Some (line_octets xs)) (word_of_nat (length (line_octets xs)))) = Some (d, Void)"
    using assms(4) by (simp add: hear_def)
  ultimately have "reachable d" using assms(1) reach_call unfolding at_rest_def by blast
  with assms(5) show ?thesis by (simp add: at_rest_def)
qed

text \<open>The case in which the frame asks for no retransmission.\<close>

lemma hear_quiet:
  assumes "at_rest c" "length info + 4 \<le> rx_capacity c" "length info < 65536" "our_address c addr"
    and "line_octets xs = frame_octets (drv c) addr ctrl info"
    and disp: "\<And>c0. core c0 \<Longrightarrow> rx_frame c c0 \<Longrightarrow> \<exists>d. dispatch_frame c0 addr ctrl (info_of info) (word_of_nat (length info)) = Some d
      \<and> \<not> pending d \<and> P c0 d"
  shows "\<exists>c0 d e. rx_frame c c0 \<and> core c0 \<and> P c0 d \<and> hear c xs = Some e \<and> rx_frame d e \<and> at_rest e
    \<and> same_env c0 d \<and> rx_capacity e = rx_capacity c"
proof -
  obtain c0 where c0: "core c0" "rx_frame c c0" "rx_capacity c0 = rx_capacity c" "hear c xs =
     dispatch_frame c0 addr ctrl (info_of info) (word_of_nat (length info)) \<bind> (\<lambda>d.
       if pending d then retransmit_outstanding (rx_reset RX_ADDR d) else Some (rx_reset RX_ADDR d))"
    using hear_frame [OF assms(1-5)] by blast
  obtain d where d: "dispatch_frame c0 addr ctrl (info_of info) (word_of_nat (length info)) = Some d"
      "\<not> pending d" "P c0 d"
    using disp [OF c0(1,2)] by blast
  let ?e = "rx_reset RX_ADDR d"
  have h: "hear c xs = Some ?e" using c0(4) d by simp
  have env: "same_env c0 d"
    using dispatch_frame_post [OF c0(1) info_ok_of [OF assms(3)], of addr ctrl] d(1) by (simp add: frame_post_def)
  have "at_rest ?e"
    by (rule hear_at_rest [OF assms(1,3,5) h]) (simp add: idle_rx_def)
  moreover have "rx_capacity ?e = rx_capacity c"
    using env c0(3) by (simp add: rx_capacity_def rx_reset_def same_env_def)
  ultimately show ?thesis using c0 d h rx_reset_frame env by blast
qed

text \<open>The events reported to the application.\<close>

fun events_of :: "callback list \<Rightarrow> atc_hdlc_event_t list" where
  "events_of [] = []"
| "events_of (On_event ev # as) = ev # events_of as"
| "events_of (_ # as) = events_of as"

lemma events_of_append [simp]: "events_of (xs @ ys) = events_of xs @ events_of ys"
  by (induction xs rule: events_of.induct) simp_all

lemma events_of_sends [simp]: "events_of (map (\<lambda>b. On_send b f) xs) = []"
  by (induction xs) simp_all

lemma events_of_calls [simp]:
  "events_of (frame_calls d addr ctrl info) = []"
  "events_of (t1_start_calls c) = []" "events_of (t1_stop_calls c) = []" "events_of (t2_start_calls c) = []"
  "events_of (t2_stop_calls c) = []" "events_of (data_calls c data n) = []"
  "events_of (event_calls c ev) = (if has_on_event (plat c) then [ev] else [])"
  by (simp_all add: frame_calls_def call_defs split: option.split)

text \<open>The calls of \<open>on_send\<close>, with their flush marks.\<close>

fun sends :: "callback list \<Rightarrow> callback list" where
  "sends [] = []"
| "sends (On_send b f # as) = On_send b f # sends as"
| "sends (_ # as) = sends as"

lemma sends_append [simp]: "sends (xs @ ys) = sends xs @ sends ys"
  by (induction xs rule: sends.induct) simp_all

lemma sends_calls [simp]:
  "sends (frame_calls d addr ctrl info) = frame_calls d addr ctrl info"
  "sends (t1_start_calls c) = []" "sends (t1_stop_calls c) = []" "sends (t2_start_calls c) = []"
  "sends (t2_stop_calls c) = []" "sends (data_calls c data n) = []" "sends (event_calls c ev) = []"
proof -
  have "sends (map (\<lambda>b. On_send b False) xs) = map (\<lambda>b. On_send b False) xs" for xs by (induction xs) simp_all
  then show "sends (frame_calls d addr ctrl info) = frame_calls d addr ctrl info" by (simp add: frame_calls_def)
qed (simp_all add: call_defs split: option.split)

lemma no_sends: "line_octets xs = [] \<Longrightarrow> sends xs = []"
  by (induction xs rule: sends.induct) simp_all

section \<open>A connected pair\<close>

text \<open>
  \<open>a\<close> sends to \<open>b\<close>: both connected and at rest, each with the other's address and the same CRC
  driver, nothing outstanding, \<open>b\<close> expecting what \<open>a\<close> sends next.
\<close>

definition paired :: "atc_hdlc_ctx_t \<Rightarrow> atc_hdlc_ctx_t \<Rightarrow> bool" where
  "paired a b \<longleftrightarrow> at_rest a \<and> at_rest b
     \<and> current_state a = ATC_HDLC_STATE_CONNECTED \<and> current_state b = ATC_HDLC_STATE_CONNECTED
     \<and> drv a = drv b \<and> peer_address a = my_address b \<and> peer_address b = my_address a
     \<and> vs a = va a \<and> vr b = vs a \<and> vs b = vr a \<and> va b = vr a
     \<and> \<not> CTX_FLAG a HDLC_F_REMOTE_BUSY \<and> \<not> CTX_FLAG b HDLC_F_LOCAL_BUSY
     \<and> 4 \<le> rx_capacity a \<and> 4 \<le> rx_capacity b"

text \<open>What the application delivers from \<open>a\<close> to \<open>b\<close>: the payload goes out in an I-frame, \<open>b\<close> takes it,
  its T2 expires, and \<open>a\<close> takes the acknowledgement.\<close>

definition transfer :: "atc_hdlc_ctx_t \<times> atc_hdlc_ctx_t \<Rightarrow> u8 list \<Rightarrow> (atc_hdlc_ctx_t \<times> atc_hdlc_ctx_t) option" where
  "transfer ab p = (case ab of (a, b) \<Rightarrow> do {
     (a1, e) \<leftarrow> atc_hdlc_transmit_i a (Some p) (word_of_nat (length p));
     if e \<noteq> ATC_HDLC_OK then None else do {
     b1 \<leftarrow> hear b (new_calls a a1);
     b2 \<leftarrow> atc_hdlc_t2_expired b1;
     a2 \<leftarrow> hear a1 (new_calls b b2);
     Some (a2, b2) } })"

text \<open>The control octets of the exchange read back.\<close>

lemma small_ctrl:
  "\<forall>s < 8. \<forall>r < 8. is_iframe (I_CTRL (word_of_nat s) (word_of_nat r) 0)
     \<and> CTRL_NS (I_CTRL (word_of_nat s) (word_of_nat r) 0) = word_of_nat s
     \<and> CTRL_NR (I_CTRL (word_of_nat s) (word_of_nat r) 0) = word_of_nat r
     \<and> CTRL_PF (I_CTRL (word_of_nat s) (word_of_nat r) 0) = 0"
  "\<forall>r < 8. is_sframe (S_CTRL S_RR (word_of_nat r) 0) \<and> CTRL_S (S_CTRL S_RR (word_of_nat r) 0) = S_RR
     \<and> CTRL_NR (S_CTRL S_RR (word_of_nat r) 0) = word_of_nat r \<and> CTRL_PF (S_CTRL S_RR (word_of_nat r) 0) = 0"
  unfolding all_less_code by code_simp+

lemma i_ctrl:
  assumes "unat s < 8" "unat r < 8"
  shows "is_iframe (I_CTRL s r 0)" "CTRL_NS (I_CTRL s r 0) = s" "CTRL_NR (I_CTRL s r 0) = r" "CTRL_PF (I_CTRL s r 0) = 0"
  using small_ctrl(1) [rule_format, OF assms] by simp_all

lemma rr_ctrl:
  assumes "unat r < 8"
  shows "is_sframe (S_CTRL S_RR r 0)" "CTRL_S (S_CTRL S_RR r 0) = S_RR" "CTRL_NR (S_CTRL S_RR r 0) = r"
    "CTRL_PF (S_CTRL S_RR r 0) = 0"
  using small_ctrl(2) [rule_format, OF assms] by simp_all

lemma mod8_succ_dist: "unat x < 8 \<Longrightarrow> dist8 (mod8_succ x) x = 1"
  by (auto simp: dist8_if unat_mod8_succ mod_if)

lemma rr_run:
  assumes "core c" "acceptable c (CTRL_NR ctrl)" "current_state c = ATC_HDLC_STATE_CONNECTED"
    and "is_sframe ctrl" "CTRL_S ctrl = S_RR" "CTRL_PF ctrl = 0" "\<not> CTX_FLAG c HDLC_F_REMOTE_BUSY"
  shows "dispatch_frame c addr ctrl info n = Some (processed (CTX_CLR c HDLC_F_REMOTE_BUSY) (CTRL_NR ctrl))"
proof -
  have "acceptable (CTX_CLR c HDLC_F_REMOTE_BUSY) (CTRL_NR ctrl)"
    using assms(2) by (simp add: acceptable_def out_count_def)
  moreover have "\<not> is_iframe ctrl" using assms(4) by (auto simp: frame_kinds)
  moreover have "S_RR \<noteq> S_REJ" by (simp add: hdlc_s_defs)
  ultimately show ?thesis
    using assms by (simp add: dispatch_frame_def state_connected_def handle_sframe_def Let_def sframe_busy_def
        validate_nr_run CTRL_NR_less process_nr_run)
qed

text \<open>The payload fits both ends.\<close>

definition carries :: "atc_hdlc_ctx_t \<Rightarrow> atc_hdlc_ctx_t \<Rightarrow> u8 list \<Rightarrow> bool" where
  "carries a b p \<longleftrightarrow> tx_fits a (word_of_nat (length p)) \<and> length p < 65536 \<and> length p + 4 \<le> rx_capacity b
     \<and> 4 \<le> rx_capacity a \<and> has_on_data (plat b)"

lemma tx_fits_cong:
  "config d = config c \<Longrightarrow> map_option slot_capacity (tx_window d) = map_option slot_capacity (tx_window c) \<Longrightarrow>
   tx_fits d n = tx_fits c n"
  by (cases "tx_window c"; cases "tx_window d") (simp_all add: tx_fits_def too_long_def)

lemma send_leg:
  assumes "at_rest a" "current_state a = ATC_HDLC_STATE_CONNECTED" "\<not> CTX_FLAG a HDLC_F_REMOTE_BUSY"
    and "vs a = va a" "tx_fits a (word_of_nat (length p))" "length p < 65536"
  shows "\<exists>d. atc_hdlc_transmit_i a (Some p) (word_of_nat (length p)) = Some (d, ATC_HDLC_OK) \<and> at_rest d
     \<and> current_state d = ATC_HDLC_STATE_CONNECTED \<and> \<not> CTX_FLAG d HDLC_F_REMOTE_BUSY
     \<and> vs d = mod8_succ (vs a) \<and> va d = va a \<and> vr d = vr a \<and> drv d = drv a \<and> my_address d = my_address a
     \<and> peer_address d = peer_address a \<and> rx_capacity d = rx_capacity a \<and> config d = config a
     \<and> map_option slot_capacity (tx_window d) = map_option slot_capacity (tx_window a)
     \<and> line_octets (new_calls a d) = frame_octets (drv a) (peer_address a) (I_CTRL (vs a) (vr a) 0) p
     \<and> plat d = plat a \<and> map_option slot_count (tx_window d) = map_option slot_count (tx_window a)
     \<and> sends (new_calls a d) = frame_calls (drv a) (peer_address a) (I_CTRL (vs a) (vr a) 0) p \<and> events_of (new_calls a d) = []"
proof -
  let ?n = "word_of_nat (length p) :: u32"
  have n: "unat ?n = length p" using assms(6) by (simp add: unat_of_nat take_bit_nat_eq_self)
  then have r: "readable (Some p) ?n" "payload (Some p) ?n = p" by (simp_all add: readable_def payload_def)
  obtain w where w: "tx_window a = Some w" using assms(5) by (auto simp: tx_fits_def split: option.splits)
  have "1 \<le> unat (slot_count w)"
    using core_win_geom [OF at_restD(1) [OF assms(1)] w] by (auto simp: win_geom_def split: option.splits)
  then have "tx_open a" using w assms(4) by (simp add: tx_open_def out_count_def)
  then have e: "tx_error a ?n = None" using assms(2,3,5) w by (simp add: tx_error_def)
  have run: "atc_hdlc_transmit_i a (Some p) ?n = Some (sent_ctx a p ?n, ATC_HDLC_OK)"
    using transmit_i_spec [OF at_restD(1) [OF assms(1)] r(1)] e r(2) by simp
  have "rx_kept a (sent_ctx a p ?n)"
    using transmit_kept(1) [OF at_restD(4) [OF assms(1)] r(1)] run by simp
  then have "at_rest (sent_ctx a p ?n)" "rx_capacity (sent_ctx a p ?n) = rx_capacity a"
    using at_rest_call [of a "Transmit_i (Some p) ?n" "sent_ctx a p ?n" "Result ATC_HDLC_OK"] assms(1) r(1) run by simp_all
  with run w assms(2-4) show ?thesis
    by (simp add: sent_ctx_def sent_fields_def sent_calls_def)
qed

text \<open>An I-frame that acknowledges nothing new is taken without an event.\<close>

lemma in_sequence_silent:
  assumes "core c" "current_state c = ATC_HDLC_STATE_CONNECTED" "is_iframe ctrl"
    and "CTRL_NR ctrl = va c" "vs c = va c" "CTRL_NS ctrl = vr c" "dispatch_frame c addr ctrl info n = Some d"
  shows "events_of (new_calls c d) = []"
proof -
  have acc: "acceptable c (CTRL_NR ctrl)" using assms(4) by (simp add: acceptable_def CTRL_NR_less flip: assms(4))
  have p: "processed c (CTRL_NR ctrl) = say (CTX_CLR (acked_fields c (va c)) HDLC_F_T1_ACTIVE) (t1_stop_calls c)"
    using assms(4,5) by (simp add: processed_def acked_calls_def)
  have "dispatch_frame c addr ctrl info n
      = handle_in_sequence_iframe (processed c (CTRL_NR ctrl)) (CTRL_PF ctrl) info n"
    using assms(1-3,6) acc by (simp add: dispatch_frame_def state_connected_def handle_iframe_def Let_def validate_nr_run
        CTRL_NR_less process_nr_run)
  with assms(7) have "handle_in_sequence_iframe (say (CTX_CLR (acked_fields c (va c)) HDLC_F_T1_ACTIVE) (t1_stop_calls c))
      (CTRL_PF ctrl) info n = Some d"
    by (simp only: p)
  then show ?thesis
    using assms(1) by (auto simp: handle_in_sequence_iframe_def Let_def hdlc_run new_calls_def split: if_splits)
qed

lemma iframe_leg:
  assumes "at_rest b" "current_state b = ATC_HDLC_STATE_CONNECTED" "\<not> CTX_FLAG b HDLC_F_LOCAL_BUSY"
    and "va b = r" "vs b = r" "our_address b addr" "length p < 65536" "length p + 4 \<le> rx_capacity b" "has_on_data (plat b)"
    and "line_octets xs = frame_octets (drv b) addr (I_CTRL (vr b) r 0) p"
  shows "\<exists>e. hear b xs = Some e \<and> at_rest e \<and> current_state e = ATC_HDLC_STATE_CONNECTED
     \<and> \<not> CTX_FLAG e HDLC_F_LOCAL_BUSY \<and> vr e = mod8_succ (vr b) \<and> vs e = vs b \<and> va e = va b
     \<and> drv e = drv b \<and> plat e = plat b \<and> my_address e = my_address b \<and> peer_address e = peer_address b
     \<and> rx_capacity e = rx_capacity b
     \<and> (\<exists>ys. trace e = trace b @ ys \<and> delivered ys = [(info_of p, word_of_nat (length p))] \<and> line_octets ys = []
          \<and> events_of ys = [])"
proof -
  let ?ctrl = "I_CTRL (vr b) r 0"
  have seq: "unat (vr b) < 8" "unat r < 8"
    using coreD(2) [OF at_restD(1) [OF assms(1)]] assms(4) by (auto simp: seq_ok_def)
  note ctl = i_ctrl [OF seq]
  have step: "\<exists>d. dispatch_frame c0 addr ?ctrl (info_of p) (word_of_nat (length p)) = Some d \<and> \<not> pending d
     \<and> (current_state d = ATC_HDLC_STATE_CONNECTED \<and> vr d = mod8_succ (vr c0) \<and> vs d = vs c0 \<and> va d = r
       \<and> CTX_FLAG d HDLC_F_LOCAL_BUSY = CTX_FLAG c0 HDLC_F_LOCAL_BUSY \<and> trace d = trace c0 @ new_calls c0 d
       \<and> delivered (new_calls c0 d) = [(info_of p, word_of_nat (length p))] \<and> line_octets (new_calls c0 d) = []
       \<and> events_of (new_calls c0 d) = [])"
    if c0: "core c0" "rx_frame b c0" for c0
  proof -
    note f = rx_frame_fields [OF c0(2)] and s = rx_frame_same [OF c0(2)]
    have "acceptable c0 (CTRL_NR ?ctrl)" using seq assms(4,5) ctl f by (simp add: acceptable_def)
    moreover have "delivered (data_calls c0 (info_of p) (word_of_nat (length p))) = [(info_of p, word_of_nat (length p))]"
      using assms(7,9) s by (simp add: data_calls_def unat_of_nat take_bit_nat_eq_self)
    ultimately show ?thesis
      using in_sequence_run [OF c0(1), of ?ctrl addr "info_of p" "word_of_nat (length p)"] ctl assms(2,3) f s
        at_restD(2) [OF assms(1)] in_sequence_silent [OF c0(1), of ?ctrl addr "info_of p" "word_of_nat (length p)"] assms(4,5)
      by (auto simp: in_sequence_reply_def)
  qed
  obtain c0 d e where h: "rx_frame b c0" "core c0" "current_state d = ATC_HDLC_STATE_CONNECTED \<and> vr d = mod8_succ (vr c0)
       \<and> vs d = vs c0 \<and> va d = r
       \<and> CTX_FLAG d HDLC_F_LOCAL_BUSY = CTX_FLAG c0 HDLC_F_LOCAL_BUSY \<and> trace d = trace c0 @ new_calls c0 d
       \<and> delivered (new_calls c0 d) = [(info_of p, word_of_nat (length p))] \<and> line_octets (new_calls c0 d) = []
       \<and> events_of (new_calls c0 d) = []"
      "hear b xs = Some e" "rx_frame d e" "at_rest e" "same_env c0 d" "rx_capacity e = rx_capacity b"
    using hear_quiet [OF assms(1,8,7,6,10) step] by blast
  then show ?thesis
    using rx_frame_fields [OF h(1)] rx_frame_fields [OF h(5)] rx_frame_same [OF h(1)] rx_frame_same [OF h(5)] assms(3,4)
    by (auto simp: same_env_def drv_def plat_def simp del: platform_ready crc_ready)
qed

lemma t2_leg:
  assumes "at_rest b" "\<not> CTX_FLAG b HDLC_F_LOCAL_BUSY"
  shows "\<exists>d xs. atc_hdlc_t2_expired b = Some d \<and> at_rest d \<and> current_state d = current_state b
     \<and> \<not> CTX_FLAG d HDLC_F_LOCAL_BUSY \<and> vr d = vr b \<and> vs d = vs b \<and> va d = va b
     \<and> drv d = drv b \<and> plat d = plat b \<and> my_address d = my_address b \<and> peer_address d = peer_address b
     \<and> rx_capacity d = rx_capacity b \<and> trace d = trace b @ xs \<and> delivered xs = []
     \<and> line_octets xs = frame_octets (drv b) (peer_address b) (S_CTRL S_RR (vr b) 0) []
     \<and> sends xs = frame_calls (drv b) (peer_address b) (S_CTRL S_RR (vr b) 0) [] \<and> events_of xs = []"
proof -
  have c: "core b" using assms(1) by (rule at_restD)
  obtain d where d: "atc_hdlc_t2_expired b = Some d" "rx_kept b d"
    using station_kept(6) [OF at_restD(4) [OF assms(1)]] by (auto simp: runs_iff)
  then have "at_rest d" "rx_capacity d = rx_capacity b"
    using at_rest_call [of b T2_expired d Void] assms(1) by simp_all
  then show ?thesis
    using d(1) c assms(2) by (auto simp: atc_hdlc_t2_expired_def Let_def hdlc_run)
qed

lemma ack_leg:
  assumes "at_rest a" "current_state a = ATC_HDLC_STATE_CONNECTED" "\<not> CTX_FLAG a HDLC_F_REMOTE_BUSY"
    and "unat n < 8" "dist8 n (va a) \<le> dist8 (vs a) (va a)" "our_address a addr" "4 \<le> rx_capacity a"
    and "line_octets xs = frame_octets (drv a) addr (S_CTRL S_RR n 0) []"
  shows "\<exists>e. hear a xs = Some e \<and> at_rest e \<and> current_state e = ATC_HDLC_STATE_CONNECTED
     \<and> \<not> CTX_FLAG e HDLC_F_REMOTE_BUSY \<and> vr e = vr a \<and> vs e = vs a \<and> va e = n
     \<and> drv e = drv a \<and> my_address e = my_address a \<and> peer_address e = peer_address a \<and> config e = config a
     \<and> rx_capacity e = rx_capacity a \<and> tx_window e = tx_window a
     \<and> plat e = plat a \<and> (\<exists>ys. trace e = trace a @ ys \<and> delivered ys = [] \<and> line_octets ys = []
          \<and> events_of ys = (if n \<noteq> va a \<and> \<not> tx_open a \<and> has_on_event (plat a) then [ATC_HDLC_EVENT_WINDOW_OPEN] else []))"
proof -
  let ?ctrl = "S_CTRL S_RR n 0"
  note ctl = rr_ctrl [OF assms(4)]
  have step: "\<exists>d. dispatch_frame c0 addr ?ctrl (info_of []) (word_of_nat (length ([] :: u8 list))) = Some d \<and> \<not> pending d
     \<and> d = processed (CTX_CLR c0 HDLC_F_REMOTE_BUSY) n" if c0: "core c0" "rx_frame a c0" for c0
  proof -
    note f = rx_frame_fields [OF c0(2)] and s = rx_frame_same [OF c0(2)]
    have "acceptable c0 (CTRL_NR ?ctrl)" using assms(4,5) ctl f by (simp add: acceptable_def out_count_def)
    then show ?thesis
      using rr_run [OF c0(1), of ?ctrl addr] ctl assms(2,3) f s at_restD(2) [OF assms(1)] by simp
  qed
  obtain c0 d e where h: "rx_frame a c0" "core c0" "d = processed (CTX_CLR c0 HDLC_F_REMOTE_BUSY) n"
      "hear a xs = Some e" "rx_frame d e" "at_rest e" "same_env c0 d" "rx_capacity e = rx_capacity a"
    using hear_quiet [OF assms(1) _ _ assms(6,8) step] assms(7) by auto
  have "tx_open c0 = tx_open a"
    by (simp only: tx_open_def out_count_def rx_frame_fields [OF h(1)])
  then have open_same: "tx_open (CTX_CLR c0 HDLC_F_REMOTE_BUSY) = tx_open a"
    by (cases "tx_window c0") (simp_all add: tx_open_def out_count_def)
  have "\<exists>ys. trace d = trace c0 @ ys \<and> delivered ys = [] \<and> line_octets ys = []
      \<and> events_of ys = (if n \<noteq> va a \<and> \<not> tx_open a \<and> has_on_event (plat a) then [ATC_HDLC_EVENT_WINDOW_OPEN] else [])"
    using rx_frame_fields [OF h(1)] rx_frame_same [OF h(1)] open_same unfolding h(3)
    by (simp add: processed_def acked_calls_def)
  then obtain ys where "trace d = trace c0 @ ys" "delivered ys = []" "line_octets ys = []"
      "events_of ys = (if n \<noteq> va a \<and> \<not> tx_open a \<and> has_on_event (plat a) then [ATC_HDLC_EVENT_WINDOW_OPEN] else [])"
    by blast
  then show ?thesis
    using h rx_frame_fields [OF h(1)] rx_frame_fields [OF h(5)] rx_frame_same [OF h(1)] rx_frame_same [OF h(5)] assms(2)
    by (simp add: same_env_def)
qed

lemma transfer_run:
  assumes "paired a b" "carries a b p"
  shows "\<exists>a' b' ys. transfer (a, b) p = Some (a', b') \<and> paired a' b' \<and> carries a' b' = carries a b
     \<and> trace b' = trace b @ ys \<and> delivered ys = [(info_of p, word_of_nat (length p))]"
proof -
  have ra: "at_rest a" and rb: "at_rest b" using assms(1) by (simp_all add: paired_def)
  have seq: "unat (vs a) < 8" "unat (vr a) < 8" "unat (va a) < 8"
    using coreD(2) [OF at_restD(1) [OF ra]] by (simp_all add: seq_ok_def)
  obtain a1 where a1: "atc_hdlc_transmit_i a (Some p) (word_of_nat (length p)) = Some (a1, ATC_HDLC_OK)" "at_rest a1"
     "current_state a1 = ATC_HDLC_STATE_CONNECTED" "\<not> CTX_FLAG a1 HDLC_F_REMOTE_BUSY"
     "vs a1 = mod8_succ (vs a)" "va a1 = va a" "vr a1 = vr a" "drv a1 = drv a" "my_address a1 = my_address a"
     "peer_address a1 = peer_address a" "rx_capacity a1 = rx_capacity a" "config a1 = config a"
     "map_option slot_capacity (tx_window a1) = map_option slot_capacity (tx_window a)"
     "line_octets (new_calls a a1) = frame_octets (drv a) (peer_address a) (I_CTRL (vs a) (vr a) 0) p"
    using send_leg [OF ra, of p] assms by (auto simp: paired_def carries_def)
  obtain b1 ys where b1: "hear b (new_calls a a1) = Some b1" "at_rest b1" "current_state b1 = ATC_HDLC_STATE_CONNECTED"
     "\<not> CTX_FLAG b1 HDLC_F_LOCAL_BUSY" "vr b1 = mod8_succ (vr b)" "vs b1 = vs b" "va b1 = va b"
     "drv b1 = drv b" "plat b1 = plat b" "my_address b1 = my_address b" "peer_address b1 = peer_address b"
     "rx_capacity b1 = rx_capacity b"
     "trace b1 = trace b @ ys" "delivered ys = [(info_of p, word_of_nat (length p))]" "line_octets ys = []"
    using iframe_leg [OF rb, of "vr a" "my_address b" p "new_calls a a1"] assms a1
    by (auto simp: paired_def carries_def our_address_def)
  obtain b2 zs where b2: "atc_hdlc_t2_expired b1 = Some b2" "at_rest b2" "current_state b2 = current_state b1"
     "\<not> CTX_FLAG b2 HDLC_F_LOCAL_BUSY" "vr b2 = vr b1" "vs b2 = vs b1" "va b2 = va b1"
     "drv b2 = drv b1" "plat b2 = plat b1" "my_address b2 = my_address b1" "peer_address b2 = peer_address b1"
     "rx_capacity b2 = rx_capacity b1" "trace b2 = trace b1 @ zs" "delivered zs = []"
     "line_octets zs = frame_octets (drv b1) (peer_address b1) (S_CTRL S_RR (vr b1) 0) []"
    using t2_leg [OF b1(2,4)] by blast
  have line: "line_octets (new_calls b b2) = frame_octets (drv a1) (my_address a1) (S_CTRL S_RR (vr b1) 0) []"
    using b1 b2 a1 assms(1) by (simp add: new_calls_def paired_def)
  have nr: "vr b1 = vs a1" "unat (vr b1) < 8" "dist8 (vs a1) (va a1) = 1"
    using b1(5) a1(5,6) assms(1) mod8_succ_less [of "vr b"] mod8_succ_dist [OF seq(1)] by (simp_all add: paired_def)
  obtain a2 where a2: "hear a1 (new_calls b b2) = Some a2" "at_rest a2" "current_state a2 = ATC_HDLC_STATE_CONNECTED"
     "\<not> CTX_FLAG a2 HDLC_F_REMOTE_BUSY" "vr a2 = vr a1" "vs a2 = vs a1" "va a2 = vr b1"
     "drv a2 = drv a1" "my_address a2 = my_address a1" "peer_address a2 = peer_address a1" "config a2 = config a1"
     "rx_capacity a2 = rx_capacity a1" "tx_window a2 = tx_window a1"
    using ack_leg [OF a1(2,3,4) nr(2) _ _ _ line] nr assms(2) a1(11) by (auto simp: our_address_def carries_def)
  have "transfer (a, b) p = Some (a2, b2)"
    by (simp add: transfer_def a1(1) b1(1) b2(1) a2(1))
  moreover have "paired a2 b2"
    using assms(1) a1 a2 b1 b2 nr by (simp add: paired_def)
  moreover have "tx_fits a2 n = tx_fits a n" for n
    using a1 a2 by (intro tx_fits_cong) simp_all
  then have "carries a2 b2 = carries a b"
    using a1 a2 b1 b2 by (simp add: carries_def fun_eq_iff)
  moreover have "trace b2 = trace b @ (ys @ zs)" "delivered (ys @ zs) = [(info_of p, word_of_nat (length p))]"
    using b1 b2 by simp_all
  ultimately show ?thesis by blast
qed

fun transfers :: "atc_hdlc_ctx_t \<times> atc_hdlc_ctx_t \<Rightarrow> u8 list list \<Rightarrow> (atc_hdlc_ctx_t \<times> atc_hdlc_ctx_t) option" where
  "transfers ab [] = Some ab"
| "transfers ab (p # ps) = transfer ab p \<bind> (\<lambda>ab. transfers ab ps)"

lemma transfers_run:
  "paired a b \<Longrightarrow> list_all (carries a b) ps \<Longrightarrow> \<exists>a' b' ys. transfers (a, b) ps = Some (a', b') \<and> paired a' b'
     \<and> trace b' = trace b @ ys \<and> delivered ys = map (\<lambda>p. (info_of p, word_of_nat (length p))) ps"
proof (induction ps arbitrary: a b)
  case (Cons p ps)
  obtain a1 b1 ys where t: "transfer (a, b) p = Some (a1, b1)" "paired a1 b1" "carries a1 b1 = carries a b"
      "trace b1 = trace b @ ys" "delivered ys = [(info_of p, word_of_nat (length p))]"
    using transfer_run [OF Cons.prems(1), of p] Cons.prems(2) by auto
  obtain a2 b2 zs where "transfers (a1, b1) ps = Some (a2, b2)" "paired a2 b2"
      "trace b2 = trace b1 @ zs" "delivered zs = map (\<lambda>p. (info_of p, word_of_nat (length p))) ps"
    using Cons.IH [OF t(2)] Cons.prems(2) t(3) by auto
  with t show ?case by simp
qed simp

section \<open>The handshakes\<close>

definition connect :: "atc_hdlc_ctx_t \<times> atc_hdlc_ctx_t \<Rightarrow> (atc_hdlc_ctx_t \<times> atc_hdlc_ctx_t) option" where
  "connect ab = (case ab of (a, b) \<Rightarrow> do {
     (a1, e) \<leftarrow> atc_hdlc_link_setup a (my_address b);
     if e \<noteq> ATC_HDLC_OK then None else do {
     b1 \<leftarrow> hear b (new_calls a a1);
     a2 \<leftarrow> hear a1 (new_calls b b1);
     Some (a2, b1) } })"

definition disconnect :: "atc_hdlc_ctx_t \<times> atc_hdlc_ctx_t \<Rightarrow> (atc_hdlc_ctx_t \<times> atc_hdlc_ctx_t) option" where
  "disconnect ab = (case ab of (a, b) \<Rightarrow> do {
     (a1, e) \<leftarrow> atc_hdlc_disconnect a;
     if e \<noteq> ATC_HDLC_OK then None else do {
     b1 \<leftarrow> hear b (new_calls a a1);
     a2 \<leftarrow> hear a1 (new_calls b b1);
     Some (a2, b1) } })"

lemma u_ctrl:
  "is_uframe (U_CTRL U_SABM 1)" "U_CTRL U_SABM 1 AND NOT PF_BIT = U_SABM" "CTRL_PF (U_CTRL U_SABM 1) = 1"
  "is_uframe (U_CTRL U_DISC 1)" "U_CTRL U_DISC 1 AND NOT PF_BIT = U_DISC" "CTRL_PF (U_CTRL U_DISC 1) = 1"
  "U_CTRL U_UA 1 = 0x73"
  by (simp_all add: U_CTRL_def PF_BIT_def hdlc_u_defs is_uframe_def CTRL_PF_def)

lemma setup_leg:
  assumes "at_rest a" "current_state a = ATC_HDLC_STATE_DISCONNECTED"
  shows "\<exists>d xs. atc_hdlc_link_setup a peer = Some (d, ATC_HDLC_OK) \<and> at_rest d \<and> peer_address d = peer
     \<and> current_state d = ATC_HDLC_STATE_CONNECTING \<and> drv d = drv a \<and> my_address d = my_address a \<and> config d = config a
     \<and> plat d = plat a \<and> rx_capacity d = rx_capacity a \<and> tx_window d = tx_window a \<and> trace d = trace a @ xs
     \<and> line_octets xs = frame_octets (drv a) peer (U_CTRL U_SABM 1) []
     \<and> events_of xs = (if has_on_event (plat a) then [ATC_HDLC_EVENT_SETUP_REQ] else [])
     \<and> sends xs = frame_calls (drv a) peer (U_CTRL U_SABM 1) []"
proof -
  obtain d where d: "atc_hdlc_link_setup a peer = Some (d, ATC_HDLC_OK)" "rx_kept a d"
    using station_kept(1) [OF at_restD(4) [OF assms(1)], of peer] at_restD(1) [OF assms(1)] assms(2)
    by (auto simp: atc_hdlc_link_setup_def Let_def hdlc_run)
  then have "at_rest d" "rx_capacity d = rx_capacity a"
    using at_rest_call [of a "Link_setup peer" d "Result ATC_HDLC_OK"] assms(1) by simp_all
  then show ?thesis
    using d(1) at_restD(1) [OF assms(1)] assms(2) by (auto simp: atc_hdlc_link_setup_def Let_def hdlc_run)
qed

lemma disc_leg:
  assumes "at_rest a" "current_state a = ATC_HDLC_STATE_CONNECTED"
  shows "\<exists>d xs. atc_hdlc_disconnect a = Some (d, ATC_HDLC_OK) \<and> at_rest d \<and> peer_address d = peer_address a
     \<and> current_state d = ATC_HDLC_STATE_DISCONNECTING \<and> drv d = drv a \<and> my_address d = my_address a
     \<and> plat d = plat a \<and> rx_capacity d = rx_capacity a \<and> trace d = trace a @ xs
     \<and> line_octets xs = frame_octets (drv a) (peer_address a) (U_CTRL U_DISC 1) []
     \<and> events_of xs = (if has_on_event (plat a) then [ATC_HDLC_EVENT_DISC_REQ] else [])
     \<and> sends xs = frame_calls (drv a) (peer_address a) (U_CTRL U_DISC 1) []"
proof -
  obtain d where d: "atc_hdlc_disconnect a = Some (d, ATC_HDLC_OK)" "rx_kept a d"
    using station_kept(2) [OF at_restD(4) [OF assms(1)]] at_restD(1) [OF assms(1)] assms(2)
    by (auto simp: atc_hdlc_disconnect_def Let_def hdlc_run)
  then have "at_rest d" "rx_capacity d = rx_capacity a"
    using at_rest_call [of a Disconnect d "Result ATC_HDLC_OK"] assms(1) by simp_all
  then show ?thesis
    using d(1) at_restD(1) [OF assms(1)] assms(2) by (auto simp: atc_hdlc_disconnect_def Let_def hdlc_run)
qed

text \<open>A station that takes an unnumbered command or response: what the dispatcher leaves, carried over
  the receiver's own fields.\<close>

lemma hear_u:
  assumes "at_rest c" "4 \<le> rx_capacity c" "our_address c addr"
    and "line_octets xs = frame_octets (drv c) addr ctrl []"
    and disp: "\<And>c0. core c0 \<Longrightarrow> rx_frame c c0 \<Longrightarrow> \<exists>d. dispatch_frame c0 addr ctrl None 0 = Some d \<and> \<not> pending d
      \<and> Q c0 d \<and> (\<exists>ys. trace d = trace c0 @ ys \<and> R ys)"
  shows "\<exists>c0 d e ys. rx_frame c c0 \<and> Q c0 d \<and> hear c xs = Some e \<and> rx_frame d e \<and> at_rest e
    \<and> rx_capacity e = rx_capacity c \<and> drv e = drv c \<and> plat e = plat c \<and> my_address e = my_address c
    \<and> peer_address e = peer_address c \<and> config e = config c \<and> trace e = trace c @ ys \<and> R ys"
proof -
  let ?P = "\<lambda>c0 d. Q c0 d \<and> (\<exists>ys. trace d = trace c0 @ ys \<and> R ys)"
  have step: "\<exists>d. dispatch_frame c0 addr ctrl (info_of []) (word_of_nat (length ([] :: u8 list))) = Some d
      \<and> \<not> pending d \<and> ?P c0 d" if "core c0" "rx_frame c c0" for c0
    using disp [OF that] by simp
  obtain c0 d e where h: "rx_frame c c0" "core c0" "?P c0 d" "hear c xs = Some e" "rx_frame d e" "at_rest e"
      "same_env c0 d" "rx_capacity e = rx_capacity c"
    using hear_quiet [OF assms(1) _ _ assms(3,4) step] assms(2) by auto
  then show ?thesis
    using rx_frame_fields [OF h(1)] rx_frame_fields [OF h(5)] rx_frame_same [OF h(1)] rx_frame_same [OF h(5)]
    by (auto simp: same_env_def drv_def plat_def simp del: platform_ready crc_ready)
qed

lemma sabm_leg:
  assumes "at_rest b" "4 \<le> rx_capacity b" "our_address b addr" "current_state b = ATC_HDLC_STATE_DISCONNECTED"
    and "line_octets xs = frame_octets (drv b) addr (U_CTRL U_SABM 1) []"
  shows "\<exists>e ys. hear b xs = Some e \<and> at_rest e \<and> current_state e = ATC_HDLC_STATE_CONNECTED
     \<and> vs e = 0 \<and> vr e = 0 \<and> va e = 0 \<and> \<not> CTX_FLAG e HDLC_F_REMOTE_BUSY \<and> \<not> CTX_FLAG e HDLC_F_LOCAL_BUSY
     \<and> rx_capacity e = rx_capacity b \<and> drv e = drv b \<and> plat e = plat b \<and> my_address e = my_address b
     \<and> peer_address e = peer_address b \<and> config e = config b
     \<and> map_option slot_capacity (tx_window e) = map_option slot_capacity (tx_window b)
     \<and> trace e = trace b @ ys \<and> line_octets ys = frame_octets (drv b) (my_address b) 0x73 [] \<and> delivered ys = []
     \<and> events_of ys = (if has_on_event (plat b) then [ATC_HDLC_EVENT_CONN_REQ] else [])
     \<and> sends ys = frame_calls (drv b) (my_address b) 0x73 []"
proof -
  let ?Q = "\<lambda>c0 d. current_state d = ATC_HDLC_STATE_CONNECTED \<and> vs d = 0 \<and> vr d = 0 \<and> va d = 0
     \<and> \<not> CTX_FLAG d HDLC_F_REMOTE_BUSY \<and> \<not> CTX_FLAG d HDLC_F_LOCAL_BUSY
     \<and> map_option slot_capacity (tx_window d) = map_option slot_capacity (tx_window c0)"
  let ?R = "\<lambda>ys. line_octets ys = frame_octets (drv b) (my_address b) 0x73 [] \<and> delivered ys = []
     \<and> events_of ys = (if has_on_event (plat b) then [ATC_HDLC_EVENT_CONN_REQ] else [])
     \<and> sends ys = frame_calls (drv b) (my_address b) 0x73 []"
  have "\<exists>d. dispatch_frame c0 addr (U_CTRL U_SABM 1) None 0 = Some d \<and> \<not> pending d \<and> ?Q c0 d
      \<and> (\<exists>ys. trace d = trace c0 @ ys \<and> ?R ys)" if c0: "core c0" "rx_frame b c0" for c0
  proof -
    note f = rx_frame_fields [OF c0(2)] and s = rx_frame_same [OF c0(2)]
    let ?d = "say (reset_fields c0\<lparr>tx_crc := driver_fcs (drv c0) [my_address c0, U_CTRL U_UA 1],
       current_state := ATC_HDLC_STATE_CONNECTED\<rparr>) (t1_stop_calls c0 @ t2_stop_calls c0
         @ frame_calls (drv c0) (my_address c0) (U_CTRL U_UA 1) [] @ event_calls c0 ATC_HDLC_EVENT_CONN_REQ)"
    have "dispatch_frame c0 addr (U_CTRL U_SABM 1) None 0 = Some ?d"
      using c0(1) assms(4) f u_ctrl by (simp add: dispatch_frame_def state_disconnected_def Let_def hdlc_run)
    moreover have "map_option slot_capacity (map_option zero_lens w) = map_option slot_capacity w" for w
      by (cases w) simp_all
    ultimately show ?thesis
      using f s at_restD(2) [OF assms(1)] u_ctrl(7) by simp
  qed
  from hear_u [OF assms(1-3,5) this] obtain c0 d e ys where h: "rx_frame b c0" "?Q c0 d" "hear b xs = Some e"
    "rx_frame d e" "at_rest e" "rx_capacity e = rx_capacity b" "drv e = drv b" "plat e = plat b" "my_address e = my_address b"
    "peer_address e = peer_address b" "config e = config b" "trace e = trace b @ ys" "?R ys"
    by blast
  then show ?thesis
    using rx_frame_fields [OF h(1)] rx_frame_fields [OF h(4)] rx_frame_same [OF h(4)] by simp
qed

lemma ua_leg:
  assumes "at_rest a" "4 \<le> rx_capacity a" "our_address a addr" "current_state a = ATC_HDLC_STATE_CONNECTING"
    and "line_octets xs = frame_octets (drv a) addr 0x73 []"
  shows "\<exists>e ys. hear a xs = Some e \<and> at_rest e \<and> current_state e = ATC_HDLC_STATE_CONNECTED
     \<and> vs e = 0 \<and> vr e = 0 \<and> va e = 0 \<and> \<not> CTX_FLAG e HDLC_F_REMOTE_BUSY \<and> \<not> CTX_FLAG e HDLC_F_LOCAL_BUSY
     \<and> rx_capacity e = rx_capacity a \<and> drv e = drv a \<and> plat e = plat a \<and> my_address e = my_address a
     \<and> peer_address e = peer_address a \<and> config e = config a
     \<and> map_option slot_capacity (tx_window e) = map_option slot_capacity (tx_window a)
     \<and> trace e = trace a @ ys \<and> line_octets ys = []
     \<and> events_of ys = (if has_on_event (plat a) then [ATC_HDLC_EVENT_CONN_ACCEPTED] else [])
     \<and> map_option slot_count (tx_window e) = map_option slot_count (tx_window a)"
proof -
  let ?Q = "\<lambda>c0 d. current_state d = ATC_HDLC_STATE_CONNECTED \<and> vs d = 0 \<and> vr d = 0 \<and> va d = 0
     \<and> \<not> CTX_FLAG d HDLC_F_REMOTE_BUSY \<and> \<not> CTX_FLAG d HDLC_F_LOCAL_BUSY
     \<and> map_option slot_capacity (tx_window d) = map_option slot_capacity (tx_window c0)
     \<and> map_option slot_count (tx_window d) = map_option slot_count (tx_window c0)"
  let ?R = "\<lambda>ys. line_octets ys = [] \<and> events_of ys = (if has_on_event (plat a) then [ATC_HDLC_EVENT_CONN_ACCEPTED] else [])"
  have "\<exists>d. dispatch_frame c0 addr 0x73 None 0 = Some d \<and> \<not> pending d \<and> ?Q c0 d
      \<and> (\<exists>ys. trace d = trace c0 @ ys \<and> ?R ys)" if c0: "core c0" "rx_frame a c0" for c0
  proof -
    note f = rx_frame_fields [OF c0(2)] and s = rx_frame_same [OF c0(2)]
    have "map_option slot_capacity (map_option zero_lens w) = map_option slot_capacity w"
      "map_option slot_count (map_option zero_lens w) = map_option slot_count w" for w
      by (cases w; simp)+
    then show ?thesis
      using ua_connects [OF c0(1), of addr None 0] assms(4) f s at_restD(2) [OF assms(1)] by simp
  qed
  from hear_u [OF assms(1-3,5) this] obtain c0 d e ys where h: "rx_frame a c0" "?Q c0 d" "hear a xs = Some e"
    "rx_frame d e" "at_rest e" "rx_capacity e = rx_capacity a" "drv e = drv a" "plat e = plat a" "my_address e = my_address a"
    "peer_address e = peer_address a" "config e = config a" "trace e = trace a @ ys" "?R ys"
    by blast
  then show ?thesis
    using rx_frame_fields [OF h(1)] rx_frame_fields [OF h(4)] rx_frame_same [OF h(4)] by simp
qed

lemma peer_disc_leg:
  assumes "at_rest b" "4 \<le> rx_capacity b" "our_address b addr" "current_state b = ATC_HDLC_STATE_CONNECTED"
    and "line_octets xs = frame_octets (drv b) addr (U_CTRL U_DISC 1) []"
  shows "\<exists>e ys. hear b xs = Some e \<and> at_rest e \<and> current_state e = ATC_HDLC_STATE_DISCONNECTED
     \<and> trace e = trace b @ ys \<and> line_octets ys = frame_octets (drv b) (my_address b) 0x73 [] \<and> delivered ys = []
     \<and> events_of ys = (if has_on_event (plat b) then [ATC_HDLC_EVENT_PEER_DISC] else [])
     \<and> sends ys = frame_calls (drv b) (my_address b) 0x73 []"
proof -
  let ?Q = "\<lambda>c0 d. current_state d = ATC_HDLC_STATE_DISCONNECTED"
  let ?R = "\<lambda>ys. line_octets ys = frame_octets (drv b) (my_address b) 0x73 [] \<and> delivered ys = []
     \<and> events_of ys = (if has_on_event (plat b) then [ATC_HDLC_EVENT_PEER_DISC] else [])
     \<and> sends ys = frame_calls (drv b) (my_address b) 0x73 []"
  have "\<exists>d. dispatch_frame c0 addr (U_CTRL U_DISC 1) None 0 = Some d \<and> \<not> pending d \<and> ?Q c0 d
      \<and> (\<exists>ys. trace d = trace c0 @ ys \<and> ?R ys)" if c0: "core c0" "rx_frame b c0" for c0
  proof -
    note f = rx_frame_fields [OF c0(2)] and s = rx_frame_same [OF c0(2)]
    have "\<not> is_iframe (U_CTRL U_DISC 1)" "\<not> is_sframe (U_CTRL U_DISC 1)"
      using not_uframe_U(1,2) [OF u_ctrl(4)] by simp_all
    then show ?thesis
      using c0(1) assms(4) f s u_ctrl at_restD(2) [OF assms(1)]
      by (simp add: dispatch_frame_def state_connected_def handle_uframe_def Let_def hdlc_run)
  qed
  from hear_u [OF assms(1-3,5) this] obtain c0 d e ys where h: "rx_frame b c0" "?Q c0 d" "hear b xs = Some e"
    "rx_frame d e" "at_rest e" "trace e = trace b @ ys" "?R ys"
    by blast
  then show ?thesis using rx_frame_fields [OF h(4)] by simp
qed

lemma disc_done_leg:
  assumes "at_rest a" "4 \<le> rx_capacity a" "our_address a addr" "current_state a = ATC_HDLC_STATE_DISCONNECTING"
    and "line_octets xs = frame_octets (drv a) addr 0x73 []"
  shows "\<exists>e ys. hear a xs = Some e \<and> at_rest e \<and> current_state e = ATC_HDLC_STATE_DISCONNECTED
     \<and> \<not> CTX_FLAG e HDLC_F_T1_ACTIVE \<and> trace e = trace a @ ys \<and> line_octets ys = []
     \<and> events_of ys = (if has_on_event (plat a) then [ATC_HDLC_EVENT_DISC_DONE] else [])"
proof -
  let ?Q = "\<lambda>c0 d. current_state d = ATC_HDLC_STATE_DISCONNECTED \<and> \<not> CTX_FLAG d HDLC_F_T1_ACTIVE"
  let ?R = "\<lambda>ys. line_octets ys = [] \<and> events_of ys = (if has_on_event (plat a) then [ATC_HDLC_EVENT_DISC_DONE] else [])"
  have "\<exists>d. dispatch_frame c0 addr 0x73 None 0 = Some d \<and> \<not> pending d \<and> ?Q c0 d
      \<and> (\<exists>ys. trace d = trace c0 @ ys \<and> ?R ys)" if c0: "core c0" "rx_frame a c0" for c0
    using c0(1) assms(4) rx_frame_fields [OF c0(2)] rx_frame_same [OF c0(2)] ua_control at_restD(2) [OF assms(1)]
    by (simp add: dispatch_frame_def state_disconnecting_def Let_def hdlc_run) (simp add: hdlc_u_defs)
  from hear_u [OF assms(1-3,5) this] obtain c0 d e ys where h: "rx_frame a c0" "?Q c0 d" "hear a xs = Some e"
    "rx_frame d e" "at_rest e" "trace e = trace a @ ys" "?R ys"
    by blast
  then show ?thesis using rx_frame_fields [OF h(4)] rx_frame_same [OF h(4)] by simp
qed

text \<open>Two stations that may connect.\<close>

definition callable :: "atc_hdlc_ctx_t \<Rightarrow> atc_hdlc_ctx_t \<Rightarrow> bool" where
  "callable a b \<longleftrightarrow> at_rest a \<and> at_rest b \<and> current_state a = ATC_HDLC_STATE_DISCONNECTED
     \<and> current_state b = ATC_HDLC_STATE_DISCONNECTED \<and> drv a = drv b \<and> peer_address b = my_address a
     \<and> 4 \<le> rx_capacity a \<and> 4 \<le> rx_capacity b"

definition event_if :: "atc_hdlc_ctx_t \<Rightarrow> atc_hdlc_event_t list \<Rightarrow> atc_hdlc_event_t list" where
  "event_if c es = (if has_on_event (plat c) then es else [])"

lemma connect_run:
  assumes "callable a b"
  shows "\<exists>a' b' xs ys. connect (a, b) = Some (a', b') \<and> paired a' b' \<and> carries a' b' = carries a b
     \<and> vs a' = 0 \<and> vr a' = 0 \<and> vs b' = 0 \<and> vr b' = 0
     \<and> plat a' = plat a \<and> plat b' = plat b \<and> rx_capacity a' = rx_capacity a \<and> rx_capacity b' = rx_capacity b
     \<and> trace a' = trace a @ xs \<and> events_of xs = event_if a [ATC_HDLC_EVENT_SETUP_REQ, ATC_HDLC_EVENT_CONN_ACCEPTED]
     \<and> trace b' = trace b @ ys \<and> events_of ys = event_if b [ATC_HDLC_EVENT_CONN_REQ] \<and> delivered ys = []"
proof -
  obtain a1 xs where a1: "atc_hdlc_link_setup a (my_address b) = Some (a1, ATC_HDLC_OK)" "at_rest a1"
     "peer_address a1 = my_address b" "current_state a1 = ATC_HDLC_STATE_CONNECTING" "drv a1 = drv a"
     "my_address a1 = my_address a" "config a1 = config a" "plat a1 = plat a" "rx_capacity a1 = rx_capacity a"
     "tx_window a1 = tx_window a" "trace a1 = trace a @ xs"
     "line_octets xs = frame_octets (drv a) (my_address b) (U_CTRL U_SABM 1) []"
     "events_of xs = event_if a [ATC_HDLC_EVENT_SETUP_REQ]"
    using setup_leg [of a "my_address b"] assms unfolding callable_def event_if_def by blast
  have l1: "line_octets (new_calls a a1) = frame_octets (drv b) (my_address b) (U_CTRL U_SABM 1) []"
    using a1 assms by (simp add: new_calls_def callable_def)
  obtain b1 ys where b1: "hear b (new_calls a a1) = Some b1" "at_rest b1" "current_state b1 = ATC_HDLC_STATE_CONNECTED"
     "vs b1 = 0" "vr b1 = 0" "va b1 = 0" "\<not> CTX_FLAG b1 HDLC_F_REMOTE_BUSY" "\<not> CTX_FLAG b1 HDLC_F_LOCAL_BUSY"
     "rx_capacity b1 = rx_capacity b" "drv b1 = drv b" "plat b1 = plat b" "my_address b1 = my_address b"
     "peer_address b1 = peer_address b" "trace b1 = trace b @ ys"
     "line_octets ys = frame_octets (drv b) (my_address b) 0x73 []" "delivered ys = []"
     "events_of ys = event_if b [ATC_HDLC_EVENT_CONN_REQ]"
    using sabm_leg [OF _ _ _ _ l1] assms unfolding callable_def our_address_def event_if_def by blast
  have l2: "line_octets (new_calls b b1) = frame_octets (drv a1) (my_address b) 0x73 []"
    using a1 b1 assms by (simp add: new_calls_def callable_def)
  have "our_address a1 (my_address b)" "4 \<le> rx_capacity a1"
    using a1 assms by (simp_all add: our_address_def callable_def)
  then obtain a2 zs where a2: "hear a1 (new_calls b b1) = Some a2" "at_rest a2" "current_state a2 = ATC_HDLC_STATE_CONNECTED"
     "vs a2 = 0" "vr a2 = 0" "va a2 = 0" "\<not> CTX_FLAG a2 HDLC_F_REMOTE_BUSY" "rx_capacity a2 = rx_capacity a1"
     "drv a2 = drv a1" "plat a2 = plat a1" "my_address a2 = my_address a1" "peer_address a2 = peer_address a1"
     "config a2 = config a1" "map_option slot_capacity (tx_window a2) = map_option slot_capacity (tx_window a1)"
     "trace a2 = trace a1 @ zs" "line_octets zs = []"
     "events_of zs = event_if a1 [ATC_HDLC_EVENT_CONN_ACCEPTED]"
    using ua_leg [OF a1(2) _ _ a1(4) l2] unfolding event_if_def by blast
  have "connect (a, b) = Some (a2, b1)" by (simp add: connect_def a1(1) b1(1) a2(1))
  moreover have "paired a2 b1" using assms a1 a2 b1 by (simp add: paired_def callable_def)
  moreover have "tx_fits a2 n = tx_fits a n" for n using a1 a2 by (intro tx_fits_cong) simp_all
  then have "carries a2 b1 = carries a b" using a1 a2 b1 by (simp add: carries_def fun_eq_iff)
  moreover have "trace a2 = trace a @ (xs @ zs)"
    "events_of (xs @ zs) = event_if a [ATC_HDLC_EVENT_SETUP_REQ, ATC_HDLC_EVENT_CONN_ACCEPTED]"
    using a1 a2 by (simp_all add: event_if_def)
  ultimately show ?thesis using b1(4,5,9,11,14,16,17) a1(8,9) a2(4,5,8,10) by metis
qed

lemma disconnect_run:
  assumes "paired a b"
  shows "\<exists>a' b' xs ys. disconnect (a, b) = Some (a', b') \<and> at_rest a' \<and> at_rest b'
     \<and> current_state a' = ATC_HDLC_STATE_DISCONNECTED \<and> current_state b' = ATC_HDLC_STATE_DISCONNECTED
     \<and> \<not> CTX_FLAG a' HDLC_F_T1_ACTIVE
     \<and> trace a' = trace a @ xs \<and> events_of xs = event_if a [ATC_HDLC_EVENT_DISC_REQ, ATC_HDLC_EVENT_DISC_DONE]
     \<and> trace b' = trace b @ ys \<and> events_of ys = event_if b [ATC_HDLC_EVENT_PEER_DISC] \<and> delivered ys = []"
proof -
  have ab: "at_rest a" "at_rest b" "current_state a = ATC_HDLC_STATE_CONNECTED" "current_state b = ATC_HDLC_STATE_CONNECTED"
      "drv a = drv b" "peer_address a = my_address b"
      "4 \<le> rx_capacity a" "4 \<le> rx_capacity b"
    using assms(1) by (simp_all add: paired_def)
  obtain a1 xs where a1: "atc_hdlc_disconnect a = Some (a1, ATC_HDLC_OK)" "at_rest a1"
     "peer_address a1 = peer_address a" "current_state a1 = ATC_HDLC_STATE_DISCONNECTING" "drv a1 = drv a"
     "plat a1 = plat a" "rx_capacity a1 = rx_capacity a" "trace a1 = trace a @ xs"
     "line_octets xs = frame_octets (drv a) (peer_address a) (U_CTRL U_DISC 1) []"
     "events_of xs = event_if a [ATC_HDLC_EVENT_DISC_REQ]"
    using disc_leg [OF ab(1,3)] unfolding event_if_def by blast
  have l1: "line_octets (new_calls a a1) = frame_octets (drv b) (my_address b) (U_CTRL U_DISC 1) []"
    using a1 ab by (simp add: new_calls_def)
  obtain b1 ys where b1: "hear b (new_calls a a1) = Some b1" "at_rest b1" "current_state b1 = ATC_HDLC_STATE_DISCONNECTED"
     "trace b1 = trace b @ ys" "line_octets ys = frame_octets (drv b) (my_address b) 0x73 []" "delivered ys = []"
     "events_of ys = event_if b [ATC_HDLC_EVENT_PEER_DISC]"
    using peer_disc_leg [OF ab(2) ab(8) _ ab(4) l1] unfolding our_address_def event_if_def by blast
  have l2: "line_octets (new_calls b b1) = frame_octets (drv a1) (my_address b) 0x73 []"
    using a1 b1 ab by (simp add: new_calls_def)
  have "our_address a1 (my_address b)" "4 \<le> rx_capacity a1"
    using a1 ab assms by (simp_all add: our_address_def)
  then obtain a2 zs where a2: "hear a1 (new_calls b b1) = Some a2" "at_rest a2" "current_state a2 = ATC_HDLC_STATE_DISCONNECTED"
     "\<not> CTX_FLAG a2 HDLC_F_T1_ACTIVE" "trace a2 = trace a1 @ zs" "line_octets zs = []"
     "events_of zs = event_if a1 [ATC_HDLC_EVENT_DISC_DONE]"
    using disc_done_leg [OF a1(2) _ _ a1(4) l2] unfolding event_if_def by blast
  have "disconnect (a, b) = Some (a2, b1)" by (simp add: disconnect_def a1(1) b1(1) a2(1))
  moreover have "trace a2 = trace a @ (xs @ zs)"
    "events_of (xs @ zs) = event_if a [ATC_HDLC_EVENT_DISC_REQ, ATC_HDLC_EVENT_DISC_DONE]"
    using a1 a2 by (simp_all add: event_if_def)
  ultimately show ?thesis using b1 a2 by metis
qed

section \<open>The properties of a pair\<close>

text \<open>The two stations of the witnesses: the template's, and one with address 2 and no window.\<close>

definition peer_params :: atc_hdlc_params_t where
  "peer_params = bm_params\<lparr>p_config := Some (bm_cfg\<lparr>cfg_address := 0x02\<rparr>), p_tx_window := None\<rparr>"

definition peer_ctx0 :: atc_hdlc_ctx_t where
  "peer_ctx0 = (fst (atc_hdlc_init static_ctx peer_params))\<lparr>peer_address := 0x01\<rparr>"

lemma bm_pair: "callable bm_ctx0 peer_ctx0" "length p \<le> 64 \<Longrightarrow> carries bm_ctx0 peer_ctx0 p"
  "plat peer_ctx0 = bm_platform" "delivered (trace peer_ctx0) = []"
proof -
  have init: "atc_hdlc_init static_ctx peer_params = (fst (atc_hdlc_init static_ctx peer_params), ATC_HDLC_OK)"
    by (simp add: atc_hdlc_init_def peer_params_def bm_storage_defs is_null_def txwin_error_def Let_def hdlc_len_defs)
  have "params_ok peer_params" by (simp add: params_ok_def peer_params_def bm_storage_defs)
  then have "reachable (fst (atc_hdlc_init static_ctx peer_params))" using init by (rule reach_init)
  then have r: "reachable peer_ctx0" unfolding peer_ctx0_def by (rule reach_peer)
  have f: "idle_rx peer_ctx0" "rx_capacity peer_ctx0 = 72" "current_state peer_ctx0 = ATC_HDLC_STATE_DISCONNECTED"
    "drv peer_ctx0 = atc_hdlc_crc_ops_default" "plat peer_ctx0 = bm_platform" "my_address peer_ctx0 = 0x02"
    "peer_address peer_ctx0 = 0x01" "trace peer_ctx0 = []"
    by (simp_all add: peer_ctx0_def atc_hdlc_init_def peer_params_def bm_storage_defs is_null_def txwin_error_def Let_def
        hdlc_len_defs zero_ctx_def idle_rx_def view_def rx_capacity_def drv_def plat_def static_ctx_def)
  show "callable bm_ctx0 peer_ctx0"
    using r f bm_rx bm_reachable by (simp add: callable_def at_rest_def)
  show "plat peer_ctx0 = bm_platform" "delivered (trace peer_ctx0) = []" using f by simp_all
  have w: "tx_window bm_ctx0 = Some bm_tx_win" "config bm_ctx0 = Some bm_cfg"
    by (simp_all add: bm_ctx0_def atc_hdlc_init_def bm_storage_defs is_null_def txwin_error_def Let_def hdlc_len_defs)
  show "carries bm_ctx0 peer_ctx0 p" if "length p \<le> 64"
  proof -
    have "unat (word_of_nat (length p) :: u32) = length p"
      using that by (simp add: unat_of_nat take_bit_nat_eq_self)
    with that w f bm_rx show ?thesis
      by (simp add: carries_def tx_fits_def too_long_def bm_storage_defs word_less_nat_alt word_le_nat_alt)
  qed
qed

text \<open>C18 The connection handshake: \<open>atc_hdlc_link_setup\<close>, the SABM received by the peer, and the UA
  received back, take two disconnected stations that have each other's addresses to a connected pair
  with all sequence variables zero, reporting \<open>SETUP_REQ\<close> and \<open>CONN_ACCEPTED\<close> to the caller and
  \<open>CONN_REQ\<close> to the called application.\<close>

theorem handshake_connects:
  assumes "callable a b" "has_on_event (plat a)" "has_on_event (plat b)"
  shows "\<exists>a' b'. connect (a, b) = Some (a', b') \<and> paired a' b'
     \<and> vs a' = 0 \<and> vr a' = 0 \<and> vs b' = 0 \<and> vr b' = 0
     \<and> events_of (new_calls a a') = [ATC_HDLC_EVENT_SETUP_REQ, ATC_HDLC_EVENT_CONN_ACCEPTED]
     \<and> events_of (new_calls b b') = [ATC_HDLC_EVENT_CONN_REQ]"
  using connect_run [OF assms(1)] assms(2,3) by (auto simp: new_calls_def event_if_def)

lemma handshake_connects_witness:
  "\<exists>a' b'. connect (bm_ctx0, peer_ctx0) = Some (a', b') \<and> paired a' b'"
  using handshake_connects [OF bm_pair(1)] bm_rx(9) bm_pair(3) by (auto simp: bm_platform_def)

text \<open>C2 Reliable delivery over a line that loses nothing: whatever payloads a connected station sends,
  one after the other, each that both ends have room for, the peer's application gets exactly these
  payloads, each once, unchanged and in order, across any number of wrap-arounds of the 3-bit sequence
  numbers; after each acknowledgement the window is empty and the pair is as before.\<close>

theorem payloads_arrive:
  assumes "paired a b" "list_all (carries a b) ps"
  shows "\<exists>a' b'. transfers (a, b) ps = Some (a', b') \<and> paired a' b'
     \<and> delivered (new_calls b b') = map (\<lambda>p. (info_of p, word_of_nat (length p))) ps"
  using transfers_run [OF assms] by (auto simp: new_calls_def)

lemma payloads_arrive_witness:
  "\<exists>a b a' b'. connect (bm_ctx0, peer_ctx0) = Some (a, b) \<and> transfers (a, b) [[0x48, 0x69], [], [0x7E]] = Some (a', b')
     \<and> delivered (new_calls b b') = [(Some [0x48, 0x69], 2), (None, 0), (Some [0x7E], 1)]"
proof -
  obtain a b where ab: "connect (bm_ctx0, peer_ctx0) = Some (a, b)" "paired a b" "carries a b = carries bm_ctx0 peer_ctx0"
    using connect_run [OF bm_pair(1)] by blast
  have "list_all (carries a b) [[0x48, 0x69], [], [0x7E]]" using bm_pair(2) ab(3) by simp
  from payloads_arrive [OF ab(2) this] ab(1) show ?thesis by auto
qed

text \<open>C5 A whole session: connecting, sending any payloads that fit, and disconnecting always runs to
  its end, with both stations disconnected, T1 stopped, and exactly the payloads delivered.\<close>

theorem session_completes:
  assumes "callable a b" "list_all (carries a b) ps"
  shows "\<exists>a' b'. (connect (a, b) \<bind> (\<lambda>ab. transfers ab ps) \<bind> disconnect) = Some (a', b')
     \<and> current_state a' = ATC_HDLC_STATE_DISCONNECTED \<and> current_state b' = ATC_HDLC_STATE_DISCONNECTED
     \<and> \<not> CTX_FLAG a' HDLC_F_T1_ACTIVE
     \<and> delivered (new_calls b b') = map (\<lambda>p. (info_of p, word_of_nat (length p))) ps"
proof -
  obtain a1 b1 xs where 1: "connect (a, b) = Some (a1, b1)" "paired a1 b1" "carries a1 b1 = carries a b"
      "trace b1 = trace b @ xs" "delivered xs = []"
    using connect_run [OF assms(1)] by blast
  have "list_all (carries a1 b1) ps" using assms(2) 1(3) by simp
  then obtain a2 b2 ys where 2: "transfers (a1, b1) ps = Some (a2, b2)" "paired a2 b2" "trace b2 = trace b1 @ ys"
      "delivered ys = map (\<lambda>p. (info_of p, word_of_nat (length p))) ps"
    using transfers_run [OF 1(2)] by blast
  obtain a3 b3 zs where 3: "disconnect (a2, b2) = Some (a3, b3)" "current_state a3 = ATC_HDLC_STATE_DISCONNECTED"
      "current_state b3 = ATC_HDLC_STATE_DISCONNECTED" "\<not> CTX_FLAG a3 HDLC_F_T1_ACTIVE"
      "trace b3 = trace b2 @ zs" "delivered zs = []"
    using disconnect_run [OF 2(2)] by blast
  from 1 2 3 show ?thesis by (simp add: new_calls_def)
qed

lemma session_completes_witness:
  "\<exists>a' b'. (connect (bm_ctx0, peer_ctx0) \<bind> (\<lambda>ab. transfers ab [[0x48, 0x69], [0x7D]]) \<bind> disconnect) = Some (a', b')
     \<and> delivered (new_calls peer_ctx0 b') = [(Some [0x48, 0x69], 2), (Some [0x7D], 1)]"
proof -
  have "list_all (carries bm_ctx0 peer_ctx0) [[0x48, 0x69], [0x7D]]" using bm_pair(2) by simp
  from session_completes [OF bm_pair(1) this] show ?thesis by auto
qed

end
