(* ===== verification/Hdlc_Arrival.thy ===== *)
theory Hdlc_Arrival
  imports Hdlc_Pair
begin

text \<open>
  Single steps of a connected station as its peer sees them: the arrival of one frame, the expiry of a timer,
  the change of local busy; what each sends and delivers, and that it leaves the station at rest with
  the same surroundings. A frame on the line is the octets from one flag to the next.
\<close>

section \<open>Frames on the line\<close>

text \<open>A frame runs from one flag to the next.\<close>

fun frames_on :: "u8 list \<Rightarrow> u8 list list" where
  "frames_on [] = []"
| "frames_on (b # bs) = (let body = takeWhile (\<lambda>x. x \<noteq> FLAG) bs in
     (b # body @ [FLAG]) # frames_on (drop (Suc (length body)) bs))"

lemma frames_on_frame [simp]:
  "frames_on (frame_octets d addr ctrl info @ ys) = frame_octets d addr ctrl info # frames_on ys"
proof -
  let ?zs = "stuff (frame_body d addr ctrl info)"
  have "FLAG \<notin> set ?zs" by (rule stuff_no_flag)
  then have "takeWhile (\<lambda>x. x \<noteq> FLAG) (?zs @ FLAG # ys) = ?zs"
    by (subst takeWhile_append2) auto
  then show ?thesis by (simp add: frame_octets_def Let_def del: stuff_simps)
qed

lemma frames_on_one [simp]: "frames_on (frame_octets d addr ctrl info) = [frame_octets d addr ctrl info]"
  using frames_on_frame [of d addr ctrl info "[]"] by simp

lemma frame_octets_some [simp]: "frame_octets d addr ctrl info \<noteq> []"
  by (simp add: frame_octets_def del: stuff_simps)

section \<open>The arrival of a frame\<close>

definition arrives :: "atc_hdlc_ctx_t \<Rightarrow> u8 list \<Rightarrow> atc_hdlc_ctx_t option" where
  "arrives c f = atc_hdlc_data_in c (Some f) (word_of_nat (length f))"

lemma arrives_hear: "arrives c f = hear c (map (\<lambda>b. On_send b False) f)"
  by (simp add: arrives_def hear_def)

definition station_same :: "atc_hdlc_ctx_t \<Rightarrow> atc_hdlc_ctx_t \<Rightarrow> bool" where
  "station_same c d \<longleftrightarrow> drv d = drv c \<and> plat d = plat c \<and> my_address d = my_address c
     \<and> peer_address d = peer_address c \<and> rx_capacity d = rx_capacity c"

lemma station_same_refl [simp]: "station_same c c"
  by (simp add: station_same_def)

lemma same_env_station: "same_env c d \<Longrightarrow> station_same c d"
  unfolding station_same_def same_env_def drv_def plat_def rx_capacity_def by simp

lemma rx_frame_station: "rx_frame c d \<Longrightarrow> rx_capacity d = rx_capacity c \<Longrightarrow> station_same c d"
  using rx_frame_same [of c d] rx_frame_fields [of c d] by (simp add: station_same_def)

lemma station_same_trans: "station_same a b \<Longrightarrow> station_same b c \<Longrightarrow> station_same a c"
  by (simp add: station_same_def)

lemma reset_station [simp]: "station_same d (rx_reset st d)"
  by (rule rx_frame_station [OF rx_reset_frame]) (simp add: rx_capacity_def rx_reset_def)

text \<open>Every frame that arrives is handled, and leaves the station at rest with the same surroundings.\<close>

lemma arrives_frame:
  assumes "at_rest c" "length info + 4 \<le> rx_capacity c" "length info < 65536" "our_address c addr"
    and "f = frame_octets (drv c) addr ctrl info"
  shows "\<exists>c0 d e. core c0 \<and> rx_frame c c0 \<and> dispatch_frame c0 addr ctrl (info_of info) (word_of_nat (length info)) = Some d
     \<and> arrives c f = Some e \<and> at_rest e \<and> station_same c e \<and> (\<not> pending d \<longrightarrow> e = rx_reset RX_ADDR d)"
proof -
  obtain c0 where c0: "core c0" "rx_frame c c0" "rx_capacity c0 = rx_capacity c" "arrives c f =
     dispatch_frame c0 addr ctrl (info_of info) (word_of_nat (length info)) \<bind> (\<lambda>d.
       if pending d then retransmit_outstanding (rx_reset RX_ADDR d) else Some (rx_reset RX_ADDR d))"
    using hear_frame [OF assms(1-4), of "map (\<lambda>b. On_send b False) f" ctrl] assms(5) by (auto simp: arrives_hear)
  obtain d where d: "dispatch_frame c0 addr ctrl (info_of info) (word_of_nat (length info)) = Some d"
      "core d" "same_env c0 d" "retx_step c0 d"
    using dispatch_frame_post [OF c0(1) info_ok_of [OF assms(3)], of addr ctrl] by (auto simp: frame_post_def runs_iff)
  have "\<not> pending c0" using at_restD(2) [OF assms(1)] rx_frame_same(4) [OF c0(2)] by simp
  with d(4) have retx: "pending d \<Longrightarrow> retx_ok d" by (auto simp: retx_step_def)
  let ?r = "rx_reset RX_ADDR d"
  have r: "pending ?r = pending d" "retx_ok ?r = retx_ok d"
    using rx_frame_fields [OF rx_reset_frame, of RX_ADDR d] by (simp_all add: CTX_FLAG_def retx_ok_def cong: option.case_cong)
  have idle: "idle_rx ?r" by (simp add: idle_rx_def)
  obtain e where e: "arrives c f = Some e" "same_env ?r e" "\<not> pending d \<longrightarrow> e = ?r"
  proof (cases "pending d")
    case True
    then obtain e where "retransmit_outstanding ?r = Some e" "same_env ?r e"
      using retransmit_outstanding_post [of ?r] d(2) r retx by (auto simp: runs_iff)
    with that True c0(4) d(1) show thesis by simp
  next
    case False
    with that [of ?r] c0(4) d(1) show thesis by (simp add: same_env_def)
  qed
  have "idle_rx e" using kept_idle [OF same_env_kept [OF e(2)] idle] by simp
  then have "at_rest e"
    using hear_at_rest [OF assms(1,3), of "map (\<lambda>b. On_send b False) f" addr ctrl e] e(1) assms(5)
    by (simp add: arrives_hear)
  moreover have "station_same c e"
    using rx_frame_station [OF c0(2,3)] same_env_station [OF d(3)] reset_station [of d RX_ADDR] same_env_station [OF e(2)]
    by (blast intro: station_same_trans)
  ultimately show ?thesis using c0(1,2) d(1) e(1,3) by blast
qed

lemma rx_frame_trace: "rx_frame c c0 \<Longrightarrow> new_calls c d = new_calls c0 d"
  using rx_frame_fields [of c c0] by (simp add: new_calls_def)

lemma new_calls_reset [simp]: "new_calls c (rx_reset st d) = new_calls c d"
  by (simp add: new_calls_def rx_reset_def)

section \<open>What each station does with what arrives\<close>

lemma sframe_arrives:
  assumes "at_rest c" "current_state c = ATC_HDLC_STATE_CONNECTED" "our_address c addr" "4 \<le> rx_capacity c"
    and "is_sframe ctrl" "acceptable c (CTRL_NR ctrl)" "f = frame_octets (drv c) addr ctrl []"
  shows "\<exists>e. arrives c f = Some e \<and> at_rest e \<and> station_same c e \<and> current_state e = ATC_HDLC_STATE_CONNECTED
     \<and> va e = CTRL_NR ctrl \<and> vs e = vs c \<and> vr e = vr c
     \<and> unacked e = drop (dist8 (CTRL_NR ctrl) (va c)) (unacked c) \<and> delivered (new_calls c e) = [] \<and> retry_kept c e
     \<and> line_octets (new_calls c e) = sframe_reply c addr ctrl
         @ (if asks_again c addr ctrl \<and> CTRL_NR ctrl \<noteq> vs c then iframes c (CTRL_NR ctrl) (unacked e) else [])"
proof -
  obtain e where e: "arrives c f = Some e" "at_rest e" "station_same c e"
    using arrives_frame [of c "[]" addr f ctrl] assms by auto
  have "unat (word_of_nat (length f) :: u32) = length (frame_octets (drv c) addr ctrl [])"
    using frame_octets_size [of "[]"] assms(7) by simp
  from sframe_data_in [OF _ _ assms(3,4,2,5) _ this] e assms(1,6,7) show ?thesis
    by (auto simp: at_rest_def arrives_def acceptable_def out_count_def)
qed

text \<open>A disconnected station ignores S-frames and I-frames.\<close>

lemma disconnected_ignores:
  assumes "at_rest c" "current_state c = ATC_HDLC_STATE_DISCONNECTED" "our_address c addr"
    and "length info + 4 \<le> rx_capacity c" "length info < 65536" "\<not> is_uframe ctrl" "f = frame_octets (drv c) addr ctrl info"
  shows "\<exists>e. arrives c f = Some e \<and> at_rest e \<and> station_same c e \<and> current_state e = ATC_HDLC_STATE_DISCONNECTED
     \<and> (\<forall>g. CTX_FLAG e g = CTX_FLAG c g) \<and> new_calls c e = []"
proof -
  obtain c0 d e where h: "core c0" "rx_frame c c0" "dispatch_frame c0 addr ctrl (info_of info) (word_of_nat (length info)) = Some d"
     "arrives c f = Some e" "at_rest e" "station_same c e" "\<not> pending d \<longrightarrow> e = rx_reset RX_ADDR d"
    using arrives_frame [OF assms(1,4,5,3,7)] by auto
  have "d = c0" using h(3) rx_frame_fields [OF h(2)] assms(2,6) by (simp add: dispatch_frame_def state_disconnected_def)
  moreover have "\<not> pending c0" using at_restD(2) [OF assms(1)] rx_frame_same(4) [OF h(2)] by simp
  ultimately have e: "e = rx_reset RX_ADDR c0" using h(7) by simp
  show ?thesis
    using h(4-6) assms(2) rx_frame_fields [OF h(2)] rx_frame_same(4) [OF h(2)] rx_frame_same(4) [OF rx_reset_frame, of RX_ADDR c0]
      rx_frame_fields [OF rx_reset_frame, of RX_ADDR c0]
    by (simp add: e new_calls_def)
qed

text \<open>An I-frame whose N(R) is valid.\<close>

lemma iframe_arrives:
  assumes "at_rest b" "current_state b = ATC_HDLC_STATE_CONNECTED" "our_address b addr"
    and "length p < 65536" "length p + 4 \<le> rx_capacity b" "has_on_data (plat b)" "unat ns < 8" "acceptable b nr"
    and "f = frame_octets (drv b) addr (I_CTRL ns nr 0) p"
  shows "\<exists>e. arrives b f = Some e \<and> at_rest e \<and> station_same b e \<and> current_state e = ATC_HDLC_STATE_CONNECTED
     \<and> vs e = vs b \<and> va e = nr \<and> vr e = (if ns = vr b then mod8_succ (vr b) else vr b)
     \<and> unacked e = drop (dist8 nr (va b)) (unacked b) \<and> retry_kept b e
     \<and> delivered (new_calls b e) = (if ns = vr b then [(info_of p, word_of_nat (length p))] else [])
     \<and> (line_octets (new_calls b e) = []
       \<or> (\<exists>a s. a \<in> {my_address b, peer_address b} \<and> s \<in> {S_RNR, S_REJ}
           \<and> line_octets (new_calls b e) = frame_octets (drv b) a (S_CTRL s (vr e) 0) []))
     \<and> (ns = vr b \<and> line_octets (new_calls b e) = [] \<longrightarrow> CTX_FLAG e HDLC_F_T2_ACTIVE)"
proof -
  let ?ctrl = "I_CTRL ns nr 0"
  have nr: "unat nr < 8" using assms(8) by (simp add: acceptable_def)
  note ctl = i_ctrl [OF assms(7) nr]
  obtain c0 d e where h: "core c0" "rx_frame b c0" "dispatch_frame c0 addr ?ctrl (info_of p) (word_of_nat (length p)) = Some d"
     "arrives b f = Some e" "at_rest e" "station_same b e" "\<not> pending d \<longrightarrow> e = rx_reset RX_ADDR d"
    using arrives_frame [OF assms(1,5,4,3,9)] by blast
  note f = rx_frame_fields [OF h(2)] and s = rx_frame_same [OF h(2)]
  have np: "\<not> pending c0" using at_restD(2) [OF assms(1)] s(4) by simp
  have acc: "acceptable c0 (CTRL_NR ?ctrl)" using assms(8) s(2) ctl by simp
  have st: "current_state c0 = ATC_HDLC_STATE_CONNECTED" using assms(2) f by simp
  have dat: "delivered (data_calls c0 (info_of p) (word_of_nat (length p))) = [(info_of p, word_of_nat (length p))]"
    using assms(4,6) s by (simp add: data_calls_def unat_of_nat take_bit_nat_eq_self)
  have left: "unacked e = drop (dist8 nr (va b)) (unacked b)"
    if "tx_window d = tx_window c0" "tx_next_slot d = tx_next_slot c0" "vs d = vs c0" "va d = nr" "e = rx_reset RX_ADDR d"
  proof -
    have "unacked e = unacked d" unfolding that(5) by (rule rx_frame_same(1) [OF rx_reset_frame])
    also have "unacked d = unacked (processed c0 nr)" using that by (intro unacked_cong) simp_all
    also have "\<dots> = drop (dist8 nr (va c0)) (unacked c0)" using acc ctl by (intro processed_unacked h(1)) simp
    finally show ?thesis using f s(1) by simp
  qed
  note e = rx_frame_fields [OF rx_reset_frame, of RX_ADDR d] rx_frame_same(4) [OF rx_reset_frame, of RX_ADDR d]
  show ?thesis
  proof (cases "ns = vr b")
    case True
    then have "CTRL_NS ?ctrl = vr c0" using ctl f by simp
    from in_sequence_run [OF h(1) st ctl(1) acc this, of addr "info_of p" "word_of_nat (length p)"] h(3)
    have d: "current_state d = ATC_HDLC_STATE_CONNECTED" "vr d = mod8_succ (vr c0)" "vs d = vs c0" "va d = nr"
      "delivered (new_calls c0 d) = [(info_of p, word_of_nat (length p))]"
      "line_octets (new_calls c0 d) = in_sequence_reply c0 0" "pending d = pending c0"
      "tx_window d = tx_window c0" "tx_next_slot d = tx_next_slot c0" "retry_kept c0 d"
      "CTX_FLAG c0 HDLC_F_T2_ACTIVE \<or> \<not> CTX_FLAG c0 HDLC_F_LOCAL_BUSY \<longrightarrow> CTX_FLAG d HDLC_F_T2_ACTIVE"
      using dat ctl by auto
    then have "e = rx_reset RX_ADDR d" "retry_kept b e"
      using h(7) np rx_frame_retry [OF h(2)] by (auto intro: retry_kept_trans)
    with True d e h(4-6) rx_frame_trace [OF h(2), of d] f s left show ?thesis
      by (auto simp: in_sequence_reply_def)
  next
    case False
    then have "CTRL_NS ?ctrl \<noteq> vr c0" using ctl f by simp
    from out_of_sequence_run [OF h(1) st ctl(1) acc this, of addr "info_of p" "word_of_nat (length p)"] h(3)
    have d: "current_state d = ATC_HDLC_STATE_CONNECTED" "vr d = vr c0" "vs d = vs c0" "va d = nr"
      "delivered (new_calls c0 d) = []" "pending d = pending c0" "tx_window d = tx_window c0" "tx_next_slot d = tx_next_slot c0" "retry_kept c0 d"
      "line_octets (new_calls c0 d) = [] \<or> line_octets (new_calls c0 d) = frame_octets (drv c0) (peer_address c0) (S_CTRL S_REJ (vr c0) 0) []"
      using ctl by auto
    then have "e = rx_reset RX_ADDR d" "retry_kept b e"
      using h(7) np rx_frame_retry [OF h(2)] by (auto intro: retry_kept_trans)
    with False d e h(4-6) rx_frame_trace [OF h(2), of d] f s left show ?thesis by auto
  qed
qed

text \<open>The sender's timer, and the receiver's.\<close>

lemma call_rest:
  assumes "at_rest c" "legal c call" "hdlc_do c call = Some (d, r)" "rx_kept c d"
    and "plat d = plat c" "my_address d = my_address c" "peer_address d = peer_address c"
  shows "at_rest d \<and> station_same c d"
  using assms at_rest_call [OF assms(1-4)] by (simp add: station_same_def rx_kept_def)

lemma t1_step:
  assumes "at_rest c" "current_state c = ATC_HDLC_STATE_CONNECTED"
  shows "\<exists>d. atc_hdlc_t1_expired c = Some d \<and> at_rest d \<and> station_same c d \<and> delivered (new_calls c d) = []
    \<and> (if current_state d = ATC_HDLC_STATE_CONNECTED
       then vs d = vs c \<and> va d = va c \<and> vr d = vr c \<and> unacked d = unacked c \<and> CTX_FLAG d HDLC_F_REMOTE_BUSY = CTX_FLAG c HDLC_F_REMOTE_BUSY
         \<and> CTX_FLAG d HDLC_F_LOCAL_BUSY = CTX_FLAG c HDLC_F_LOCAL_BUSY
         \<and> line_octets (new_calls c d) = (if va c = vs c then []
             else if CTX_FLAG c HDLC_F_LOCAL_BUSY then frame_octets (drv c) (my_address c) (S_CTRL S_RNR (vr c) 1) []
             else frame_octets (drv c) (peer_address c) (S_CTRL S_RR (vr c) 1) [])
       else current_state d = ATC_HDLC_STATE_DISCONNECTED \<and> \<not> CTX_FLAG d HDLC_F_T1_ACTIVE
         \<and> \<not> CTX_FLAG d HDLC_F_T2_ACTIVE \<and> line_octets (new_calls c d) = [])
    \<and> (\<forall>cfg. config c = Some cfg \<and> (max_retries cfg = 0 \<or> n2 c + 1 \<le> max_retries cfg) \<longrightarrow>
         current_state d = ATC_HDLC_STATE_CONNECTED)"
proof -
  let ?m = "case config c of Some cfg \<Rightarrow> max_retries cfg | None \<Rightarrow> 0"
  let ?c = "CTX_CLR c HDLC_F_T1_ACTIVE\<lparr>n2 := n2 c + 1\<rparr>"
  have c: "core c" using assms(1) by (rule at_restD)
  obtain d where d: "atc_hdlc_t1_expired c = Some d" "rx_kept c d"
    using station_kept(5) [OF at_restD(4) [OF assms(1)]] by (auto simp: runs_iff)
  have kept: "at_rest d \<and> station_same c d" if "plat d = plat c" "my_address d = my_address c" "peer_address d = peer_address c"
    using call_rest [OF assms(1), of T1_expired d Void] d that by simp
  show ?thesis
  proof (cases "?m > 0 \<and> n2 c + 1 > ?m")
    case True
    have "core ?c" using c by simp
    then have "core (?c\<lparr>current_state := ATC_HDLC_STATE_DISCONNECTED\<rparr>)" by (rule core_state) simp
    then have e: "d = say (reset_fields (?c\<lparr>current_state := ATC_HDLC_STATE_DISCONNECTED\<rparr>))
        (event_calls c ATC_HDLC_EVENT_LINK_FAILURE @ t1_stop_calls (CTX_CLR c HDLC_F_T1_ACTIVE) @ t2_stop_calls c)"
      using d(1) True c assms(2) by (simp add: atc_hdlc_t1_expired_def Let_def hdlc_run event_calls_def)
    have "\<not> (max_retries cfg = 0 \<or> n2 c + 1 \<le> max_retries cfg)" if "config c = Some cfg" for cfg
      using True that by (auto simp: not_le)
    with d(1) kept show ?thesis by (auto simp: e new_calls_def)
  next
    case False
    show ?thesis
    proof (cases "va c = vs c")
      case True
      with False d(1) c assms(2) have e: "d = ?c"
        by (simp add: atc_hdlc_t1_expired_def Let_def hdlc_run split: if_splits)
      then have "unacked d = unacked c" by (intro unacked_cong) simp_all
      with e kept d(1) True assms(2) show ?thesis by (simp add: new_calls_def)
    next
      case out: False
      let ?a = "if CTX_FLAG c HDLC_F_LOCAL_BUSY then my_address c else peer_address c"
      let ?t = "S_CTRL (if CTX_FLAG c HDLC_F_LOCAL_BUSY then S_RNR else S_RR) (vr c) 1"
      have e: "d = say (CTX_SET (?c\<lparr>tx_crc := driver_fcs (drv c) [?a, ?t]\<rparr>) HDLC_F_T1_ACTIVE)
          (frame_calls (drv c) ?a ?t [] @ t1_start_calls c)"
        using False out d(1) c assms(2) by (auto simp: atc_hdlc_t1_expired_def Let_def hdlc_run)
      then have "unacked d = unacked c" by (intro unacked_cong) simp_all
      with e kept d(1) out assms(2) show ?thesis by (simp add: new_calls_def)
    qed
  qed
qed


lemma unacked_tx_crc [simp]: "unacked (c\<lparr>tx_crc := x\<rparr>) = unacked c"
  by (rule unacked_cong) simp_all

lemma t2_step:
  assumes "at_rest c"
  shows "\<exists>d. atc_hdlc_t2_expired c = Some d \<and> at_rest d \<and> station_same c d \<and> current_state d = current_state c
    \<and> vs d = vs c \<and> va d = va c \<and> vr d = vr c \<and> unacked d = unacked c \<and> retry_kept c d \<and> delivered (new_calls c d) = []
    \<and> CTX_FLAG d HDLC_F_LOCAL_BUSY = CTX_FLAG c HDLC_F_LOCAL_BUSY
    \<and> line_octets (new_calls c d) = (if CTX_FLAG c HDLC_F_LOCAL_BUSY
        then frame_octets (drv c) (my_address c) (S_CTRL S_RNR (vr c) 0) []
        else frame_octets (drv c) (peer_address c) (S_CTRL S_RR (vr c) 0) [])"
proof -
  have c: "core c" using assms(1) by (rule at_restD)
  obtain d where d: "atc_hdlc_t2_expired c = Some d" "rx_kept c d"
    using station_kept(6) [OF at_restD(4) [OF assms(1)]] by (auto simp: runs_iff)
  with c have "plat d = plat c" "my_address d = my_address c" "peer_address d = peer_address c"
    by (auto simp: atc_hdlc_t2_expired_def Let_def hdlc_run split: if_splits)
  then have "at_rest d \<and> station_same c d" using call_rest [OF assms(1), of T2_expired d Void] d by simp
  then show ?thesis
    using d(1) c by (auto simp: atc_hdlc_t2_expired_def Let_def hdlc_run new_calls_def split: if_splits)
qed

lemma busy_step:
  assumes "at_rest c" "current_state c = ATC_HDLC_STATE_CONNECTED"
  shows "\<exists>d. atc_hdlc_set_local_busy c busy = Some (d, ATC_HDLC_OK) \<and> at_rest d \<and> station_same c d \<and> current_state d = current_state c
    \<and> vs d = vs c \<and> va d = va c \<and> vr d = vr c \<and> unacked d = unacked c \<and> delivered (new_calls c d) = []
    \<and> (line_octets (new_calls c d) = [] \<or> line_octets (new_calls c d) = frame_octets (drv c) (peer_address c) (S_CTRL S_RR (vr c) 0) [])"
proof -
  have c: "core c" using assms(1) by (rule at_restD)
  obtain d where d: "atc_hdlc_set_local_busy c busy = Some (d, ATC_HDLC_OK)" "rx_kept c d"
    using station_kept(4) [OF at_restD(4) [OF assms(1)], of busy] assms(2)
    by (cases "atc_hdlc_set_local_busy c busy") (auto simp: atc_hdlc_set_local_busy_def Let_def hdlc_run c split: if_splits)
  with c have "plat d = plat c" "my_address d = my_address c" "peer_address d = peer_address c"
    by (auto simp: atc_hdlc_set_local_busy_def Let_def hdlc_run split: if_splits)
  then have "at_rest d \<and> station_same c d"
    using call_rest [OF assms(1), of "Set_local_busy busy" d "Result ATC_HDLC_OK"] d by simp
  then show ?thesis
    using d(1) c assms(2) by (auto simp: atc_hdlc_set_local_busy_def Let_def hdlc_run new_calls_def split: if_splits)
qed

end
