(* ===== verification/Hdlc_Lossy.thy ===== *)
theory Hdlc_Lossy
  imports Hdlc_Arrival "HOL-Library.Sublist"
begin

text \<open>
  Two connected stations joined by a line that may lose frames, in either direction and in any number, both with
  payloads to send. The invariant relates the 3-bit numbers of the frames in flight to whole numbers; every step of
  either station, and every loss, keeps it.
\<close>

section \<open>Numbers without wrap-around\<close>

text \<open>
  Payloads are numbered from 0 on; a frame shows the number modulo 8. The proof keeps the whole numbers
  of the I-frames in flight, in order: \<open>Some k\<close>, or \<open>None\<close> for an S-frame.
\<close>

definition num :: "nat \<Rightarrow> u8" where
  "num n = word_of_nat (n mod 8)"

lemma unat_num [simp]: "unat (num n) = n mod 8"
  by (simp add: num_def unat_of_nat take_bit_nat_eq_self)

lemma num_eq: "num a = num b \<longleftrightarrow> a mod 8 = b mod 8"
  by (simp add: word_unat_eq_iff)

lemma num_succ: "mod8_succ (num n) = num (Suc n)"
  by (simp add: word_unat_eq_iff unat_mod8_succ mod_Suc_eq)

lemma num_dist: "a \<le> b \<Longrightarrow> b \<le> a + 7 \<Longrightarrow> dist8 (num b) (num a) = b - a"
proof -
  assume a: "a \<le> b" "b \<le> a + 7"
  define d m where "d = b - a" and "m = a mod 8"
  have "b = a + d" using a(1) by (simp add: d_def)
  then have b: "b mod 8 = (m + d) mod 8" by (simp add: m_def mod_simps)
  have "m < 8" "d \<le> 7" using a by (simp_all add: m_def d_def)
  then have "((m + d) mod 8 + 8 - m) mod 8 = d" by (auto simp: mod_if)
  then show ?thesis by (simp add: dist8_def b d_def m_def)
qed

text \<open>
  A frame in flight is at most seven numbers behind the receiver and behind every frame before it.
\<close>

fun gap :: "nat \<Rightarrow> nat option list \<Rightarrow> bool" where
  "gap hi [] = True"
| "gap hi (None # gs) = gap hi gs"
| "gap hi (Some k # gs) = (hi \<le> k + 7 \<and> gap (max hi (Suc k)) gs)"

lemma gap_mono: "gap hi gs \<Longrightarrow> lo \<le> hi \<Longrightarrow> gap lo gs"
proof (induction hi gs arbitrary: lo rule: gap.induct)
  case (3 hi k gs)
  then have "gap (max lo (Suc k)) gs" by auto
  with 3 show ?case by simp
qed auto

lemma gap_remove: "gap hi (gs @ g # hs) \<Longrightarrow> gap hi (gs @ hs)"
proof (induction hi gs rule: gap.induct)
  case (1 hi)
  then show ?case by (cases g) (auto elim: gap_mono)
qed auto

lemma gap_append:
  "gap hi gs \<Longrightarrow> hi \<le> n \<Longrightarrow> \<forall>k. Some k \<in> set gs \<longrightarrow> k < n \<Longrightarrow> \<forall>k. Some k \<in> set hs \<longrightarrow> k < n \<and> n \<le> k + 7 \<Longrightarrow>
   gap hi (gs @ hs)"
proof (induction hi gs rule: gap.induct)
  case (1 hi)
  then show ?case
    by (induction hi hs rule: gap.induct) auto
next
  case (3 hi k gs)
  then have "gap (max hi (Suc k)) (gs @ hs)" by (intro "3.IH") auto
  with 3 show ?case by simp
qed auto

text \<open>So the number shown identifies the frame the receiver expects.\<close>

lemma gap_expected:
  assumes "gap r (Some k # gs)" "k < n" "n \<le> v + 7" "v \<le> r"
  shows "num k = num r \<longleftrightarrow> k = r"
proof -
  have near: "r \<le> k + 7" "k \<le> r + 7" using assms by auto
  show ?thesis
  proof
    assume "num k = num r"
    then have "dist8 (num r) (num k) = dist8 (num k) (num k)" "dist8 (num k) (num r) = dist8 (num k) (num k)" by simp_all
    then show "k = r" using near num_dist [of k r] num_dist [of r k] num_dist [of k k] by (cases "k \<le> r") simp_all
  qed simp
qed

section \<open>Two stations and a line that loses frames\<close>

text \<open>
  Both stations send. Frames are on the line in order in each direction; any of them may be lost.
  \<open>near_took\<close> lists the payloads \<open>atc_hdlc_transmit_i\<close> has accepted of the near application,
  \<open>near_got\<close> what the near station has delivered to it.
\<close>

record lossy_t =
  near :: atc_hdlc_ctx_t
  far :: atc_hdlc_ctx_t
  to_far :: "u8 list list"
  to_near :: "u8 list list"
  near_took :: "u8 list list"
  far_took :: "u8 list list"
  near_got :: "(octets \<times> u16) list"
  far_got :: "(octets \<times> u16) list"

abbreviation put_out :: "atc_hdlc_ctx_t \<Rightarrow> atc_hdlc_ctx_t \<Rightarrow> u8 list list" where
  "put_out c d \<equiv> frames_on (line_octets (new_calls c d))"

text \<open>The near station has become \<open>c\<close>: what it sends goes on the line, what it delivers to its application.\<close>

definition acts :: "lossy_t \<Rightarrow> atc_hdlc_ctx_t \<Rightarrow> lossy_t" where
  "acts s c = s\<lparr>near := c, to_far := to_far s @ put_out (near s) c, near_got := near_got s @ delivered (new_calls (near s) c)\<rparr>"

inductive near_step :: "lossy_t \<Rightarrow> lossy_t \<Rightarrow> bool" where
  sends: "atc_hdlc_transmit_i (near s) (Some p) (word_of_nat (length p)) = Some (c, ATC_HDLC_OK) \<Longrightarrow>
     length p < 65536 \<Longrightarrow> length p + 4 \<le> rx_capacity (far s) \<Longrightarrow>
     near_step s ((acts s c)\<lparr>near_took := near_took s @ [p]\<rparr>)"
| hears: "to_near s = f # fs \<Longrightarrow> arrives (near s) f = Some c \<Longrightarrow> near_step s ((acts s c)\<lparr>to_near := fs\<rparr>)"
| t1: "CTX_FLAG (near s) HDLC_F_T1_ACTIVE \<Longrightarrow> atc_hdlc_t1_expired (near s) = Some c \<Longrightarrow> near_step s (acts s c)"
| t2: "CTX_FLAG (near s) HDLC_F_T2_ACTIVE \<Longrightarrow> atc_hdlc_t2_expired (near s) = Some c \<Longrightarrow> near_step s (acts s c)"
| busy: "atc_hdlc_set_local_busy (near s) b = Some (c, ATC_HDLC_OK) \<Longrightarrow> near_step s (acts s c)"
| lost: "to_far s = fs @ f # gs \<Longrightarrow> near_step s (s\<lparr>to_far := fs @ gs\<rparr>)"

text \<open>The far station does the same, with the roles exchanged.\<close>

definition mirror :: "lossy_t \<Rightarrow> lossy_t" where
  "mirror s = \<lparr>near = far s, far = near s, to_far = to_near s, to_near = to_far s,
     near_took = far_took s, far_took = near_took s, near_got = far_got s, far_got = near_got s\<rparr>"

lemma mirror_mirror [simp]: "mirror (mirror s) = s"
  by (simp add: mirror_def)

lemma mirror_fields [simp]:
  "near (mirror s) = far s" "far (mirror s) = near s" "to_far (mirror s) = to_near s" "to_near (mirror s) = to_far s"
  "near_took (mirror s) = far_took s" "far_took (mirror s) = near_took s"
  "near_got (mirror s) = far_got s" "far_got (mirror s) = near_got s"
  by (simp_all add: mirror_def)

definition lossy_step :: "lossy_t \<Rightarrow> lossy_t \<Rightarrow> bool" where
  "lossy_step s t \<longleftrightarrow> near_step s t \<or> near_step (mirror s) (mirror t)"

lemma acts_fields [simp]:
  "near (acts s c) = c" "far (acts s c) = far s" "to_far (acts s c) = to_far s @ put_out (near s) c" "to_near (acts s c) = to_near s"
  "near_took (acts s c) = near_took s" "far_took (acts s c) = far_took s"
  "near_got (acts s c) = near_got s @ delivered (new_calls (near s) c)" "far_got (acts s c) = far_got s"
  by (simp_all add: acts_def)

section \<open>The invariant\<close>

text \<open>
  A frame in flight is described by the number of its payload, if it has one, and by the number its N(R) shows:
  how many payloads its sender had received. In each direction \<open>r\<close> payloads have been received, \<open>v\<close>
  of which the sender knows.
\<close>

definition shows_frame :: "atc_hdlc_ctx_t \<Rightarrow> u8 list list \<Rightarrow> nat option \<times> nat \<Rightarrow> u8 list \<Rightarrow> bool" where
  "shows_frame b ps g f \<longleftrightarrow> (case fst g of
       Some k \<Rightarrow> k < length ps \<and> f = frame_octets (drv b) (my_address b) (I_CTRL (num k) (num (snd g)) 0) (ps ! k)
     | None \<Rightarrow> \<exists>addr ctrl. our_address b addr \<and> is_sframe ctrl \<and> CTRL_NR ctrl = num (snd g) \<and> f = frame_octets (drv b) addr ctrl [])"

definition joined :: "atc_hdlc_ctx_t \<Rightarrow> atc_hdlc_ctx_t \<Rightarrow> bool" where
  "joined a b \<longleftrightarrow> at_rest a \<and> at_rest b \<and> drv a = drv b \<and> peer_address a = my_address b \<and> peer_address b = my_address a
     \<and> 4 \<le> rx_capacity a \<and> 4 \<le> rx_capacity b \<and> has_on_data (plat a) \<and> has_on_data (plat b)"

definition end_ok :: "atc_hdlc_ctx_t \<Rightarrow> nat \<Rightarrow> u8 list list \<Rightarrow> nat \<Rightarrow> bool" where
  "end_ok a v ps q \<longleftrightarrow> (if current_state a = ATC_HDLC_STATE_CONNECTED
     then vs a = num (length ps) \<and> va a = num v \<and> vr a = num q \<and> unacked a = drop v ps
     else current_state a = ATC_HDLC_STATE_DISCONNECTED \<and> \<not> CTX_FLAG a HDLC_F_T1_ACTIVE \<and> \<not> CTX_FLAG a HDLC_F_T2_ACTIVE)"

definition fits_in :: "atc_hdlc_ctx_t \<Rightarrow> u8 list \<Rightarrow> bool" where
  "fits_in b p \<longleftrightarrow> length p < 65536 \<and> length p + 4 \<le> rx_capacity b"

abbreviation handed_of :: "u8 list \<Rightarrow> octets \<times> u16" where
  "handed_of p \<equiv> (info_of p, word_of_nat (length p))"

definition way_ok :: "atc_hdlc_ctx_t \<Rightarrow> u8 list list \<Rightarrow> (octets \<times> u16) list \<Rightarrow> nat \<Rightarrow> nat
    \<Rightarrow> (nat option \<times> nat) list \<Rightarrow> u8 list list \<Rightarrow> bool" where
  "way_ok b ps got v r gs fs \<longleftrightarrow> list_all (fits_in b) ps \<and> r \<le> length ps \<and> length ps \<le> v + 7
     \<and> got = map handed_of (take r ps) \<and> gap r (map fst gs) \<and> list_all2 (shows_frame b ps) gs fs"

definition lossy_inv :: "lossy_t \<Rightarrow> nat \<Rightarrow> nat \<Rightarrow> nat \<Rightarrow> nat \<Rightarrow> (nat option \<times> nat) list \<Rightarrow> (nat option \<times> nat) list \<Rightarrow> bool" where
  "lossy_inv s v r w q gs hs \<longleftrightarrow> joined (near s) (far s)
     \<and> end_ok (near s) v (near_took s) q \<and> end_ok (far s) w (far_took s) r
     \<and> way_ok (far s) (near_took s) (far_got s) v r gs (to_far s) \<and> way_ok (near s) (far_took s) (near_got s) w q hs (to_near s)
     \<and> sorted (v # map snd hs @ [r]) \<and> sorted (w # map snd gs @ [q])"

lemma mirror_inv [simp]: "lossy_inv (mirror s) w q v r hs gs \<longleftrightarrow> lossy_inv s v r w q gs hs"
  by (auto simp: lossy_inv_def joined_def)

lemma lossy_invD:
  assumes "lossy_inv s v r w q gs hs"
  shows "joined (near s) (far s)" "end_ok (near s) v (near_took s) q" "end_ok (far s) w (far_took s) r"
    "way_ok (far s) (near_took s) (far_got s) v r gs (to_far s)" "way_ok (near s) (far_took s) (near_got s) w q hs (to_near s)"
    "sorted (v # map snd hs @ [r])" "sorted (w # map snd gs @ [q])" "v \<le> r" "w \<le> q"
  using assms by (simp_all add: lossy_inv_def)

lemma way_okD:
  assumes "way_ok b ps got v r gs fs"
  shows "list_all (fits_in b) ps" "r \<le> length ps" "length ps \<le> v + 7" "got = map handed_of (take r ps)" "gap r (map fst gs)"
    "list_all2 (shows_frame b ps) gs fs"
  using assms by (simp_all add: way_ok_def)

lemma shows_frame_cong: "station_same b d \<Longrightarrow> shows_frame d ps = shows_frame b ps"
  by (simp add: shows_frame_def station_same_def our_address_def fun_eq_iff split: option.split)

lemma fits_in_cong: "station_same b d \<Longrightarrow> fits_in d = fits_in b"
  by (simp add: fits_in_def station_same_def fun_eq_iff)

lemma way_ok_cong: "station_same b d \<Longrightarrow> way_ok d = way_ok b"
proof -
  assume same: "station_same b d"
  then have "shows_frame d = shows_frame b" "fits_in d = fits_in b"
    by (auto intro: shows_frame_cong fits_in_cong)
  then show "way_ok d = way_ok b" by (intro ext) (simp only: way_ok_def)
qed

lemma joined_near: "joined a b \<Longrightarrow> at_rest c \<Longrightarrow> station_same a c \<Longrightarrow> joined c b"
  by (simp add: joined_def station_same_def)

lemma shows_frame_more: "shows_frame b ps g f \<Longrightarrow> shows_frame b (ps @ qs) g f"
  by (auto simp: shows_frame_def nth_append split: option.splits)

lemma shows_frame_less: "list_all2 (shows_frame b ps) gs fs \<Longrightarrow> Some k \<in> fst ` set gs \<Longrightarrow> k < length ps"
  by (induction gs fs rule: list_all2_induct) (auto simp: shows_frame_def split: option.splits)

text \<open>Control octets of S-frames read back.\<close>

lemma small_s_ctrl:
  "\<forall>r < 8. list_all (\<lambda>s. list_all (\<lambda>p. is_sframe (S_CTRL s (word_of_nat r) p) \<and> CTRL_S (S_CTRL s (word_of_nat r) p) = s
     \<and> CTRL_NR (S_CTRL s (word_of_nat r) p) = word_of_nat r \<and> CTRL_PF (S_CTRL s (word_of_nat r) p) = p) [0, 1]) [S_RR, S_RNR, S_REJ]"
  unfolding all_less_code by code_simp

lemma s_ctrl:
  assumes "unat r < 8" "s \<in> {S_RR, S_RNR, S_REJ}" "p \<in> {0, 1}"
  shows "is_sframe (S_CTRL s r p)" "CTRL_NR (S_CTRL s r p) = r" "CTRL_S (S_CTRL s r p) = s" "CTRL_PF (S_CTRL s r p) = p"
  using small_s_ctrl [rule_format, OF assms(1)] assms(2,3) by auto

text \<open>The frames a station sends show its V(R): an S-frame, and the run of a retransmission.\<close>

lemma shows_s:
  assumes "drv a = drv b" "x \<in> {my_address a, peer_address a}" "peer_address a = my_address b" "peer_address b = my_address a"
    and "t \<in> {S_RR, S_RNR, S_REJ}" "p \<in> {0, 1}"
  shows "shows_frame b ps (None, q) (frame_octets (drv a) x (S_CTRL t (num q) p) [])"
proof -
  have "our_address b x" using assms(2-4) by (auto simp: our_address_def)
  moreover have "unat (num q) < 8" by simp
  ultimately have "\<exists>addr ctrl. our_address b addr \<and> is_sframe ctrl \<and> CTRL_NR ctrl = num q
      \<and> frame_octets (drv a) x (S_CTRL t (num q) p) [] = frame_octets (drv b) addr ctrl []"
    using s_ctrl(1,2) [OF _ assms(5,6)] assms(1) by metis
  then show ?thesis by (simp add: shows_frame_def)
qed

lemma shows_run:
  assumes "vr a = num q" "drv a = drv b" "peer_address a = my_address b" "k \<le> length ps"
  shows "list_all2 (shows_frame b ps) (map (\<lambda>k. (Some k, q)) [k..<length ps]) (frames_on (iframes a (num k) (drop k ps)))"
  using assms(4)
proof (induction "length ps - k" arbitrary: k)
  case (Suc m)
  then have k: "k < length ps" by simp
  then have d: "drop k ps = ps ! k # drop (Suc k) ps" by (rule Cons_nth_drop_Suc [symmetric])
  have "list_all2 (shows_frame b ps) (map (\<lambda>k. (Some k, q)) [Suc k..<length ps])
      (frames_on (iframes a (num (Suc k)) (drop (Suc k) ps)))"
    using Suc by (intro Suc.hyps) auto
  with k show ?case
    by (simp add: d num_succ upt_conv_Cons shows_frame_def assms(1-3))
qed simp

section \<open>Every step keeps the invariant\<close>

text \<open>What a step of the near station must establish.\<close>

lemma act_inv:
  assumes "lossy_inv s v r w q gs hs" "at_rest c" "station_same (near s) c" "end_ok c v' (near_took s @ xs) q'"
    and "list_all (fits_in (far s)) xs" "length (near_took s @ xs) \<le> v' + 7" "v \<le> v'" "q \<le> q'" "q' \<le> length (far_took s)"
    and "gap q' (map fst ks)" "list_all2 (shows_frame (near s) (far_took s)) ks fs" "sorted (v' # map snd ks @ [r])"
    and "list_all2 (shows_frame (far s) (near_took s @ xs)) ns (put_out (near s) c)"
    and "\<forall>g \<in> set ns. snd g = q' \<and> (\<forall>k. fst g = Some k \<longrightarrow> v' \<le> k)"
    and "near_got s @ delivered (new_calls (near s) c) = map handed_of (take q' (far_took s))"
  shows "lossy_inv ((acts s c)\<lparr>to_near := fs, near_took := near_took s @ xs\<rparr>) v' r w q' (gs @ ns) ks"
proof -
  note i = lossy_invD [OF assms(1)]
  note out = way_okD [OF i(4)] and inn = way_okD [OF i(5)]
  let ?ps = "near_took s @ xs"
  have new: "k < length ?ps \<and> length ?ps \<le> k + 7" if "Some k \<in> set (map fst ns)" for k
  proof -
    have "k < length ?ps" using shows_frame_less [OF assms(13)] that by simp
    moreover have "v' \<le> k" using assms(14) that by auto
    ultimately show ?thesis using assms(6) by simp
  qed
  have "gap r (map fst gs @ map fst ns)"
    using out(2,5) shows_frame_less [OF out(6)] new by (intro gap_append [of _ _ "length ?ps"]) fastforce+
  moreover have "list_all2 (shows_frame (far s) ?ps) (gs @ ns) (to_far s @ put_out (near s) c)"
    using out(6) assms(13) by (auto intro!: list_all2_appendI elim: list_all2_mono [OF _ shows_frame_more])
  ultimately have "way_ok (far s) ?ps (far_got s) v' r (gs @ ns) (to_far s @ put_out (near s) c)"
    using out(1,2,4) assms(5,6) by (simp add: way_ok_def)
  moreover have "way_ok c (far_took s) (near_got s @ delivered (new_calls (near s) c)) w q' ks fs"
    unfolding way_ok_cong [OF assms(3)] using inn(1,3) assms(9,10,11,15) by (simp add: way_ok_def)
  moreover have "sorted (w # map snd (gs @ ns) @ [q'])"
  proof -
    have "sorted (map snd ns @ [q'])" "\<forall>x \<in> set (map snd ns). x = q'"
      using assms(14) by (induction ns) auto
    then show ?thesis using i(7) assms(8) by (auto simp: sorted_append intro: le_trans)
  qed
  moreover have "joined c (far s)" using i(1) assms(2,3) by (rule joined_near)
  ultimately show ?thesis
    using i(3) assms(4,12) by (simp add: lossy_inv_def)
qed

lemma send_step:
  assumes "at_rest a" "atc_hdlc_transmit_i a (Some p) (word_of_nat (length p)) = Some (c, ATC_HDLC_OK)" "length p < 65536"
  shows "at_rest c" "station_same a c" "current_state a = ATC_HDLC_STATE_CONNECTED" "current_state c = ATC_HDLC_STATE_CONNECTED"
    "vs c = mod8_succ (vs a)" "va c = va a" "vr c = vr a" "unacked c = unacked a @ [p]" "out_count a < 7"
    "CTX_FLAG c HDLC_F_LOCAL_BUSY = CTX_FLAG a HDLC_F_LOCAL_BUSY"
    "line_octets (new_calls a c) = frame_octets (drv a) (peer_address a) (I_CTRL (vs a) (vr a) 0) p"
    "delivered (new_calls a c) = []"
proof -
  let ?n = "word_of_nat (length p) :: u32"
  have core: "core a" using assms(1) by (rule at_restD)
  have n: "unat ?n = length p" using assms(3) by (simp add: unat_of_nat take_bit_nat_eq_self)
  then have r: "readable (Some p) ?n" "payload (Some p) ?n = p" by (simp_all add: readable_def payload_def)
  have none: "tx_error a ?n = None"
  proof (cases "tx_error a ?n")
    case (Some e)
    then have "e \<noteq> ATC_HDLC_OK" by (auto simp: tx_error_def split: if_splits)
    with Some show ?thesis using transmit_i_spec [OF core r(1)] assms(2) by simp
  qed
  then have c: "c = sent_ctx a p ?n" using transmit_i_spec [OF core r(1)] assms(2) r(2) by simp
  obtain w where w: "tx_window a = Some w" "current_state a = ATC_HDLC_STATE_CONNECTED" "out_count a < unat (slot_count w)"
    using none by (auto simp: tx_error_def tx_open_def split: if_splits option.splits)
  have "unat (slot_count w) \<le> 7"
    using core_win_geom [OF core w(1)] by (auto simp: win_geom_def split: option.splits)
  with w(3) show "out_count a < 7" by simp
  have same: "plat c = plat a" "my_address c = my_address a" "peer_address c = peer_address a"
    using w by (simp_all add: c sent_ctx_def sent_fields_def)
  have "rx_kept a c"
    using transmit_kept(1) [OF at_restD(4) [OF assms(1)] r(1)] assms(2) by simp
  from call_rest [OF assms(1) _ _ this same, of "Transmit_i (Some p) ?n" "Result ATC_HDLC_OK"] assms(2) r(1)
  show "at_rest c" "station_same a c" by simp_all
  show "unacked c = unacked a @ [p]" unfolding c by (rule sent_unacked [OF core none n])
  show "current_state a = ATC_HDLC_STATE_CONNECTED" by (rule w(2))
  show "current_state c = ATC_HDLC_STATE_CONNECTED" "vs c = mod8_succ (vs a)" "va c = va a" "vr c = vr a"
    "CTX_FLAG c HDLC_F_LOCAL_BUSY = CTX_FLAG a HDLC_F_LOCAL_BUSY"
    using w(1,2) by (simp_all add: c sent_ctx_def sent_fields_def)
  show "line_octets (new_calls a c) = frame_octets (drv a) (peer_address a) (I_CTRL (vs a) (vr a) 0) p"
    "delivered (new_calls a c) = []"
    using w(1,2) by (simp_all add: c sent_ctx_def sent_fields_def sent_calls_def new_calls_def)
qed

lemma near_facts:
  assumes "lossy_inv s v r w q gs hs"
  shows "at_rest (near s)" "4 \<le> rx_capacity (near s)" "drv (near s) = drv (far s)" "has_on_data (plat (near s))"
    "peer_address (near s) = my_address (far s)" "peer_address (far s) = my_address (near s)"
    "r \<le> length (near_took s)" "q \<le> length (far_took s)" "length (near_took s) \<le> v + 7"
  using lossy_invD(1,4,5) [OF assms] by (simp_all add: joined_def way_ok_def)

lemma near_connected:
  assumes "lossy_inv s v r w q gs hs" "current_state (near s) = ATC_HDLC_STATE_CONNECTED"
  shows "vs (near s) = num (length (near_took s))" "va (near s) = num v" "vr (near s) = num q"
    "unacked (near s) = drop v (near_took s)"
  using lossy_invD(2) [OF assms(1)] assms(2) by (simp_all add: end_ok_def)

lemma near_down:
  assumes "lossy_inv s v r w q gs hs" "current_state (near s) \<noteq> ATC_HDLC_STATE_CONNECTED"
  shows "current_state (near s) = ATC_HDLC_STATE_DISCONNECTED" "\<not> CTX_FLAG (near s) HDLC_F_T1_ACTIVE" "\<not> CTX_FLAG (near s) HDLC_F_T2_ACTIVE"
  using lossy_invD(2) [OF assms(1)] assms(2) by (simp_all add: end_ok_def)

lemma sends_inv:
  assumes "lossy_inv s v r w q gs hs" "atc_hdlc_transmit_i (near s) (Some p) (word_of_nat (length p)) = Some (c, ATC_HDLC_OK)"
    and "length p < 65536" "length p + 4 \<le> rx_capacity (far s)"
  shows "lossy_inv ((acts s c)\<lparr>near_took := near_took s @ [p]\<rparr>) v r w q (gs @ [(Some (length (near_took s)), q)]) hs"
proof -
  let ?n = "length (near_took s)"
  note i = lossy_invD [OF assms(1)] and near = near_facts [OF assms(1)]
  note st = send_step [OF near(1) assms(2,3)]
  note a = near_connected [OF assms(1) st(3)] and inn = way_okD [OF i(5)]
  have "?n - v < 7"
    using st(9) num_dist [of v ?n] a(1,2) i(8) near(7,9) by (simp add: out_count_def)
  then have "end_ok c v (near_took s @ [p]) q" "length (near_took s @ [p]) \<le> v + 7"
    using st a i(8) near(7) by (simp_all add: end_ok_def num_succ)
  moreover have "list_all2 (shows_frame (far s) (near_took s @ [p])) [(Some ?n, q)] (put_out (near s) c)"
    using st(11) a(1,3) near(3,5) by (simp add: shows_frame_def)
  moreover note st(12)
  ultimately have "lossy_inv ((acts s c)\<lparr>to_near := to_near s, near_took := near_took s @ [p]\<rparr>) v r w q (gs @ [(Some ?n, q)]) hs"
    using i(8) near(7,8) inn assms(3,4)
    by (intro act_inv [OF assms(1) st(1,2) _ _ _ order_refl order_refl _ _ _ i(6)]) (simp_all add: fits_in_def)
  then show ?thesis by (simp add: acts_def)
qed

text \<open>An S-frame the station may send, with the number it has received up to.\<close>

definition says_s :: "atc_hdlc_ctx_t \<Rightarrow> nat \<Rightarrow> u8 list \<Rightarrow> bool" where
  "says_s a q f \<longleftrightarrow> (\<exists>x t p. x \<in> {my_address a, peer_address a} \<and> t \<in> {S_RR, S_RNR, S_REJ} \<and> p \<in> {0, 1}
     \<and> f = frame_octets (drv a) x (S_CTRL t (num q) p) [])"

lemma says_s_frame [simp]:
  "x \<in> {my_address a, peer_address a} \<Longrightarrow> t \<in> {S_RR, S_RNR, S_REJ} \<Longrightarrow> p \<in> {0, 1} \<Longrightarrow>
   says_s a q (frame_octets (drv a) x (S_CTRL t (num q) p) [])"
  unfolding says_s_def by blast

lemma says_s_shown:
  assumes "says_s (near s) q f" "lossy_inv s v r w q' gs hs"
  shows "f \<noteq> []" "list_all2 (shows_frame (far s) ps) [(None, q)] (frames_on f)"
  using assms(1) near_facts(3,5,6) [OF assms(2)] shows_s [of "near s" "far s" _ _ _ ps q]
  unfolding says_s_def by fastforce+

text \<open>A step that sends at most an S-frame and delivers nothing.\<close>

lemma quiet_inv:
  assumes "lossy_inv s v r w q gs hs" "at_rest c" "station_same (near s) c" "end_ok c v (near_took s) q"
    and "delivered (new_calls (near s) c) = []"
    and "line_octets (new_calls (near s) c) = [] \<or> says_s (near s) q (line_octets (new_calls (near s) c))"
  shows "lossy_inv (acts s c) v r w q (gs @ (if line_octets (new_calls (near s) c) = [] then [] else [(None, q)])) hs"
proof -
  note i = lossy_invD [OF assms(1)] and near = near_facts [OF assms(1)]
  note inn = way_okD [OF i(5)]
  let ?ns = "if line_octets (new_calls (near s) c) = [] then [] else [(None, q)]"
  have ns: "list_all2 (shows_frame (far s) (near_took s @ [])) ?ns (put_out (near s) c)"
    using assms(6) says_s_shown [OF _ assms(1)] by auto
  have "lossy_inv ((acts s c)\<lparr>to_near := to_near s, near_took := near_took s @ []\<rparr>) v r w q (gs @ ?ns) hs"
    using assms(4,5) i(8) near(8,9) inn
    by (intro act_inv [OF assms(1-3) _ _ _ order_refl order_refl _ _ _ i(6) ns]) simp_all
  then show ?thesis by (simp add: acts_def)
qed

lemma t2_inv:
  assumes "lossy_inv s v r w q gs hs" "CTX_FLAG (near s) HDLC_F_T2_ACTIVE"
  shows "\<exists>c. atc_hdlc_t2_expired (near s) = Some c \<and> current_state c = ATC_HDLC_STATE_CONNECTED
    \<and> station_same (near s) c \<and> retry_kept (near s) c
    \<and> lossy_inv (acts s c) v r w q (gs @ [(None, q)]) hs"
proof -
  note near = near_facts [OF assms(1)]
  have up: "current_state (near s) = ATC_HDLC_STATE_CONNECTED" using near_down(3) [OF assms(1)] assms(2) by blast
  note a = near_connected [OF assms(1) up]
  obtain c where c: "atc_hdlc_t2_expired (near s) = Some c" "at_rest c" "station_same (near s) c"
     "current_state c = ATC_HDLC_STATE_CONNECTED" "vs c = vs (near s)" "va c = va (near s)" "vr c = vr (near s)"
     "unacked c = unacked (near s)" "delivered (new_calls (near s) c) = []"
     "retry_kept (near s) c" "says_s (near s) q (line_octets (new_calls (near s) c))"
    using t2_step [OF near(1)] a(3) up by auto
  have "end_ok c v (near_took s) q" using c a by (simp add: end_ok_def)
  from quiet_inv [OF assms(1) c(2,3) this c(9)] c(11) says_s_shown(1) [OF c(11) assms(1)]
  have "lossy_inv (acts s c) v r w q (gs @ [(None, q)]) hs" by simp
  with c show ?thesis by (intro exI [of _ c]) simp
qed

lemma busy_inv:
  assumes "lossy_inv s v r w q gs hs" "atc_hdlc_set_local_busy (near s) b = Some (c, ATC_HDLC_OK)"
  shows "\<exists>gs. lossy_inv (acts s c) v r w q gs hs"
proof -
  note near = near_facts [OF assms(1)]
  have up: "current_state (near s) = ATC_HDLC_STATE_CONNECTED"
    using assms(2) by (simp add: atc_hdlc_set_local_busy_def split: if_splits)
  note a = near_connected [OF assms(1) up]
  have c: "at_rest c" "station_same (near s) c"
     "current_state c = ATC_HDLC_STATE_CONNECTED" "vs c = vs (near s)" "va c = va (near s)" "vr c = vr (near s)"
     "unacked c = unacked (near s)" "delivered (new_calls (near s) c) = []"
     "line_octets (new_calls (near s) c) = [] \<or> says_s (near s) q (line_octets (new_calls (near s) c))"
    using busy_step [OF near(1) up, of b] assms(2) a(3) up by auto
  have "end_ok c v (near_took s) q" using c a by (simp add: end_ok_def)
  from quiet_inv [OF assms(1) c(1,2) this c(8)] c(9) show ?thesis by blast
qed

lemma t1_inv:
  assumes "lossy_inv s v r w q gs hs" "CTX_FLAG (near s) HDLC_F_T1_ACTIVE" "atc_hdlc_t1_expired (near s) = Some c"
  shows "\<exists>gs. lossy_inv (acts s c) v r w q gs hs"
proof -
  note near = near_facts [OF assms(1)]
  have up: "current_state (near s) = ATC_HDLC_STATE_CONNECTED" using near_down(2) [OF assms(1)] assms(2) by blast
  note a = near_connected [OF assms(1) up]
  have c: "at_rest c" "station_same (near s) c" "delivered (new_calls (near s) c) = []"
     "if current_state c = ATC_HDLC_STATE_CONNECTED
       then vs c = vs (near s) \<and> va c = va (near s) \<and> vr c = vr (near s) \<and> unacked c = unacked (near s)
       else current_state c = ATC_HDLC_STATE_DISCONNECTED \<and> \<not> CTX_FLAG c HDLC_F_T1_ACTIVE \<and> \<not> CTX_FLAG c HDLC_F_T2_ACTIVE"
     "line_octets (new_calls (near s) c) = [] \<or> says_s (near s) q (line_octets (new_calls (near s) c))"
    using t1_step [OF near(1) up] assms(3) a(3) by (auto split: if_splits)
  have "end_ok c v (near_took s) q" using c(4) a by (simp add: end_ok_def split: if_splits)
  from quiet_inv [OF assms(1) c(1,2) this c(3,5)] show ?thesis by blast
qed

text \<open>The arrival of a frame; the numbers of the frames it makes the station send.\<close>

lemma arrived: "\<exists>e. m = Some e \<and> Q e \<Longrightarrow> m = Some c \<Longrightarrow> Q c"
  by auto

definition sends_on :: "lossy_t \<Rightarrow> u8 \<Rightarrow> u8 \<Rightarrow> nat \<Rightarrow> nat \<Rightarrow> (nat option \<times> nat) list" where
  "sends_on s addr ctrl v q = (if sframe_reply (near s) addr ctrl = [] then [] else [(None, q)])
     @ (if asks_again (near s) addr ctrl \<and> v \<noteq> length (near_took s) then map (\<lambda>k. (Some k, q)) [v..<length (near_took s)] else [])"

lemma near_acceptable:
  assumes "lossy_inv s v r w q gs ((g, a) # hs)" "current_state (near s) = ATC_HDLC_STATE_CONNECTED"
  shows "acceptable (near s) (num a)" "dist8 (num a) (va (near s)) = a - v" "v \<le> a" "a \<le> length (near_took s)"
    "sorted (a # map snd hs @ [r])" "num a \<noteq> vs (near s) \<longleftrightarrow> a \<noteq> length (near_took s)"
    "length (near_took s) \<le> a + 7"
proof -
  note i = lossy_invD [OF assms(1)] and near = near_facts [OF assms(1)] and c = near_connected [OF assms]
  let ?n = "length (near_took s)"
  show le: "v \<le> a" "sorted (a # map snd hs @ [r])" using i(6) by auto
  show len: "a \<le> ?n" "?n \<le> a + 7" using i(6) near(7,9) by auto
  show d: "dist8 (num a) (va (near s)) = a - v" using c(2) le(1) len(1) near(9) by (simp add: num_dist)
  have "dist8 (num ?n) (num v) = ?n - v" using le len near(9) by (intro num_dist) auto
  then show "acceptable (near s) (num a)" using c d le(1) len(1) by (simp add: acceptable_def out_count_def)
  have "dist8 (num ?n) (num a) = ?n - a" using len by (intro num_dist) auto
  then have "num a = num ?n \<longrightarrow> a = ?n" using len(1) num_dist [of a a] by auto
  then show "num a \<noteq> vs (near s) \<longleftrightarrow> a \<noteq> ?n" using c(1) by auto
qed

lemma sframe_inv:
  assumes "lossy_inv s v r w q gs ((None, a) # hs)" "to_near s = f # fs" "current_state (near s) = ATC_HDLC_STATE_CONNECTED"
    and "our_address (near s) addr" "is_sframe ctrl" "CTRL_NR ctrl = num a" "f = frame_octets (drv (near s)) addr ctrl []"
  shows "\<exists>c. arrives (near s) f = Some c \<and> current_state c = ATC_HDLC_STATE_CONNECTED \<and> station_same (near s) c \<and> retry_kept (near s) c
    \<and> (\<not> asks_again (near s) addr ctrl \<longrightarrow> line_octets (new_calls (near s) c) = sframe_reply (near s) addr ctrl)
    \<and> lossy_inv ((acts s c)\<lparr>to_near := fs\<rparr>) a r w q (gs @ sends_on s addr ctrl a q) hs"
proof -
  note i = lossy_invD [OF assms(1)] and near = near_facts [OF assms(1)] and up = near_connected [OF assms(1,3)]
  note acc = near_acceptable [OF assms(1,3)] and inn = way_okD [OF i(5)]
  let ?a = "near s" and ?n = "length (near_took s)" and ?h = "sends_on s addr ctrl a q"
  have nr: "acceptable ?a (CTRL_NR ctrl)" using acc(1) assms(6) by simp
  obtain c where run: "arrives ?a f = Some c"
    using sframe_arrives [OF near(1) assms(3,4) near(2) assms(5) nr assms(7)] by blast
  from arrived [OF sframe_arrives [OF near(1) assms(3,4) near(2) assms(5) nr assms(7)] run] assms(6) acc(2,3) up
  have c: "at_rest c" "station_same ?a c" "current_state c = ATC_HDLC_STATE_CONNECTED" "va c = num a" "vs c = num ?n"
    "vr c = num q" "unacked c = drop a (near_took s)" "delivered (new_calls ?a c) = []"
    "retry_kept ?a c" "line_octets (new_calls ?a c) = sframe_reply ?a addr ctrl
       @ (if asks_again ?a addr ctrl \<and> num a \<noteq> vs ?a then iframes ?a (num a) (drop a (near_took s)) else [])"
    by auto
  have rr: "says_s ?a q (sframe_reply ?a addr ctrl)"
    "sframe_reply ?a addr ctrl = frame_octets (drv ?a) (my_address ?a) (S_CTRL S_RR (num q) 1) []"
    if "sframe_reply ?a addr ctrl \<noteq> []"
    using up(3) that by (auto simp: sframe_reply_def split: if_splits)
  have "list_all2 (shows_frame (far s) (near_took s)) (map (\<lambda>k. (Some k, q)) [a..<?n]) (frames_on (iframes ?a (num a) (drop a (near_took s))))"
    using up(3) near(3,5) acc(4) by (rule shows_run)
  then have hs: "list_all2 (shows_frame (far s) (near_took s @ [])) ?h (put_out ?a c)"
    unfolding sends_on_def c(10) acc(6) using rr(2) says_s_shown(2) [OF rr(1) assms(1)] by (auto intro: list_all2_appendI)
  have "lossy_inv ((acts s c)\<lparr>to_near := fs, near_took := near_took s @ []\<rparr>) a r w q (gs @ ?h) hs"
  proof (rule act_inv [OF assms(1) c(1,2) _ _ _ acc(3) order_refl near(8) _ _ acc(5) hs])
    show "\<forall>g \<in> set ?h. snd g = q \<and> (\<forall>k. fst g = Some k \<longrightarrow> a \<le> k)" by (auto simp: sends_on_def)
    show "list_all2 (shows_frame ?a (far_took s)) hs fs" using inn(6) assms(2) by simp
  qed (use c acc inn in \<open>simp_all add: end_ok_def\<close>)
  with run c(2,3,9,10) show ?thesis by (intro exI [of _ c]) (simp add: acts_def)
qed

lemma iframe_inv:
  assumes "lossy_inv s v r w q gs ((Some k, a) # hs)" "to_near s = f # fs" "current_state (near s) = ATC_HDLC_STATE_CONNECTED"
  shows "\<exists>c ns. arrives (near s) f = Some c \<and> current_state c = ATC_HDLC_STATE_CONNECTED \<and> station_same (near s) c \<and> retry_kept (near s) c
    \<and> lossy_inv ((acts s c)\<lparr>to_near := fs\<rparr>) a r w (if k = q then Suc q else q) (gs @ ns) hs
    \<and> (k = q \<longrightarrow> CTX_FLAG c HDLC_F_T2_ACTIVE \<or> ns = [(None, Suc q)])"
proof -
  note i = lossy_invD [OF assms(1)] and near = near_facts [OF assms(1)] and up = near_connected [OF assms(1,3)]
  note acc = near_acceptable [OF assms(1,3)] and inn = way_okD [OF i(5)]
  let ?a = "near s" and ?n = "length (near_took s)" and ?q = "if k = q then Suc q else q"
  have f: "k < length (far_took s)" "f = frame_octets (drv ?a) (my_address ?a) (I_CTRL (num k) (num a) 0) (far_took s ! k)"
    using inn(6) assms(2) by (auto simp: shows_frame_def)
  have fit: "length (far_took s ! k) < 65536" "length (far_took s ! k) + 4 \<le> rx_capacity ?a"
    using inn(1) f(1) by (simp_all add: list_all_length fits_in_def)
  have eq: "num k = vr ?a \<longleftrightarrow> k = q"
    using gap_expected [of q k "map fst hs" "length (far_took s)" w] inn(3,5) f(1) i(9) up(3) by simp
  have own: "our_address ?a (my_address ?a)" "unat (num k) < 8" by (simp_all add: our_address_def)
  note step = iframe_arrives [OF near(1) assms(3) own(1) fit near(4) own(2) acc(1) f(2)]
  obtain c where run: "arrives ?a f = Some c" using step by blast
  from arrived [OF step run] have c: "at_rest c" "station_same ?a c" "current_state c = ATC_HDLC_STATE_CONNECTED" "vs c = vs ?a"
      "va c = num a" "vr c = (if num k = vr ?a then mod8_succ (vr ?a) else vr ?a)"
      "unacked c = drop (dist8 (num a) (va ?a)) (unacked ?a)"
      "delivered (new_calls ?a c) = (if num k = vr ?a then [handed_of (far_took s ! k)] else [])"
      "line_octets (new_calls ?a c) = [] \<or> (\<exists>x t. x \<in> {my_address ?a, peer_address ?a} \<and> t \<in> {S_RNR, S_REJ}
           \<and> line_octets (new_calls ?a c) = frame_octets (drv ?a) x (S_CTRL t (vr c) 0) [])"
      "num k = vr ?a \<and> line_octets (new_calls ?a c) = [] \<longrightarrow> CTX_FLAG c HDLC_F_T2_ACTIVE" "retry_kept ?a c"
    by blast+
  have vr: "vr c = num ?q" using c(6) eq up(3) by (simp add: num_succ)
  have line: "line_octets (new_calls ?a c) = [] \<or> says_s ?a ?q (line_octets (new_calls ?a c))"
    using c(9) unfolding vr says_s_def by blast
  let ?ns = "if line_octets (new_calls ?a c) = [] then [] else [(None, ?q)]"
  have ns: "list_all2 (shows_frame (far s) (near_took s @ [])) ?ns (put_out ?a c)"
    using line says_s_shown [OF _ assms(1)] by auto
  have gap: "gap ?q (map fst hs)" using inn(5) by (auto elim: gap_mono)
  have end_ok: "end_ok c a (near_took s @ []) ?q" using c(3-5,7) vr acc(2,3) up by (simp add: end_ok_def)
  have got: "near_got s @ delivered (new_calls ?a c) = map handed_of (take ?q (far_took s))"
    using inn(4) c(8) eq f(1) by (simp add: take_Suc_conv_app_nth)
  have rest: "list_all2 (shows_frame ?a (far_took s)) hs fs" "?q \<le> length (far_took s)" "q \<le> ?q"
    using inn(2,6) assms(2) f(1) by simp_all
  have "lossy_inv ((acts s c)\<lparr>to_near := fs, near_took := near_took s @ []\<rparr>) a r w ?q (gs @ ?ns) hs"
    by (rule act_inv [OF assms(1) c(1,2) end_ok _ _ acc(3) rest(3,2) gap rest(1) acc(5) ns _ got]) (use acc(7) in simp_all)
  then have "lossy_inv ((acts s c)\<lparr>to_near := fs\<rparr>) a r w ?q (gs @ ?ns) hs" by (simp add: acts_def)
  moreover have "k = q \<longrightarrow> CTX_FLAG c HDLC_F_T2_ACTIVE \<or> ?ns = [(None, Suc q)]" using c(10) eq by auto
  ultimately show ?thesis using run c(2,3,11) by blast
qed

text \<open>A station that has given up ignores what arrives.\<close>

lemma down_inv:
  assumes "lossy_inv s v r w q gs (h # hs)" "to_near s = f # fs" "current_state (near s) \<noteq> ATC_HDLC_STATE_CONNECTED"
    and "arrives (near s) f = Some c"
  shows "\<exists>v gs. lossy_inv ((acts s c)\<lparr>to_near := fs\<rparr>) v r w q gs hs"
proof -
  note i = lossy_invD [OF assms(1)] and near = near_facts [OF assms(1)] and down = near_down [OF assms(1,3)]
  note inn = way_okD [OF i(5)]
  let ?a = "near s"
  have h: "shows_frame ?a (far_took s) h f" "list_all2 (shows_frame ?a (far_took s)) hs fs" using inn(6) assms(2) by simp_all
  have "\<exists>e. arrives ?a f = Some e \<and> at_rest e \<and> station_same ?a e \<and> current_state e = ATC_HDLC_STATE_DISCONNECTED
     \<and> (\<forall>g. CTX_FLAG e g = CTX_FLAG ?a g) \<and> new_calls ?a e = []"
  proof (cases "fst h")
    case None
    then obtain addr ctrl where "our_address ?a addr" "is_sframe ctrl" "f = frame_octets (drv ?a) addr ctrl []"
      using h(1) by (auto simp: shows_frame_def)
    moreover from this have "\<not> is_uframe ctrl" by (auto simp: frame_kinds)
    ultimately show ?thesis using near(1,2) down(1) by (intro disconnected_ignores [of _ addr "[]"]) simp_all
  next
    case (Some k)
    then have f: "k < length (far_took s)" "f = frame_octets (drv ?a) (my_address ?a) (I_CTRL (num k) (num (snd h)) 0) (far_took s ! k)"
      using h(1) by (simp_all add: shows_frame_def)
    then have "length (far_took s ! k) < 65536" "length (far_took s ! k) + 4 \<le> rx_capacity ?a"
      using inn(1) by (simp_all add: list_all_length fits_in_def)
    moreover have "is_iframe (I_CTRL (num k) (num (snd h)) 0)" using i_ctrl(1) [of "num k" "num (snd h)"] by simp
    then have "\<not> is_uframe (I_CTRL (num k) (num (snd h)) 0)" by (auto simp: frame_kinds)
    ultimately show ?thesis using near(1) down(1) f(2)
      by (intro disconnected_ignores [of _ "my_address ?a" "far_took s ! k"]) (simp_all add: our_address_def)
  qed
  from arrived [OF this assms(4)] down have c: "at_rest c" "station_same ?a c" "current_state c = ATC_HDLC_STATE_DISCONNECTED"
    "\<not> CTX_FLAG c HDLC_F_T1_ACTIVE" "\<not> CTX_FLAG c HDLC_F_T2_ACTIVE" "new_calls ?a c = []" by auto
  have le: "v \<le> snd h" "sorted (snd h # map snd hs @ [r])" using i(6) by auto
  have gap: "gap q (map fst hs)" using inn(5) by (cases "fst h") (auto elim: gap_mono)
  have end_ok: "end_ok c (snd h) (near_took s @ []) q" using c by (simp add: end_ok_def)
  have "lossy_inv ((acts s c)\<lparr>to_near := fs, near_took := near_took s @ []\<rparr>) (snd h) r w q (gs @ []) hs"
    by (rule act_inv [OF assms(1) c(1,2) end_ok _ _ le(1) order_refl near(8) gap h(2) le(2)])
      (use c(6) near(9) le(1) inn(4) in simp_all)
  then have "lossy_inv ((acts s c)\<lparr>to_near := fs\<rparr>) (snd h) r w q gs hs" by (simp add: acts_def)
  then show ?thesis by blast
qed

lemma hears_inv:
  assumes "lossy_inv s v r w q gs hs" "to_near s = f # fs" "arrives (near s) f = Some c"
  shows "\<exists>v q gs hs. lossy_inv ((acts s c)\<lparr>to_near := fs\<rparr>) v r w q gs hs"
proof -
  note inn = way_okD [OF lossy_invD(5) [OF assms(1)]]
  obtain h ks where h: "hs = h # ks" "shows_frame (near s) (far_took s) h f"
    using inn(6) assms(2) by (auto simp: list_all2_Cons2)
  show ?thesis
  proof (cases "current_state (near s) = ATC_HDLC_STATE_CONNECTED")
    case True
    show ?thesis
    proof (cases h)
      case (Pair g a)
      show ?thesis
      proof (cases g)
        case None
        then obtain addr ctrl where f: "our_address (near s) addr" "is_sframe ctrl" "CTRL_NR ctrl = num a" "f = frame_octets (drv (near s)) addr ctrl []"
          using h(2) Pair by (auto simp: shows_frame_def)
        have "lossy_inv s v r w q gs ((None, a) # ks)" using assms(1) h(1) Pair None by simp
        from sframe_inv [OF this assms(2) True f] assms(3) show ?thesis by auto
      next
        case (Some k)
        then have "lossy_inv s v r w q gs ((Some k, a) # ks)" using assms(1) h(1) Pair by simp
        from iframe_inv [OF this assms(2) True] assms(3) show ?thesis by fastforce
      qed
    qed
  next
    case False
    then show ?thesis using down_inv [OF assms(1) [unfolded h(1)] assms(2) _ assms(3)] by blast
  qed
qed

lemma lost_inv:
  assumes "lossy_inv s v r w q gs hs" "to_far s = fs @ f # fs'"
  shows "\<exists>gs. lossy_inv (s\<lparr>to_far := fs @ fs'\<rparr>) v r w q gs hs"
proof -
  note i = lossy_invD [OF assms(1)]
  note out = way_okD [OF i(4)]
  obtain g1 g g2 where g: "gs = g1 @ g # g2" "list_all2 (shows_frame (far s) (near_took s)) g1 fs"
      "list_all2 (shows_frame (far s) (near_took s)) g2 fs'"
    using out(6) assms(2) by (auto simp: list_all2_append2 list_all2_Cons2)
  have "gap r (map fst g1 @ map fst g2)" using out(5) g(1) by (auto intro: gap_remove)
  then have "way_ok (far s) (near_took s) (far_got s) v r (g1 @ g2) (fs @ fs')"
    using out g(2,3) by (simp add: way_ok_def list_all2_appendI)
  moreover have "sorted (w # map snd (g1 @ g2) @ [q])" using i(7) g(1) by (auto simp: sorted_append)
  ultimately have "lossy_inv (s\<lparr>to_far := fs @ fs'\<rparr>) v r w q (g1 @ g2) hs"
    using i by (simp add: lossy_inv_def)
  then show ?thesis by blast
qed

lemma near_step_inv:
  assumes "near_step s t" "lossy_inv s v r w q gs hs"
  shows "\<exists>v r w q gs hs. lossy_inv t v r w q gs hs"
  using assms(1)
proof cases
  case (sends p c)
  then show ?thesis using sends_inv [OF assms(2)] by blast
next
  case (hears f fs c)
  then show ?thesis using hears_inv [OF assms(2)] by blast
next
  case (t1 c)
  then show ?thesis using t1_inv [OF assms(2)] by blast
next
  case (t2 c)
  then show ?thesis using t2_inv [OF assms(2) t2(2)] by fastforce
next
  case (busy b c)
  then show ?thesis using busy_inv [OF assms(2)] by blast
next
  case (lost fs f gs)
  then show ?thesis using lost_inv [OF assms(2)] by blast
qed

lemma lossy_step_inv:
  assumes "lossy_step s t" "lossy_inv s v r w q gs hs"
  shows "\<exists>v r w q gs hs. lossy_inv t v r w q gs hs"
  using assms(1) unfolding lossy_step_def
proof
  assume "near_step s t"
  then show ?thesis using assms(2) by (rule near_step_inv)
next
  assume "near_step (mirror s) (mirror t)"
  moreover have "lossy_inv (mirror s) w q v r hs gs" using assms(2) by simp
  ultimately obtain v r w q gs hs where "lossy_inv (mirror t) v r w q gs hs" using near_step_inv by blast
  then have "lossy_inv t w q v r hs gs" by simp
  then show ?thesis by blast
qed

lemma lossy_steps_inv:
  assumes "lossy_step\<^sup>*\<^sup>* s t" "lossy_inv s v r w q gs hs"
  shows "\<exists>v r w q gs hs. lossy_inv t v r w q gs hs"
  using assms(1)
proof (induction rule: rtranclp_induct)
  case base
  then show ?case using assms(2) by blast
next
  case (step y z)
  then show ?case using lossy_step_inv by blast
qed

end
