(* ===== verification/Hdlc_Recovery.thy ===== *)
theory Hdlc_Recovery
  imports Hdlc_Lossy
begin

text \<open>
  What holds of two stations on a line that loses frames: safety in every run, and recovery from every state
  the losses can lead to.
\<close>

section \<open>Runs, and the same runs seen from the other side\<close>

lemma near_does: "near_step s t \<Longrightarrow> lossy_step s t"
  by (simp add: lossy_step_def)

lemma far_does: "near_step (mirror s) t \<Longrightarrow> lossy_step s (mirror t)"
  by (simp add: lossy_step_def)

lemma step_mirror: "lossy_step s t \<Longrightarrow> lossy_step (mirror s) (mirror t)"
  by (auto simp: lossy_step_def)

lemma steps_mirror:
  assumes "lossy_step\<^sup>*\<^sup>* s t"
  shows "lossy_step\<^sup>*\<^sup>* (mirror s) (mirror t)"
  using assms
proof (induction rule: rtranclp_induct)
  case (step y z)
  then show ?case using step_mirror by (blast intro: rtranclp.rtrancl_into_rtrancl)
qed simp

section \<open>Recovery\<close>

text \<open>Whatever is first on the line may be lost.\<close>

lemma lose_front:
  assumes "lossy_inv s v r w q (ns @ gs) hs"
  shows "\<exists>t. lossy_step\<^sup>*\<^sup>* s t \<and> lossy_inv t v r w q gs hs \<and> t = s\<lparr>to_far := drop (length ns) (to_far s)\<rparr>"
  using assms
proof (induction ns arbitrary: s)
  case Nil
  then show ?case by (cases s) (intro exI [of _ s], simp)
next
  case (Cons n ns)
  note i = lossy_invD [OF Cons(2)]
  note out = way_okD [OF i(4)]
  obtain f fs where f: "to_far s = f # fs" using out(6) by (auto simp: list_all2_Cons1)
  let ?s = "s\<lparr>to_far := fs\<rparr>"
  have "gap r (map fst (ns @ gs))" using out(5) gap_remove [of r "[]" "fst n"] by simp
  then have "way_ok (far s) (near_took s) (far_got s) v r (ns @ gs) fs"
    using out f by (simp add: way_ok_def)
  then have "lossy_inv ?s v r w q (ns @ gs) hs"
    using i by (simp add: lossy_inv_def)
  then obtain t where t: "lossy_step\<^sup>*\<^sup>* ?s t" "lossy_inv t v r w q gs hs" "t = ?s\<lparr>to_far := drop (length ns) (to_far ?s)\<rparr>"
    using Cons(1) by blast
  have "lossy_step s ?s" using near_step.lost [of s "[]" f fs] f near_does by simp
  with t f show ?case by (auto intro: converse_rtranclp_into_rtranclp)
qed

lemma lose_all:
  assumes "lossy_inv s v r w q gs hs"
  shows "\<exists>t. lossy_step\<^sup>*\<^sup>* s t \<and> lossy_inv t v r w q [] [] \<and> near t = near s \<and> far t = far s
     \<and> near_took t = near_took s \<and> far_took t = far_took s"
proof -
  obtain t where t: "lossy_step\<^sup>*\<^sup>* s t" "lossy_inv t v r w q [] hs" "t = s\<lparr>to_far := drop (length gs) (to_far s)\<rparr>"
    using lose_front [of s v r w q gs "[]"] assms by auto
  have "lossy_inv (mirror t) w q v r (hs @ []) []" using t(2) by simp
  from lose_front [OF this] obtain u where u: "lossy_step\<^sup>*\<^sup>* (mirror t) u" "lossy_inv u w q v r [] []"
      "u = (mirror t)\<lparr>to_far := drop (length hs) (to_far (mirror t))\<rparr>" by blast
  have "lossy_step\<^sup>*\<^sup>* t (mirror u)" using steps_mirror [OF u(1)] by simp
  with t u show ?thesis by (intro exI [of _ "mirror u"]) (auto intro: rtranclp_trans)
qed

text \<open>What stays the same while the stations recover.\<close>

definition same_work :: "lossy_t \<Rightarrow> lossy_t \<Rightarrow> bool" where
  "same_work s t \<longleftrightarrow> near_took t = near_took s \<and> far_took t = far_took s
     \<and> current_state (near t) = ATC_HDLC_STATE_CONNECTED \<and> current_state (far t) = ATC_HDLC_STATE_CONNECTED
     \<and> station_same (near s) (near t) \<and> station_same (far s) (far t)"

lemma same_work_mirror: "same_work (mirror s) t \<Longrightarrow> same_work s (mirror t)"
  by (simp add: same_work_def)

lemma same_work_trans: "same_work s t \<Longrightarrow> same_work t u \<Longrightarrow> same_work s u"
  by (auto simp: same_work_def intro: station_same_trans)

text \<open>A timer that runs out makes the near station poll.\<close>

lemma polls:
  assumes "lossy_inv s v r w q [] []" "current_state (near s) = ATC_HDLC_STATE_CONNECTED"
    "current_state (far s) = ATC_HDLC_STATE_CONNECTED" "va (near s) \<noteq> vs (near s)"
    and "\<not> CTX_FLAG (near s) HDLC_F_LOCAL_BUSY"
    and "config (near s) = Some cfg" "max_retries cfg = 0 \<or> n2 (near s) + 1 \<le> max_retries cfg"
  shows "\<exists>t. near_step s t \<and> lossy_inv t v r w q [(None, q)] [] \<and> same_work s t \<and> far t = far s
     \<and> to_far t = [frame_octets (drv (far t)) (my_address (far t)) (S_CTRL S_RR (num q) 1) []]"
proof -
  note i = lossy_invD [OF assms(1)] and near = near_facts [OF assms(1)] and up = near_connected [OF assms(1,2)]
  have on: "CTX_FLAG (near s) HDLC_F_T1_ACTIVE"
    using near(1) assms(2,4) reachable_t1 [of "near s"] at_restD(2,4) [OF near(1)]
    by (auto simp: at_rest_def t1_live_def settled_def)
  obtain c where c: "atc_hdlc_t1_expired (near s) = Some c" "at_rest c" "station_same (near s) c"
     "current_state c = ATC_HDLC_STATE_CONNECTED" "vs c = vs (near s)" "va c = va (near s)" "vr c = vr (near s)" "unacked c = unacked (near s)"
     "delivered (new_calls (near s) c) = []"
     "line_octets (new_calls (near s) c) = frame_octets (drv (near s)) (peer_address (near s)) (S_CTRL S_RR (num q) 1) []"
    using t1_step [OF near(1) assms(2)] assms(4-7) up(3) by (auto split: if_splits)
  have "end_ok c v (near_took s) q" using c up by (simp add: end_ok_def)
  from quiet_inv [OF assms(1) c(2,3) this c(9)] c(10)
  have "lossy_inv (acts s c) v r w q [(None, q)] []" by simp
  moreover have "near_step s (acts s c)" using on c(1) by (rule near_step.t1)
  moreover have "to_far s = []" using way_okD(6) [OF i(4)] by simp
  ultimately show ?thesis using c(3,4,10) near(3,5) assms(3) by (intro exI [of _ "acts s c"]) (simp add: same_work_def)
qed

text \<open>A polled station answers with its V(R) and the F bit.\<close>

lemma answers_poll:
  assumes "lossy_inv s v r w q [] [(None, a)]" "current_state (near s) = ATC_HDLC_STATE_CONNECTED"
    and "current_state (far s) = ATC_HDLC_STATE_CONNECTED"
    and "to_near s = [frame_octets (drv (near s)) (my_address (near s)) (S_CTRL S_RR (num a) 1) []]"
  shows "\<exists>t. near_step s t \<and> lossy_inv t a r w q [(None, q)] [] \<and> same_work s t \<and> retry_kept (near s) (near t)
     \<and> to_far t = [frame_octets (drv (far t)) (peer_address (far t)) (S_CTRL S_RR (num q) 1) []]"
proof -
  note i = lossy_invD [OF assms(1)] and near = near_facts [OF assms(1)] and up = near_connected [OF assms(1,2)]
  let ?addr = "my_address (near s)" and ?ctrl = "S_CTRL S_RR (num a) 1"
  have ct: "is_sframe ?ctrl" "CTRL_NR ?ctrl = num a" "CTRL_S ?ctrl = S_RR" "CTRL_PF ?ctrl = 1"
    using s_ctrl [of "num a" S_RR 1] by simp_all
  have own: "our_address (near s) ?addr" by (simp add: our_address_def)
  have ans: "\<not> asks_again (near s) ?addr ?ctrl" "sends_on s ?addr ?ctrl a q = [(None, q)]"
    "sframe_reply (near s) ?addr ?ctrl = frame_octets (drv (near s)) ?addr (S_CTRL S_RR (num q) 1) []"
    using ct up(3) by (simp_all add: asks_again_def sends_on_def sframe_reply_def is_cmd_def S_RR_def S_REJ_def)
  from sframe_inv [OF assms(1,4,2) own ct(1,2) refl] ans
  obtain c where c: "arrives (near s) (hd (to_near s)) = Some c" "current_state c = ATC_HDLC_STATE_CONNECTED" "station_same (near s) c" "retry_kept (near s) c"
      "line_octets (new_calls (near s) c) = frame_octets (drv (near s)) ?addr (S_CTRL S_RR (num q) 1) []"
      "lossy_inv ((acts s c)\<lparr>to_near := []\<rparr>) a r w q [(None, q)] []"
    using assms(4) by auto
  have "near_step s ((acts s c)\<lparr>to_near := []\<rparr>)" using assms(4) c(1) by (intro near_step.hears) simp_all
  moreover have "to_far s = []" using way_okD(6) [OF i(4)] by simp
  ultimately show ?thesis
    using c(2-6) near(3,6) assms(3) by (intro exI [of _ "(acts s c)\<lparr>to_near := []\<rparr>"]) (simp add: same_work_def)
qed

text \<open>An answer with the F bit makes the near station send again all that is missing.\<close>

lemma resends:
  assumes "lossy_inv s v r w q [] [(None, r)]" "current_state (near s) = ATC_HDLC_STATE_CONNECTED"
    and "current_state (far s) = ATC_HDLC_STATE_CONNECTED"
    and "to_near s = [frame_octets (drv (near s)) (peer_address (near s)) (S_CTRL S_RR (num r) 1) []]"
    and "peer_address (near s) \<noteq> my_address (near s)"
  shows "\<exists>t. near_step s t \<and> lossy_inv t r r w q (map (\<lambda>k. (Some k, q)) [r..<length (near_took t)]) []
     \<and> same_work s t \<and> far t = far s"
proof -
  let ?addr = "peer_address (near s)" and ?ctrl = "S_CTRL S_RR (num r) 1"
  have ct: "is_sframe ?ctrl" "CTRL_NR ?ctrl = num r" "CTRL_S ?ctrl = S_RR" "CTRL_PF ?ctrl = 1"
    using s_ctrl [of "num r" S_RR 1] by simp_all
  have own: "our_address (near s) ?addr" by (simp add: our_address_def)
  have sent: "sends_on s ?addr ?ctrl r q = map (\<lambda>k. (Some k, q)) [r..<length (near_took s)]"
    using assms(5) ct by (simp add: sends_on_def sframe_reply_def asks_again_def is_cmd_def)
  from sframe_inv [OF assms(1,4,2) own ct(1,2) refl] sent
  obtain c where c: "arrives (near s) (hd (to_near s)) = Some c" "current_state c = ATC_HDLC_STATE_CONNECTED" "station_same (near s) c"
      "lossy_inv ((acts s c)\<lparr>to_near := []\<rparr>) r r w q (map (\<lambda>k. (Some k, q)) [r..<length (near_took s)]) []"
    using assms(4) by auto
  have "near_step s ((acts s c)\<lparr>to_near := []\<rparr>)" using assms(4) c(1) by (intro near_step.hears) simp_all
  with c(2-4) assms(3) show ?thesis
    by (intro exI [of _ "(acts s c)\<lparr>to_near := []\<rparr>"]) (simp add: same_work_def)
qed

text \<open>A retransmission is taken frame by frame, and its last frame is answered or starts T2.\<close>

lemma takes_rest:
  assumes "lossy_inv s v r w q gs (map (\<lambda>k. (Some k, a)) [q..<length (far_took s)])" "q < length (far_took s)"
    and "current_state (near s) = ATC_HDLC_STATE_CONNECTED" "current_state (far s) = ATC_HDLC_STATE_CONNECTED"
  shows "\<exists>t gs. lossy_step\<^sup>*\<^sup>* s t \<and> lossy_inv t a r w (length (far_took t)) gs [] \<and> same_work s t \<and> retry_kept (near s) (near t)
     \<and> (CTX_FLAG (near t) HDLC_F_T2_ACTIVE \<or> (\<exists>ns. gs = ns @ [(None, length (far_took t))]))"
  using assms
proof (induction "length (far_took s) - Suc q" arbitrary: s v q gs)
  case 0
  then have n: "length (far_took s) = Suc q" by simp
  then have h: "map (\<lambda>k. (Some k, a)) [q..<length (far_took s)] = [(Some q, a)]" by simp
  obtain f fs where f: "to_near s = f # fs"
    using way_okD(6) [OF lossy_invD(5) [OF 0(2)]] by (auto simp: h list_all2_Cons1)
  obtain c ns where c: "arrives (near s) f = Some c" "current_state c = ATC_HDLC_STATE_CONNECTED" "station_same (near s) c" "retry_kept (near s) c"
     "lossy_inv ((acts s c)\<lparr>to_near := fs\<rparr>) a r w (Suc q) (gs @ ns) []" "CTX_FLAG c HDLC_F_T2_ACTIVE \<or> ns = [(None, Suc q)]"
    using iframe_inv [OF 0(2) [unfolded h] f 0(4)] by auto
  have "lossy_step s ((acts s c)\<lparr>to_near := fs\<rparr>)" using f c(1) by (intro near_does near_step.hears)
  with c n 0(5) show ?case
    by (intro exI [of _ "(acts s c)\<lparr>to_near := fs\<rparr>"] exI [of _ "gs @ ns"]) (auto simp: same_work_def)
next
  case (Suc m)
  let ?n = "length (far_took s)"
  have q: "Suc q < ?n" using Suc(2) by simp
  then have h: "map (\<lambda>k. (Some k, a)) [q..<?n] = (Some q, a) # map (\<lambda>k. (Some k, a)) [Suc q..<?n]" by (simp add: upt_conv_Cons)
  obtain f fs where f: "to_near s = f # fs"
    using way_okD(6) [OF lossy_invD(5) [OF Suc(3)]] by (auto simp: h list_all2_Cons1)
  obtain c ns where c: "arrives (near s) f = Some c" "current_state c = ATC_HDLC_STATE_CONNECTED" "station_same (near s) c" "retry_kept (near s) c"
     "lossy_inv ((acts s c)\<lparr>to_near := fs\<rparr>) a r w (Suc q) (gs @ ns) (map (\<lambda>k. (Some k, a)) [Suc q..<?n])"
    using iframe_inv [OF Suc(3) [unfolded h] f Suc(5)] by auto
  let ?t = "(acts s c)\<lparr>to_near := fs\<rparr>"
  have "lossy_step s ?t" using f c(1) by (intro near_does near_step.hears)
  moreover have "same_work s ?t" using c(2,3) Suc(6) by (simp add: same_work_def)
  moreover have "m = length (far_took ?t) - Suc (Suc q)" using Suc(2) by simp
  from Suc(1) [OF this, of a "gs @ ns"] c(2,5) q Suc(6)
  obtain u us where "lossy_step\<^sup>*\<^sup>* ?t u" "lossy_inv u a r w (length (far_took u)) us []" "same_work ?t u" "retry_kept c (near u)"
     "CTX_FLAG (near u) HDLC_F_T2_ACTIVE \<or> (\<exists>ns. us = ns @ [(None, length (far_took u))])"
    by auto
  moreover from this c(4) have "retry_kept (near s) (near u)" by (blast intro: retry_kept_trans)
  ultimately show ?case by (blast intro: converse_rtranclp_into_rtranclp same_work_trans)
qed

text \<open>So an acknowledgement of everything comes to be the only frame on the line.\<close>

lemma acknowledges:
  assumes "lossy_inv s v r w q gs []" "current_state (near s) = ATC_HDLC_STATE_CONNECTED" "current_state (far s) = ATC_HDLC_STATE_CONNECTED"
    and "CTX_FLAG (near s) HDLC_F_T2_ACTIVE \<or> (\<exists>ns. gs = ns @ [(None, q)])"
  shows "\<exists>t. lossy_step\<^sup>*\<^sup>* s t \<and> lossy_inv t v r w q [(None, q)] [] \<and> same_work s t \<and> retry_kept (near s) (near t)"
  using assms(4)
proof
  assume "\<exists>ns. gs = ns @ [(None, q)]"
  then obtain ns where "lossy_inv s v r w q (ns @ [(None, q)]) []" using assms(1) by blast
  from lose_front [OF this] assms(2,3) show ?thesis by (auto simp: same_work_def)
next
  assume t2: "CTX_FLAG (near s) HDLC_F_T2_ACTIVE"
  obtain t where t: "lossy_step\<^sup>*\<^sup>* s t" "lossy_inv t v r w q [] []" "near t = near s" "far t = far s"
      "near_took t = near_took s" "far_took t = far_took s"
    using lose_all [OF assms(1)] by blast
  obtain c where c: "atc_hdlc_t2_expired (near t) = Some c" "current_state c = ATC_HDLC_STATE_CONNECTED" "station_same (near t) c" "retry_kept (near t) c"
      "lossy_inv (acts t c) v r w q [(None, q)] []"
    using t2_inv [OF t(2)] t2 t(3) by auto
  have "lossy_step t (acts t c)" using t2 t(3) c(1) by (intro near_does near_step.t2) simp_all
  with t c assms(3) show ?thesis
    by (intro exI [of _ "acts t c"]) (auto simp: same_work_def intro: rtranclp.rtrancl_into_rtrancl)
qed

text \<open>The near station takes the acknowledgement.\<close>

lemma takes_ack:
  assumes "lossy_inv s v r w q gs [(None, a)]" "current_state (near s) = ATC_HDLC_STATE_CONNECTED" "current_state (far s) = ATC_HDLC_STATE_CONNECTED"
  shows "\<exists>t gs. near_step s t \<and> lossy_inv t a r w q gs [] \<and> same_work s t \<and> far t = far s"
proof -
  note inn = way_okD [OF lossy_invD(5) [OF assms(1)]]
  obtain f where f: "to_near s = [f]" "shows_frame (near s) (far_took s) (None, a) f"
    using inn(6) by (auto simp: list_all2_Cons1)
  then obtain addr ctrl where x: "our_address (near s) addr" "is_sframe ctrl" "CTRL_NR ctrl = num a" "f = frame_octets (drv (near s)) addr ctrl []"
    by (auto simp: shows_frame_def)
  from sframe_inv [OF assms(1) f(1) assms(2) x]
  obtain c where c: "arrives (near s) f = Some c" "current_state c = ATC_HDLC_STATE_CONNECTED" "station_same (near s) c"
      "lossy_inv ((acts s c)\<lparr>to_near := []\<rparr>) a r w q (gs @ sends_on s addr ctrl a q) []"
    by auto
  have "near_step s ((acts s c)\<lparr>to_near := []\<rparr>)" using f(1) c(1) by (rule near_step.hears)
  with c assms(3) show ?thesis
    by (intro exI [of _ "(acts s c)\<lparr>to_near := []\<rparr>"] exI [of _ "gs @ sends_on s addr ctrl a q"]) (simp add: same_work_def)
qed

text \<open>From any state of the line there is a way for all that the near station has accepted to be delivered.\<close>

text \<open>A station that may poll, and what does not take that away.\<close>

definition can_poll :: "atc_hdlc_ctx_t \<Rightarrow> bool" where
  "can_poll c \<longleftrightarrow> \<not> CTX_FLAG c HDLC_F_LOCAL_BUSY
     \<and> (\<exists>cfg. config c = Some cfg \<and> (max_retries cfg = 0 \<or> n2 c + 1 \<le> max_retries cfg))"

lemma retry_kept_poll: "retry_kept c d \<Longrightarrow> can_poll c \<Longrightarrow> can_poll d"
proof -
  have "m = 0 \<or> 1 \<le> m" for m :: u8 by (auto simp: word_le_nat_alt word_unat_eq_iff)
  then show "retry_kept c d \<Longrightarrow> can_poll c \<Longrightarrow> can_poll d" by (auto simp: retry_kept_def can_poll_def)
qed

lemma recovers:
  assumes "lossy_inv s v r w q gs hs" "current_state (near s) = ATC_HDLC_STATE_CONNECTED"
    and "current_state (far s) = ATC_HDLC_STATE_CONNECTED" "va (near s) \<noteq> vs (near s)"
    and "can_poll (near s)" "my_address (near s) \<noteq> my_address (far s)"
  shows "\<exists>t ks. lossy_step\<^sup>*\<^sup>* s t \<and> same_work s t \<and> retry_kept (far s) (far t)
     \<and> lossy_inv t (length (near_took s)) (length (near_took s)) q q ks []"
proof -
  obtain cfg where cfg: "\<not> CTX_FLAG (near s) HDLC_F_LOCAL_BUSY" "config (near s) = Some cfg"
      "max_retries cfg = 0 \<or> n2 (near s) + 1 \<le> max_retries cfg"
    using assms(5) by (auto simp: can_poll_def)
  obtain t0 where 0: "lossy_step\<^sup>*\<^sup>* s t0" "lossy_inv t0 v r w q [] []" "near t0 = near s" "far t0 = far s"
      "near_took t0 = near_took s" "far_took t0 = far_took s"
    using lose_all [OF assms(1)] by blast
  have s0: "same_work s t0" using 0 assms(2,3) by (simp add: same_work_def)
  obtain t1 where 1: "near_step t0 t1" "lossy_inv t1 v r w q [(None, q)] []" "same_work t0 t1" "far t1 = far s"
      "to_far t1 = [frame_octets (drv (far t1)) (my_address (far t1)) (S_CTRL S_RR (num q) 1) []]"
    using polls [OF 0(2), of cfg] 0(3,4) assms(2-4) cfg by auto
  obtain u2 where 2: "near_step (mirror t1) u2" "lossy_inv u2 q q v r [(None, r)] []" "same_work (mirror t1) u2" "retry_kept (far s) (near u2)"
      "to_far u2 = [frame_octets (drv (far u2)) (peer_address (far u2)) (S_CTRL S_RR (num r) 1) []]"
    using answers_poll [of "mirror t1" w q v r q] 1 by (auto simp: same_work_def)
  let ?t2 = "mirror u2"
  have i2: "lossy_inv ?t2 v r q q [] [(None, r)]" using 2(2) by simp
  have s2: "same_work s ?t2" using s0 1(3) same_work_mirror [OF 2(3)] by (blast intro: same_work_trans)
  have "peer_address (near ?t2) \<noteq> my_address (near ?t2)"
    using s2 assms(6) near_facts(5) [OF assms(1)] by (simp add: same_work_def station_same_def)
  then obtain t3 where 3: "near_step ?t2 t3" "lossy_inv t3 r r q q (map (\<lambda>k. (Some k, q)) [r..<length (near_took t3)]) []" "same_work ?t2 t3" "far t3 = near u2"
    using resends [OF i2] 2(5) s2 by (auto simp: same_work_def)
  have run3: "lossy_step\<^sup>*\<^sup>* s t3"
    using 0(1) near_does [OF 1(1)] far_does [OF 2(1)] near_does [OF 3(1)] by (blast intro: rtranclp.rtrancl_into_rtrancl)
  have s3: "same_work s t3" using s2 3(3) by (rule same_work_trans)
  show ?thesis
  proof (cases "r < length (near_took t3)")
    case False
    then have "r = length (near_took s)" using near_facts(7) [OF 3(2)] s3 by (simp add: same_work_def)
    with run3 s3 2(4) 3(2,4) show ?thesis by (intro exI [of _ t3]) (auto simp: same_work_def)
  next
    case True
    let ?n = "length (near_took s)"
    have len: "length (near_took t3) = ?n" using s3 by (simp add: same_work_def)
    have "lossy_inv (mirror t3) q q r r [] (map (\<lambda>k. (Some k, q)) [r..<length (far_took (mirror t3))])" using 3(2) by simp
    from takes_rest [OF this] True s3 obtain u4 us where 4: "lossy_step\<^sup>*\<^sup>* (mirror t3) u4" "lossy_inv u4 q q r (length (far_took u4)) us []"
        "same_work (mirror t3) u4" "CTX_FLAG (near u4) HDLC_F_T2_ACTIVE \<or> (\<exists>ns. us = ns @ [(None, length (far_took u4))])"
        "retry_kept (far t3) (near u4)"
      by (auto simp: same_work_def)
    have n: "length (far_took u4) = ?n" using 4(3) len by (simp add: same_work_def)
    obtain u5 where 5: "lossy_step\<^sup>*\<^sup>* u4 u5" "lossy_inv u5 q q r ?n [(None, ?n)] []" "same_work u4 u5" "retry_kept (near u4) (near u5)"
      using acknowledges [OF 4(2) _ _ 4(4)] 4(3) n by (auto simp: same_work_def)
    let ?t5 = "mirror u5"
    have s5: "same_work t3 ?t5" using same_work_trans [OF 4(3) 5(3)] by (rule same_work_mirror)
    have "lossy_step\<^sup>*\<^sup>* (mirror (mirror t3)) ?t5" using 4(1) 5(1) by (blast intro: steps_mirror rtranclp_trans)
    then have run5: "lossy_step\<^sup>*\<^sup>* s ?t5" using run3 by (auto intro: rtranclp_trans)
    have "lossy_inv ?t5 r ?n q q [] [(None, ?n)]" using 5(2) by simp
    from takes_ack [OF this] s5 obtain t ks where 6: "near_step ?t5 t" "lossy_inv t ?n ?n q q ks []" "same_work ?t5 t" "far t = far ?t5"
      by (auto simp: same_work_def)
    have "lossy_step\<^sup>*\<^sup>* s t" using run5 near_does [OF 6(1)] by (rule rtranclp.rtrancl_into_rtrancl)
    moreover have "same_work s t" using s3 s5 6(3) by (blast intro: same_work_trans)
    moreover have "retry_kept (far s) (far t)"
      using retry_kept_trans [OF 2(4), of "near u4"] 4(5) 3(4) 5(4) 6(4) by (auto intro: retry_kept_trans)
    ultimately show ?thesis using 6(2) by blast
  qed
qed

text \<open>First in one direction, then in the other: what one phase has brought to an end the other leaves so.\<close>

lemma num_full:
  assumes "lossy_inv s v r w q gs hs" "current_state (near s) = ATC_HDLC_STATE_CONNECTED"
  shows "va (near s) = vs (near s) \<longleftrightarrow> v = length (near_took s)"
proof
  assume "va (near s) = vs (near s)"
  then have "dist8 (num (length (near_took s))) (num v) = 0" using near_connected [OF assms] num_dist [of v v] by simp
  then show "v = length (near_took s)"
    using num_dist [of v "length (near_took s)"] near_facts(7,9) [OF assms(1)] lossy_invD(8) [OF assms(1)] by simp
qed (simp add: near_connected [OF assms])

lemma recovers_if:
  assumes "lossy_inv s v r w q gs hs" "current_state (near s) = ATC_HDLC_STATE_CONNECTED"
    and "current_state (far s) = ATC_HDLC_STATE_CONNECTED" "my_address (near s) \<noteq> my_address (far s)"
    and "v \<noteq> length (near_took s) \<Longrightarrow> can_poll (near s)"
  shows "\<exists>t w' ks ls. lossy_step\<^sup>*\<^sup>* s t \<and> same_work s t \<and> retry_kept (far s) (far t) \<and> w \<le> w'
     \<and> lossy_inv t (length (near_took s)) (length (near_took s)) w' q ks ls"
proof (cases "v = length (near_took s)")
  case True
  moreover from this have "r = length (near_took s)" using near_facts(7) [OF assms(1)] lossy_invD(8) [OF assms(1)] by simp
  ultimately show ?thesis using assms(1-3) by (intro exI [of _ s] exI [of _ w] exI [of _ gs] exI [of _ hs]) (simp add: same_work_def)
next
  case False
  then have "va (near s) \<noteq> vs (near s)" using num_full [OF assms(1,2)] by simp
  from recovers [OF assms(1-3) this assms(5) [OF False] assms(4)] obtain t ks where "lossy_step\<^sup>*\<^sup>* s t" "same_work s t"
      "retry_kept (far s) (far t)" "lossy_inv t (length (near_took s)) (length (near_took s)) q q ks []" by blast
  then show ?thesis using lossy_invD(9) [OF assms(1)] by blast
qed

lemma recovers_both:
  assumes "lossy_inv s v r w q gs hs" "current_state (near s) = ATC_HDLC_STATE_CONNECTED"
    and "current_state (far s) = ATC_HDLC_STATE_CONNECTED" "my_address (near s) \<noteq> my_address (far s)"
    and "va (near s) \<noteq> vs (near s) \<longrightarrow> can_poll (near s)" "va (far s) \<noteq> vs (far s) \<longrightarrow> can_poll (far s)"
  shows "\<exists>t. lossy_step\<^sup>*\<^sup>* s t \<and> same_work s t
     \<and> far_got t = map handed_of (near_took s) \<and> near_got t = map handed_of (far_took s)
     \<and> unacked (near t) = [] \<and> unacked (far t) = []"
proof -
  let ?n = "length (near_took s)" and ?m = "length (far_took s)"
  have "lossy_inv (mirror s) w q v r hs gs" using assms(1) by simp
  from num_full [OF this] assms(3,6) have far: "w \<noteq> ?m \<Longrightarrow> can_poll (far s)" by auto
  obtain t w' ks ls where 1: "lossy_step\<^sup>*\<^sup>* s t" "same_work s t" "retry_kept (far s) (far t)" "w \<le> w'" "lossy_inv t ?n ?n w' q ks ls"
    using recovers_if [OF assms(1-4)] num_full [OF assms(1,2)] assms(5) by blast
  have "lossy_inv (mirror t) w' q ?n ?n ls ks" using 1(5) by simp
  note mi = this
  have addr: "my_address (near (mirror t)) \<noteq> my_address (far (mirror t))"
    using 1(2) assms(4) by (auto simp: same_work_def station_same_def)
  have poll: "w' \<noteq> length (near_took (mirror t)) \<Longrightarrow> can_poll (near (mirror t))"
    using far 1(2,4) near_facts(7) [OF mi] lossy_invD(8) [OF mi] retry_kept_poll [OF 1(3)] by (cases "w = ?m") (auto simp: same_work_def)
  from recovers_if [OF mi _ _ addr poll] 1(2) obtain u n' k2 l2 where 2: "lossy_step\<^sup>*\<^sup>* (mirror t) u" "same_work (mirror t) u" "?n \<le> n'"
      "lossy_inv u ?m ?m n' ?n k2 l2"
    by (auto simp: same_work_def)
  let ?u = "mirror u"
  have "n' = ?n" using 2(3) lossy_invD(9) [OF 2(4)] by simp
  then have i: "lossy_inv ?u ?n ?n ?m ?m l2 k2" using 2(4) by simp
  have w: "same_work s ?u" using 1(2) same_work_mirror [OF 2(2)] by (rule same_work_trans)
  have "lossy_step\<^sup>*\<^sup>* (mirror (mirror t)) ?u" using 2(1) by (rule steps_mirror)
  then have "lossy_step\<^sup>*\<^sup>* s ?u" using 1(1) by (auto intro: rtranclp_trans)
  moreover have "far_got ?u = map handed_of (near_took s)" "near_got ?u = map handed_of (far_took s)"
      "unacked (near ?u) = []" "unacked (far ?u) = []"
    using w lossy_invD(2,3) [OF i] way_okD(4) [OF lossy_invD(4) [OF i]] way_okD(4) [OF lossy_invD(5) [OF i]]
    by (auto simp: same_work_def end_ok_def)
  ultimately show ?thesis using w by blast
qed

section \<open>The start\<close>

definition lossy_start :: "atc_hdlc_ctx_t \<Rightarrow> atc_hdlc_ctx_t \<Rightarrow> lossy_t" where
  "lossy_start a b = \<lparr>near = a, far = b, to_far = [], to_near = [], near_took = [], far_took = [], near_got = [], far_got = []\<rparr>"

lemma start_inv:
  assumes "paired a b" "vs a = 0" "vr a = 0" "has_on_data (plat a)" "has_on_data (plat b)"
  shows "lossy_inv (lossy_start a b) 0 0 0 0 [] []"
proof -
  have "unacked c = []" if "vs c = va c" for c
    using that by (auto simp: unacked_def out_count_def window_queue_def split: option.split)
  then have "unacked a = []" "unacked b = []" using assms(1,3) by (simp_all add: paired_def)
  then show ?thesis
    using assms by (simp add: lossy_inv_def way_ok_def lossy_start_def joined_def end_ok_def paired_def num_def)
qed

text \<open>What one direction has delivered, and what its sender still holds.\<close>

definition way_safe :: "atc_hdlc_ctx_t \<Rightarrow> u8 list list \<Rightarrow> (octets \<times> u16) list \<Rightarrow> bool" where
  "way_safe c took got \<longleftrightarrow> prefix got (map handed_of took)
     \<and> (current_state c = ATC_HDLC_STATE_CONNECTED \<and> (\<exists>n \<le> length got. unacked c = drop n took)
       \<or> current_state c = ATC_HDLC_STATE_DISCONNECTED)"

lemma inv_safe:
  assumes "lossy_inv s v r w q gs hs"
  shows "way_safe (near s) (near_took s) (far_got s)"
proof -
  note i = lossy_invD [OF assms]
  note out = way_okD [OF i(4)]
  have "far_got s = take r (map handed_of (near_took s))" using out(4) by (simp add: take_map)
  then have "prefix (far_got s) (map handed_of (near_took s))" by (simp add: take_is_prefix)
  moreover have "v \<le> length (far_got s)" using out(2,4) i(8) by simp
  ultimately show ?thesis using i(2) by (auto simp: way_safe_def end_ok_def split: if_splits)
qed

section \<open>A run in which a frame is lost\<close>

definition lossy_a :: atc_hdlc_ctx_t where "lossy_a = fst (the (connect (bm_ctx0, peer_ctx0)))"
definition lossy_b :: atc_hdlc_ctx_t where "lossy_b = snd (the (connect (bm_ctx0, peer_ctx0)))"

lemma lossy_ab: "paired lossy_a lossy_b" "vs lossy_a = 0" "vr lossy_a = 0" "has_on_data (plat lossy_a)" "has_on_data (plat lossy_b)"
   "rx_capacity lossy_b = 72"
proof -
  obtain a b where "connect (bm_ctx0, peer_ctx0) = Some (a, b)" "paired a b" "vs a = 0" "vr a = 0"
      "plat b = plat peer_ctx0" "plat a = plat bm_ctx0" "rx_capacity b = rx_capacity peer_ctx0"
    using connect_run [OF bm_pair(1)] by blast
  moreover have "rx_capacity peer_ctx0 = 72" by code_simp
  ultimately show "paired lossy_a lossy_b" "vs lossy_a = 0" "vr lossy_a = 0" "has_on_data (plat lossy_a)" "has_on_data (plat lossy_b)"
     "rx_capacity lossy_b = 72"
    using bm_pair(3) bm_rx by (simp_all add: lossy_a_def lossy_b_def bm_platform_def)
qed

lemma lossy_run:
  "\<exists>s. lossy_step\<^sup>*\<^sup>* (lossy_start lossy_a lossy_b) s \<and> to_far s = [] \<and> to_near s = [] \<and> near_took s = [[0x48, 0x69]] \<and> far_took s = []
     \<and> current_state (near s) = ATC_HDLC_STATE_CONNECTED \<and> current_state (far s) = ATC_HDLC_STATE_CONNECTED
     \<and> va (near s) \<noteq> vs (near s) \<and> \<not> CTX_FLAG (near s) HDLC_F_LOCAL_BUSY
     \<and> config (near s) = Some bm_cfg \<and> n2 (near s) = 0 \<and> my_address (near s) \<noteq> my_address (far s)
     \<and> va (far s) = vs (far s)"
proof -
  let ?p = "[0x48, 0x69] :: u8 list"
  have "map_option (\<lambda>(c, e). (e, my_address c \<noteq> my_address lossy_b, config c = Some bm_cfg, n2 c, CTX_FLAG c HDLC_F_LOCAL_BUSY, va c, vs c))
      (atc_hdlc_transmit_i lossy_a (Some ?p) (word_of_nat (length ?p))) = Some (ATC_HDLC_OK, True, True, 0, False, 0, 1)"
    by code_simp
  then obtain c where c: "atc_hdlc_transmit_i lossy_a (Some ?p) (word_of_nat (length ?p)) = Some (c, ATC_HDLC_OK)"
      "my_address c \<noteq> my_address lossy_b" "config c = Some bm_cfg" "n2 c = 0" "\<not> CTX_FLAG c HDLC_F_LOCAL_BUSY" "va c \<noteq> vs c"
    by auto
  let ?s = "lossy_start lossy_a lossy_b"
  let ?t = "(acts ?s c)\<lparr>near_took := near_took ?s @ [?p]\<rparr>"
  have "lossy_step ?s ?t" using c(1) lossy_ab(6) by (intro near_does near_step.sends) (simp_all add: lossy_start_def)
  moreover have ab: "at_rest lossy_a" "current_state lossy_b = ATC_HDLC_STATE_CONNECTED" "va lossy_b = vs lossy_b" using lossy_ab(1) by (simp_all add: paired_def)
  note st = send_step [OF ab(1) c(1)]
  obtain f where "to_far ?t = [] @ f # []" using st(11) by (simp add: lossy_start_def)
  then have "lossy_step ?t (?t\<lparr>to_far := [] @ []\<rparr>)" by (intro near_does near_step.lost)
  ultimately have "lossy_step\<^sup>*\<^sup>* ?s (?t\<lparr>to_far := []\<rparr>)" by (simp add: converse_rtranclp_into_rtranclp)
  then show ?thesis using c st(4) ab(2,3) by (intro exI conjI) (auto simp: lossy_start_def)
qed

section \<open>The properties\<close>

text \<open>C3 Safety over a line that loses frames: two connected stations send to each other, and their payloads
  (each of which the receiver's buffer can hold), the expiries of their timers, local busy and the losses, in either
  direction, come in any order. Then each
  application receives a prefix of the payloads accepted from the other, each once, unchanged and in order, across any
  number of wrap-arounds; and each station still holds every payload of its own that has not been delivered, unless
  it has given up and says so by being disconnected.\<close>

theorem lossy_safety:
  assumes "paired a b" "vs a = 0" "vr a = 0" "has_on_data (plat a)" "has_on_data (plat b)"
    and "lossy_step\<^sup>*\<^sup>* (lossy_start a b) s"
  shows "way_safe (near s) (near_took s) (far_got s) \<and> way_safe (far s) (far_took s) (near_got s)"
proof -
  obtain v r w q gs hs where i: "lossy_inv s v r w q gs hs" using lossy_steps_inv [OF assms(6) start_inv [OF assms(1-5)]] by blast
  then have "lossy_inv (mirror s) w q v r hs gs" by simp
  from inv_safe [OF i] inv_safe [OF this] show ?thesis by simp
qed

lemma lossy_safety_witness:
  "\<exists>s. lossy_step\<^sup>*\<^sup>* (lossy_start lossy_a lossy_b) s \<and> near_took s = [[0x48, 0x69]] \<and> to_far s = []
     \<and> prefix (far_got s) [(Some [0x48, 0x69], 2)] \<and> near_got s = []"
proof -
  obtain s where s: "lossy_step\<^sup>*\<^sup>* (lossy_start lossy_a lossy_b) s" "to_far s = []" "near_took s = [[0x48, 0x69]]" "far_took s = []"
    using lossy_run by blast
  from lossy_safety [OF lossy_ab(1-5) s(1)] s show ?thesis by (auto simp: way_safe_def)
qed

text \<open>C4 Recovery: wherever the run has got to and whatever has been lost, as long as the stations are connected,
  and each that has something unacknowledged has a retry left and is not locally busy, the run can be continued - T1
  expires, the peer answers the poll, the station retransmits, the peer's T2 expires, first in one direction and then
  in the other - so that every payload accepted at either end is delivered, each once and in order, and acknowledged,
  with both stations still connected. No loss brings the two to a state they cannot leave.\<close>

theorem recovery:
  assumes "paired a b" "vs a = 0" "vr a = 0" "has_on_data (plat a)" "has_on_data (plat b)"
    and "lossy_step\<^sup>*\<^sup>* (lossy_start a b) s" "my_address (near s) \<noteq> my_address (far s)"
    and "current_state (near s) = ATC_HDLC_STATE_CONNECTED" "current_state (far s) = ATC_HDLC_STATE_CONNECTED"
    and "va (near s) \<noteq> vs (near s) \<longrightarrow> can_poll (near s)" "va (far s) \<noteq> vs (far s) \<longrightarrow> can_poll (far s)"
  shows "\<exists>t. lossy_step\<^sup>*\<^sup>* s t \<and> near_took t = near_took s \<and> far_took t = far_took s
     \<and> current_state (near t) = ATC_HDLC_STATE_CONNECTED \<and> current_state (far t) = ATC_HDLC_STATE_CONNECTED
     \<and> far_got t = map handed_of (near_took s) \<and> near_got t = map handed_of (far_took s)
     \<and> unacked (near t) = [] \<and> unacked (far t) = []"
proof -
  obtain v r w q gs hs where "lossy_inv s v r w q gs hs" using lossy_steps_inv [OF assms(6) start_inv [OF assms(1-5)]] by blast
  from recovers_both [OF this assms(8,9,7,10,11)] show ?thesis by (auto simp: same_work_def)
qed

lemma recovery_witness:
  "\<exists>s t. lossy_step\<^sup>*\<^sup>* (lossy_start lossy_a lossy_b) s \<and> to_far s = [] \<and> to_near s = [] \<and> near_took s = [[0x48, 0x69]]
     \<and> lossy_step\<^sup>*\<^sup>* s t \<and> far_got t = [(Some [0x48, 0x69], 2)] \<and> unacked (near t) = []"
proof -
  obtain s where s: "lossy_step\<^sup>*\<^sup>* (lossy_start lossy_a lossy_b) s" "to_far s = []" "to_near s = []" "near_took s = [[0x48, 0x69]]"
     "current_state (near s) = ATC_HDLC_STATE_CONNECTED" "current_state (far s) = ATC_HDLC_STATE_CONNECTED"
     "\<not> CTX_FLAG (near s) HDLC_F_LOCAL_BUSY" "config (near s) = Some bm_cfg" "n2 (near s) = 0" "my_address (near s) \<noteq> my_address (far s)"
     "va (far s) = vs (far s)"
    using lossy_run by blast
  have "va (near s) \<noteq> vs (near s) \<longrightarrow> can_poll (near s)" "va (far s) \<noteq> vs (far s) \<longrightarrow> can_poll (far s)"
    using s(7-9,11) by (simp_all add: can_poll_def bm_storage_defs)
  from recovery [OF lossy_ab(1-5) s(1,10,5,6) this] s show ?thesis by auto
qed

end
