(* ===== verification/Hdlc_Stale.thy ===== *)
theory Hdlc_Stale
  imports Hdlc_Window
begin

text \<open>
  A request to retransmit is carried out at the end of \<open>atc_hdlc_data_in\<close>. When another frame of the
  same chunk resets the link first, the request is stale: this theory shows for which windows and numbers
  the code then reads outside its arrays.
\<close>

section \<open>The slot computed from a stale number\<close>

text \<open>The slot from which \<open>retransmit_outstanding\<close> reads when V(S) and the next slot have been reset to
  zero under a request to go back to \<open>r\<close>: the C remainder of a negative number, cut to 8 bits.\<close>

lemma stale_slot_table:
  "list_all (\<lambda>w :: u8. list_all (\<lambda>r :: u8. unat w < 8 - unat r \<and> (8 - unat r) mod unat w \<noteq> 0 \<longrightarrow>
     (case c_mod (uint (0 :: u8) + uint w - uint (mod8_dist 0 r)) (uint w) of None \<Rightarrow> False | Some i \<Rightarrow> 251 \<le> unat i))
     [1, 2, 3, 4, 5, 6, 7]) [1, 2, 3, 4, 5, 6, 7]"
  by code_simp

lemma small_word:
  assumes "0 < unat (x :: u8)" "unat x < 8"
  shows "x \<in> set [1, 2, 3, 4, 5, 6, 7]"
  using assms by (simp add: word_unat_eq_iff) arith

lemma stale_slot:
  assumes "0 < unat (w :: u8)" "0 < unat (r :: u8)" "unat r < 8" "unat w < 8 - unat r" "\<not> unat w dvd 8 - unat r"
  shows "\<exists>i. c_mod (uint (0 :: u8) + uint w - uint (mod8_dist 0 r)) (uint w) = Some i \<and> 251 \<le> unat i"
proof -
  have "w \<in> set [1, 2, 3, 4, 5, 6, 7]" "r \<in> set [1, 2, 3, 4, 5, 6, 7]"
    using assms small_word [of w] small_word [of r] by (simp_all del: list.set)
  with stale_slot_table assms(4,5) show ?thesis
    unfolding list_all_iff by (fastforce simp: dvd_eq_mod_eq_0 split: option.splits)
qed

lemma stale_request_undefined:
  assumes "vs c = 0" "tx_next_slot c = 0" "tx_window c = Some w" "slot_lens w = Some ls" "length ls \<le> 251"
    and "0 < unat (slot_count w)" "0 < unat (retransmit_from c)" "unat (retransmit_from c) < 8"
    and "unat (slot_count w) < 8 - unat (retransmit_from c)"
    and "\<not> unat (slot_count w) dvd 8 - unat (retransmit_from c)"
  shows "retransmit_outstanding c = None"
proof -
  obtain i where i: "c_mod (uint (0 :: u8) + uint (slot_count w) - uint (mod8_dist 0 (retransmit_from c)))
      (uint (slot_count w)) = Some i" "251 \<le> unat i"
    using stale_slot [OF assms(6-10)] by blast
  have r: "retransmit_from c \<noteq> 0" using assms(7) by auto
  have "retransmit_loop (Suc 7) d 0 k i = None" if "tx_window d = Some w" "vs d = retransmit_from c" for d k
  proof -
    have "get_at (slot_lens w) (unat i) = None" using assms(4,5) i(2) by (simp add: get_at_def)
    with that r show ?thesis
      by (cases "ptr_add (slots w) (unat (ucast i * slot_capacity w))") (simp_all only: retransmit_loop.simps, simp_all)
  qed
  then have "retransmit_loop 8 d 0 k i = None" if "tx_window d = Some w" "vs d = retransmit_from c" for d k
    using that by (simp add: numeral_eq_Suc del: retransmit_loop.simps)
  then show ?thesis
    using assms(1-3) i(1) by (simp add: retransmit_outstanding_def Let_def CTX_CLR_def del: retransmit_loop.simps)
qed

section \<open>A rejection and a new connection in one chunk\<close>

text \<open>What an S-frame that asks for retransmission leaves before the end of \<open>atc_hdlc_data_in\<close>.\<close>

lemma sframe_request:
  assumes "live c" "idle_rx c" "our_address c addr" "4 \<le> rx_capacity c"
    and "current_state c = ATC_HDLC_STATE_CONNECTED" "is_sframe ctrl" "asks_again c addr ctrl"
    and "acceptable c (CTRL_NR ctrl)" "CTRL_NR ctrl \<noteq> vs c"
  shows "\<exists>d. rx_octets c (frame_octets (drv c) addr ctrl []) = Some d \<and> rx_inv d \<and> idle_rx d \<and> rx_env c d
     \<and> pending d \<and> retransmit_from d = CTRL_NR ctrl \<and> tx_window d = tx_window c
     \<and> current_state d = ATC_HDLC_STATE_CONNECTED"
proof -
  have c: "rx_inv c" "core c" "\<not> pending c" using assms(1) by (simp_all add: live_def settled_def)
  obtain c0 where c0: "rx_to c (Gather (frame_body (drv c) addr ctrl []) False) c0"
    "rx_octets c (frame_octets (drv c) addr ctrl []) = map_option (rx_reset RX_ADDR) (dispatch_frame c0 addr ctrl None 0)"
    using rx_frame_octets [OF c(1) assms(2), of "[]" addr ctrl] assms(3,4) by auto
  note rx = rx_to_fields(2) [OF c0(1)]
  note f = rx_frame_fields [OF rx] and s = rx_frame_same [OF rx]
  have core0: "core c0" using rx_to_fields(1) [OF c0(1)] by simp
  have "\<not> is_iframe ctrl" using assms(6) by (auto simp: frame_kinds)
  then have disp: "dispatch_frame c0 addr ctrl None 0 = handle_sframe c0 addr ctrl"
    using assms(5,6) f by (simp add: dispatch_frame_def state_connected_def)
  obtain d where d: "handle_sframe c0 addr ctrl = Some d" "sframe_keeps c0 d" "va d = CTRL_NR ctrl" "pending d"
      "retransmit_from d = va d"
    using runs_Some_exists [OF handle_sframe_line [OF core0, of ctrl addr]] assms(5,7-9) c(3) s f by auto
  have oct: "rx_octets c (frame_octets (drv c) addr ctrl []) = Some (rx_reset RX_ADDR d)"
    using c0(2) disp d(1) by simp
  have env: "rx_env c (rx_reset RX_ADDR d)"
    using runs_Some_exists [OF rx_octets_env [OF c(1), of "frame_octets (drv c) addr ctrl []"]] oct by auto
  have "core d" "tx_window d = tx_window c" "current_state d = ATC_HDLC_STATE_CONNECTED"
    using d(2) f assms(5) by (simp_all add: sframe_keeps_def)
  moreover have "rx_inv (rx_reset RX_ADDR d)" using d(2) by (simp add: sframe_keeps_def)
  moreover have "idle_rx (rx_reset RX_ADDR d)" by (simp add: idle_rx_def)
  moreover have "pending (rx_reset RX_ADDR d) = pending d" "retransmit_from (rx_reset RX_ADDR d) = retransmit_from d"
    "tx_window (rx_reset RX_ADDR d) = tx_window d" "current_state (rx_reset RX_ADDR d) = current_state d"
    by (simp_all add: rx_reset_def CTX_FLAG_def)
  ultimately show ?thesis using oct env d(3-5) by auto
qed

text \<open>C37 Why a chunk of input may complete only one frame when the window has 2 to 6 slots. A connected
  station with frames outstanding receives, in one chunk, an S-frame that asks it to go back to
  \<open>r = N(R)\<close> (a REJ, or a response with the F bit) and then SABM. The SABM resets V(S) and the next slot
  while the request stays, so \<open>atc_hdlc_data_in\<close> computes a slot from the stale number, and when \<open>r\<close> is
  not 0 and \<open>8 - r\<close> is larger than the number of slots and no multiple of it, that slot is negative and,
  cut to 8 bits, at least 251: its length is read outside the array (which has fewer entries, the
  documentation asks for one per slot), for every such station and both frames' addresses.\<close>

theorem stale_retransmission:
  assumes "reachable c" "idle_rx c" "our_address c addr" "our_address c addr'" "4 \<le> rx_capacity c"
    and "current_state c = ATC_HDLC_STATE_CONNECTED" "is_sframe ctrl" "asks_again c addr ctrl"
    and "dist8 (CTRL_NR ctrl) (va c) \<le> dist8 (vs c) (va c)" "CTRL_NR ctrl \<noteq> vs c"
    and "is_uframe sabm" "sabm AND NOT PF_BIT = U_SABM"
    and "tx_window c = Some w" "slot_lens w = Some ls" "length ls \<le> 251"
    and "CTRL_NR ctrl \<noteq> 0" "unat (slot_count w) < 8 - unat (CTRL_NR ctrl)"
    and "\<not> unat (slot_count w) dvd 8 - unat (CTRL_NR ctrl)"
    and "unat len = length (frame_octets (drv c) addr ctrl [] @ frame_octets (drv c) addr' sabm [])"
  shows "atc_hdlc_data_in c (Some (frame_octets (drv c) addr ctrl [] @ frame_octets (drv c) addr' sabm [])) len = None"
proof -
  have live: "live c" using assms(1) by (rule reachable_live)
  then have core: "core c" by (simp add: live_def settled_def)
  have acc: "acceptable c (CTRL_NR ctrl)"
    using assms(9) by (simp add: acceptable_def out_count_def CTRL_NR_less)
  obtain d where d: "rx_octets c (frame_octets (drv c) addr ctrl []) = Some d" "rx_inv d" "idle_rx d" "rx_env c d"
      "pending d" "retransmit_from d = CTRL_NR ctrl" "tx_window d = tx_window c" "current_state d = ATC_HDLC_STATE_CONNECTED"
    using sframe_request [OF live assms(2,3,5,6,7,8) acc assms(10)] by blast
  then have env: "drv d = drv c" "our_address d addr'" "4 \<le> rx_capacity d" using assms(4,5) by (simp_all add: rx_env_def)
  obtain d0 where d0: "rx_to d (Gather (frame_body (drv d) addr' sabm []) False) d0"
    "rx_octets d (frame_octets (drv c) addr' sabm []) = map_option (rx_reset RX_ADDR) (dispatch_frame d0 addr' sabm None 0)"
    using rx_frame_octets [OF d(2,3), of "[]" addr' sabm] env by auto
  note f = rx_frame_fields [OF rx_to_fields(2) [OF d0(1)]]
  have "core d0" using rx_to_fields(1) [OF d0(1)] by simp
  from sabm_value [OF this assms(11,12), of addr' None 0] f(5) d(8)
  obtain xs where xs: "dispatch_frame d0 addr' sabm None 0 = Some (say (sabm_fields d0 sabm) xs)" by auto
  let ?e = "rx_reset RX_ADDR (say (sabm_fields d0 sabm) xs)"
  have oct: "rx_octets c (frame_octets (drv c) addr ctrl [] @ frame_octets (drv c) addr' sabm []) = Some ?e"
    using d(1) d0(2) xs by (simp add: rx_octets_append)
  have "pending d0" using d(5) f(6) by (simp add: CTX_FLAG_def)
  then have e: "pending ?e" "vs ?e = 0" "tx_next_slot ?e = 0" "retransmit_from ?e = CTRL_NR ctrl"
      "tx_window ?e = Some (zero_lens w)"
    using f d(6,7) assms(13) by (simp_all add: sabm_fields_def rx_reset_def)
  have w: "slot_count (zero_lens w) = slot_count w" "0 < unat (slot_count w)"
      "slot_lens (zero_lens w) = Some (replicate (unat (slot_count w)) 0 @ drop (unat (slot_count w)) ls)"
      "length (replicate (unat (slot_count w)) (0 :: u32) @ drop (unat (slot_count w)) ls) \<le> 251"
    using coreD(3) [OF core] assms(13-15) by (auto simp: tx_ok_def win_geom_def zero_lens_def split: option.splits)
  then have "retransmit_outstanding ?e = None"
    using stale_request_undefined [OF e(2,3,5)] e(4) assms(16-18) CTRL_NR_less [of ctrl] by (auto simp: unat_gt_0)
  with oct e(1) assms(19) show ?thesis by (simp add: data_in_run)
qed

text \<open>A station with window 3 and two frames outstanding that is asked for the second.\<close>

fun hdlc_calls :: "atc_hdlc_ctx_t \<Rightarrow> hdlc_call list \<Rightarrow> atc_hdlc_ctx_t option" where
  "hdlc_calls c [] = Some c"
| "hdlc_calls c (x # xs) = do { (c, r) \<leftarrow> hdlc_do c x; hdlc_calls c xs }"

fun legal_run :: "atc_hdlc_ctx_t \<Rightarrow> hdlc_call list \<Rightarrow> bool" where
  "legal_run c [] = True"
| "legal_run c (x # xs) = (legal c x \<and> (case hdlc_do c x of None \<Rightarrow> False | Some (d, r) \<Rightarrow> legal_run d xs))"

lemma legal_run_reachable:
  "reachable c \<Longrightarrow> legal_run c xs \<Longrightarrow> hdlc_calls c xs = Some d \<Longrightarrow> reachable d"
proof (induction xs arbitrary: c)
  case (Cons x xs)
  then show ?case using reach_call [of c x] by (cases "hdlc_do c x") auto
qed simp

definition win3_params :: atc_hdlc_params_t where
  "win3_params = bm_params\<lparr>p_tx_window := Some \<lparr>slots = Some (replicate 192 0), slot_lens = Some [0, 0, 0],
     slot_capacity = 64, slot_count = 3\<rparr>\<rparr>"

definition win3_calls :: "hdlc_call list" where
  "win3_calls = [Link_setup 0x02, Data_in (Some ua_octets) 6, Transmit_i (Some [0x41]) 1, Transmit_i (Some [0x42]) 1]"

definition win3_up :: atc_hdlc_ctx_t where
  "win3_up = the (hdlc_calls (fst (atc_hdlc_init static_ctx win3_params)) win3_calls)"

definition rej_octets :: "u8 list" where
  "rej_octets = frame_octets atc_hdlc_crc_ops_default 0x02 0x29 []"

definition sabm_octets :: "u8 list" where
  "sabm_octets = frame_octets atc_hdlc_crc_ops_default 0x01 0x3F []"

lemma win3_eval:
  "(case hdlc_calls (fst (atc_hdlc_init static_ctx win3_params)) win3_calls of None \<Rightarrow> None | Some c \<Rightarrow>
     Some (current_state c, va c, vs c, rx_capacity c, idle_rx c, our_address c 0x01, our_address c 0x02,
       map_option slot_count (tx_window c), map_option slot_lens (tx_window c),
       frame_octets (drv c) 0x02 0x29 [], frame_octets (drv c) 0x01 0x3F []))
   = Some (ATC_HDLC_STATE_CONNECTED, 0, 2, 72, True, True, True, Some 3, Some (Some [1, 1, 0]), rej_octets, sabm_octets)"
  by code_simp

lemma win3_legal: "legal_run (fst (atc_hdlc_init static_ctx win3_params)) win3_calls"
  by code_simp

lemma win3_run:
  "hdlc_calls (fst (atc_hdlc_init static_ctx win3_params)) win3_calls = Some win3_up"
  "current_state win3_up = ATC_HDLC_STATE_CONNECTED" "va win3_up = 0" "vs win3_up = 2"
  "rx_capacity win3_up = 72" "idle_rx win3_up" "our_address win3_up 0x01" "our_address win3_up 0x02"
  "map_option slot_count (tx_window win3_up) = Some 3" "map_option slot_lens (tx_window win3_up) = Some (Some [1, 1, 0])"
  "frame_octets (drv win3_up) 0x02 0x29 [] = rej_octets" "frame_octets (drv win3_up) 0x01 0x3F [] = sabm_octets"
proof -
  show run: "hdlc_calls (fst (atc_hdlc_init static_ctx win3_params)) win3_calls = Some win3_up"
    using win3_eval by (auto simp: win3_up_def split: option.splits)
  show "current_state win3_up = ATC_HDLC_STATE_CONNECTED" "va win3_up = 0" "vs win3_up = 2"
    "rx_capacity win3_up = 72" "idle_rx win3_up" "our_address win3_up 0x01" "our_address win3_up 0x02"
    "map_option slot_count (tx_window win3_up) = Some 3" "map_option slot_lens (tx_window win3_up) = Some (Some [1, 1, 0])"
    "frame_octets (drv win3_up) 0x02 0x29 [] = rej_octets" "frame_octets (drv win3_up) 0x01 0x3F [] = sabm_octets"
    using win3_eval unfolding run by (simp_all only: option.case option.inject prod.inject simp_thms)
qed

lemma win3_reachable: "reachable win3_up"
proof -
  have "params_ok win3_params" by (simp add: params_ok_def win3_params_def bm_storage_defs)
  moreover have "atc_hdlc_init static_ctx win3_params = (fst (atc_hdlc_init static_ctx win3_params), ATC_HDLC_OK)"
    by (simp add: prod_eq_iff win3_params_def atc_hdlc_init_def bm_storage_defs is_null_def txwin_error_def Let_def hdlc_len_defs)
  ultimately have "reachable (fst (atc_hdlc_init static_ctx win3_params))" by (rule reach_init)
  then show ?thesis using win3_legal win3_run(1) by (rule legal_run_reachable)
qed

lemma stale_retransmission_witness:
  "atc_hdlc_data_in win3_up (Some (rej_octets @ sabm_octets)) 12 = None"
proof -
  obtain w where w: "tx_window win3_up = Some w" "slot_count w = 3" "slot_lens w = Some [1, 1, 0]"
    using win3_run(9,10) by auto
  have c: "is_sframe 0x29" "CTRL_NR 0x29 = 1" "CTRL_S 0x29 = S_REJ" "is_uframe 0x3F" "(0x3F :: u8) AND NOT PF_BIT = U_SABM"
    by (simp_all add: is_sframe_def CTRL_NR_def CTRL_S_def S_REJ_def is_uframe_def PF_BIT_def U_SABM_def)
  have len: "length (rej_octets @ sabm_octets) = 12" by code_simp
  show ?thesis
    using stale_retransmission [OF win3_reachable win3_run(6,8,7) _ win3_run(2) c(1) _ _ _ c(4,5) w(1,3), of 12]
      c(2,3) w(2) len by (simp add: win3_run asks_again_def dist8_def)
qed

text \<open>The same octets in two chunks are handled.\<close>

lemma win3_two_chunks:
  "map_option current_state (hdlc_calls win3_up [Data_in (Some rej_octets) 6, Data_in (Some sabm_octets) 6])
     = Some ATC_HDLC_STATE_CONNECTED"
  by code_simp

end
