(* ===== verification/Loopback.thy ===== *)
theory Loopback
  imports Hdlc_Pair
begin

text \<open>
  \<open>example/loopback/loopback.c\<close>: two stations in one process, joined by two wires that queue one frame
  each. The model has the wires with their 256-octet buffers, the callbacks, the static storage and
  configurations, the lines printed, and the main program step by step. Callbacks run after the
  library call that makes them, in order; none of them calls back into the library.
\<close>

section \<open>The wires\<close>

record wire_t =
  txbuf :: "u8 list"
  txlen :: nat
  queued :: "u8 list"
  qlen :: nat
  wire_ready :: bool

definition wire0 :: wire_t where
  "wire0 = \<lparr>txbuf = replicate 256 0, txlen = 0, queued = replicate 256 0, qlen = 0, wire_ready = False\<rparr>"

definition send_cb :: "wire_t \<Rightarrow> u8 \<Rightarrow> bool \<Rightarrow> wire_t" where
  "send_cb w byte flush =
     (let w = (if txlen w < 256 then w\<lparr>txbuf := (txbuf w)[txlen w := byte], txlen := txlen w + 1\<rparr> else w) in
      if flush then w\<lparr>queued := take (txlen w) (txbuf w) @ drop (txlen w) (queued w), qlen := txlen w,
        wire_ready := True, txlen := 0\<rparr>
      else w)"

section \<open>What is printed\<close>

definition event_str :: "atc_hdlc_event_t \<Rightarrow> string" where
  "event_str e = (case e of
       ATC_HDLC_EVENT_SETUP_REQ \<Rightarrow> ''LINK_SETUP_REQUEST''
     | ATC_HDLC_EVENT_CONN_ACCEPTED \<Rightarrow> ''CONNECT_ACCEPTED''
     | ATC_HDLC_EVENT_CONN_REQ \<Rightarrow> ''INCOMING_CONNECT''
     | ATC_HDLC_EVENT_RESET \<Rightarrow> ''RESET''
     | ATC_HDLC_EVENT_DISC_REQ \<Rightarrow> ''DISCONNECT_REQUEST''
     | ATC_HDLC_EVENT_DISC_DONE \<Rightarrow> ''DISCONNECT_COMPLETE''
     | ATC_HDLC_EVENT_PEER_DISC \<Rightarrow> ''PEER_DISCONNECT''
     | ATC_HDLC_EVENT_PEER_REJECT \<Rightarrow> ''PEER_REJECT''
     | ATC_HDLC_EVENT_PROTOCOL_ERROR \<Rightarrow> ''PROTOCOL_ERROR''
     | ATC_HDLC_EVENT_LINK_FAILURE \<Rightarrow> ''LINK_FAILURE''
     | ATC_HDLC_EVENT_PEER_BUSY \<Rightarrow> ''REMOTE_BUSY_ON''
     | ATC_HDLC_EVENT_PEER_READY \<Rightarrow> ''REMOTE_BUSY_OFF''
     | ATC_HDLC_EVENT_WINDOW_OPEN \<Rightarrow> ''WINDOW_OPEN'')"

text \<open>The lines of the program: a heading, an event of a station, a payload received.\<close>

datatype printed = Puts string | Event_line string string | Received u16 "u8 list"

text \<open>\<open>%.*s\<close> prints at most \<open>len\<close> octets and stops at a zero.\<close>

definition on_data_b :: "octets \<Rightarrow> u16 \<Rightarrow> printed" where
  "on_data_b data len = Received len
     (case data of None \<Rightarrow> [] | Some xs \<Rightarrow> takeWhile (\<lambda>b. b \<noteq> 0) (take (unat len) xs))"

section \<open>Static storage\<close>

definition rx_buf_128 :: atc_hdlc_rxbuf_t where
  "rx_buf_128 = \<lparr>buffer = Some (replicate 128 0), capacity = 128\<rparr>"

definition tx_win_a :: atc_hdlc_txwin_t where
  "tx_win_a = \<lparr>slots = Some (replicate 64 0), slot_lens = Some [0], slot_capacity = 64, slot_count = 1\<rparr>"

definition cfg_a :: atc_hdlc_config_t where
  "cfg_a = \<lparr>mode = ATC_HDLC_MODE_ABM, cfg_address = 0x01, max_info_size = 64, max_retries = 3,
     t1_ms = 1000, t2_ms = 10\<rparr>"

definition cfg_b :: atc_hdlc_config_t where
  "cfg_b = \<lparr>mode = ATC_HDLC_MODE_ABM, cfg_address = 0x02, max_info_size = 64, max_retries = 3,
     t1_ms = 1000, t2_ms = 10\<rparr>"

definition plat_a :: atc_hdlc_plat_ops_t where
  "plat_a = \<lparr>has_on_send = True, has_on_data = False, has_on_event = True, has_t1_start = True,
     has_t1_stop = True, has_t2_start = True, has_t2_stop = True\<rparr>"

definition plat_b :: atc_hdlc_plat_ops_t where
  "plat_b = \<lparr>has_on_send = True, has_on_data = True, has_on_event = True, has_t1_start = True,
     has_t1_stop = True, has_t2_start = True, has_t2_stop = True\<rparr>"

definition params_a :: atc_hdlc_params_t where
  "params_a = \<lparr>p_config = Some cfg_a, p_platform = Some plat_a, p_tx_window = Some tx_win_a,
     p_rx_buf = Some rx_buf_128, p_crc = None\<rparr>"

definition params_b :: atc_hdlc_params_t where
  "params_b = \<lparr>p_config = Some cfg_b, p_platform = Some plat_b, p_tx_window = None,
     p_rx_buf = Some rx_buf_128, p_crc = None\<rparr>"

section \<open>The process\<close>

record loop_t =
  ctx_a :: atc_hdlc_ctx_t
  ctx_b :: atc_hdlc_ctx_t
  wire_ab :: wire_t
  wire_ba :: wire_t
  console :: "printed list"

fun callback_a :: "callback \<Rightarrow> loop_t \<Rightarrow> loop_t" where
  "callback_a (On_send b f) s = s\<lparr>wire_ab := send_cb (wire_ab s) b f\<rparr>"
| "callback_a (On_event e) s = s\<lparr>console := console s @ [Event_line ''[A]'' (event_str e)]\<rparr>"
| "callback_a _ s = s"

fun callback_b :: "callback \<Rightarrow> loop_t \<Rightarrow> loop_t" where
  "callback_b (On_send b f) s = s\<lparr>wire_ba := send_cb (wire_ba s) b f\<rparr>"
| "callback_b (On_event e) s = s\<lparr>console := console s @ [Event_line ''[B]'' (event_str e)]\<rparr>"
| "callback_b (On_data data len) s = s\<lparr>console := console s @ [on_data_b data len]\<rparr>"
| "callback_b _ s = s"

definition call_a :: "hdlc_call \<Rightarrow> loop_t \<Rightarrow> loop_t option" where
  "call_a call s = do {
     (c, r) \<leftarrow> hdlc_do (ctx_a s) call;
     Some (fold callback_a (new_calls (ctx_a s) c) (s\<lparr>ctx_a := c\<rparr>)) }"

definition call_b :: "hdlc_call \<Rightarrow> loop_t \<Rightarrow> loop_t option" where
  "call_b call s = do {
     (c, r) \<leftarrow> hdlc_do (ctx_b s) call;
     Some (fold callback_b (new_calls (ctx_b s) c) (s\<lparr>ctx_b := c\<rparr>)) }"

definition deliver_ab :: "loop_t \<Rightarrow> loop_t option" where
  "deliver_ab s = (let w = wire_ab s in
     if \<not> wire_ready w then Some s
     else call_b (Data_in (Some (queued w)) (word_of_nat (qlen w))) (s\<lparr>wire_ab := w\<lparr>wire_ready := False\<rparr>\<rparr>))"

definition deliver_ba :: "loop_t \<Rightarrow> loop_t option" where
  "deliver_ba s = (let w = wire_ba s in
     if \<not> wire_ready w then Some s
     else call_a (Data_in (Some (queued w)) (word_of_nat (qlen w))) (s\<lparr>wire_ba := w\<lparr>wire_ready := False\<rparr>\<rparr>))"

definition put_line :: "string \<Rightarrow> loop_t \<Rightarrow> loop_t" where
  "put_line l s = s\<lparr>console := console s @ [Puts l]\<rparr>"

definition loop_start :: loop_t where
  "loop_start = \<lparr>ctx_a = fst (atc_hdlc_init static_ctx params_a),
     ctx_b = (fst (atc_hdlc_init static_ctx params_b))\<lparr>peer_address := 0x01\<rparr>,
     wire_ab = wire0, wire_ba = wire0, console = []\<rparr>"

text \<open>\<open>"Hello!"\<close> and \<open>"World!"\<close> without their terminating zero.\<close>

definition msg1 :: "u8 list" where "msg1 = [0x48, 0x65, 0x6C, 0x6C, 0x6F, 0x21]"
definition msg2 :: "u8 list" where "msg2 = [0x57, 0x6F, 0x72, 0x6C, 0x64, 0x21]"

definition loop_connect :: "loop_t \<Rightarrow> loop_t option" where
  "loop_connect s = do {
     s \<leftarrow> call_a (Link_setup 0x02) s;
     s \<leftarrow> deliver_ab s;
     deliver_ba s }"

definition loop_send :: "u8 list \<Rightarrow> loop_t \<Rightarrow> loop_t option" where
  "loop_send p s = do {
     s \<leftarrow> call_a (Transmit_i (Some p) (word_of_nat (length p))) s;
     s \<leftarrow> deliver_ab s;
     s \<leftarrow> call_b T2_expired s;
     deliver_ba s }"

definition loop_disconnect :: "loop_t \<Rightarrow> loop_t option" where
  "loop_disconnect s = do {
     s \<leftarrow> call_a Disconnect s;
     s \<leftarrow> deliver_ab s;
     deliver_ba s }"

text \<open>The program for any list of messages; \<open>main\<close> sends two.\<close>

fun loop_sends :: "u8 list list \<Rightarrow> loop_t \<Rightarrow> loop_t option" where
  "loop_sends [] s = Some s"
| "loop_sends (p # ps) s = do { s \<leftarrow> loop_send p s; loop_sends ps s }"

definition loop_program :: "u8 list list \<Rightarrow> loop_t option" where
  "loop_program ps = do {
     s \<leftarrow> loop_connect (put_line ''--- connect ---'' loop_start);
     s \<leftarrow> loop_sends ps (put_line (CHR 0x0A # ''--- data ---'') s);
     loop_disconnect (put_line (CHR 0x0A # ''--- disconnect ---'') s) }"

definition loopback_main :: "loop_t option" where
  "loopback_main = loop_program [msg1, msg2]"

section \<open>A frame on a wire\<close>

definition wire_idle :: "wire_t \<Rightarrow> bool" where
  "wire_idle w \<longleftrightarrow> txlen w = 0 \<and> length (txbuf w) = 256 \<and> length (queued w) = 256 \<and> \<not> wire_ready w"

definition wire_holds :: "wire_t \<Rightarrow> u8 list \<Rightarrow> bool" where
  "wire_holds w xs \<longleftrightarrow> wire_idle (w\<lparr>wire_ready := False\<rparr>) \<and> wire_ready w \<and> qlen w = length xs \<and> take (length xs) (queued w) = xs"

text \<open>What \<open>send_cb\<close> makes of a list of callbacks.\<close>

fun on_wire :: "callback list \<Rightarrow> wire_t \<Rightarrow> wire_t" where
  "on_wire [] w = w"
| "on_wire (On_send b f # xs) w = on_wire xs (send_cb w b f)"
| "on_wire (_ # xs) w = on_wire xs w"

lemma on_wire_append: "on_wire (xs @ ys) w = on_wire ys (on_wire xs w)"
  by (induction xs w rule: on_wire.induct) simp_all

lemma on_wire_sends: "on_wire (sends xs) w = on_wire xs w"
  by (induction xs w rule: on_wire.induct) simp_all

lemma wire_assembles:
  "txlen w + length xs \<le> 256 \<Longrightarrow> length (txbuf w) = 256 \<Longrightarrow>
   \<exists>b. on_wire (map (\<lambda>b. On_send b False) xs) w = w\<lparr>txbuf := b, txlen := txlen w + length xs\<rparr>
     \<and> length b = 256 \<and> take (txlen w + length xs) b = take (txlen w) (txbuf w) @ xs"
proof (induction xs arbitrary: w)
  case Nil
  then show ?case by (intro exI [of _ "txbuf w"]) simp
next
  case (Cons x xs)
  let ?w = "w\<lparr>txbuf := (txbuf w)[txlen w := x], txlen := txlen w + 1\<rparr>"
  have t: "take (txlen w + 1) ((txbuf w)[txlen w := x]) = take (txlen w) (txbuf w) @ [x]"
    using Cons.prems by (simp add: take_Suc_conv_app_nth)
  obtain b where b: "on_wire (map (\<lambda>b. On_send b False) xs) ?w = ?w\<lparr>txbuf := b, txlen := txlen ?w + length xs\<rparr>"
      "length b = 256" "take (txlen ?w + length xs) b = take (txlen ?w) (txbuf ?w) @ xs"
    using Cons.IH [of ?w] Cons.prems by auto
  have "send_cb w x False = ?w" using Cons.prems by (simp add: send_cb_def Let_def)
  with b t show ?case by (intro exI [of _ b]) (simp add: add.assoc)
qed

lemma frame_length: "length info \<le> 64 \<Longrightarrow> length (frame_octets d addr ctrl info) \<le> 138"
  using length_stuff [of "frame_body d addr ctrl info"]
  by (simp add: frame_octets_def frame_body_def fcs_field_def del: stuff_simps)

lemma wire_takes_frame:
  assumes "wire_idle w" "length info \<le> 64" "sends xs = frame_calls d addr ctrl info"
  shows "wire_holds (on_wire xs w) (frame_octets d addr ctrl info)"
proof -
  let ?ys = "FLAG # stuff (frame_body d addr ctrl info)"
  have len: "length ?ys < 256" using frame_length [OF assms(2), of d addr ctrl] by (simp add: frame_octets_def)
  have w: "txlen w = 0" "length (txbuf w) = 256" "length (queued w) = 256"
    using assms(1) by (simp_all add: wire_idle_def)
  obtain b where b: "on_wire (map (\<lambda>b. On_send b False) ?ys) w = w\<lparr>txbuf := b, txlen := length ?ys\<rparr>" "length b = 256"
      "take (length ?ys) b = ?ys"
    using wire_assembles [of w ?ys] w len by auto
  let ?b = "b[length ?ys := FLAG]"
  have t: "take (length ?ys + 1) ?b = ?ys @ [FLAG]"
    using b(2,3) len by (simp add: take_Suc_conv_app_nth)
  have "on_wire xs w = on_wire (frame_calls d addr ctrl info) w"
    using on_wire_sends [of xs w] assms(3) by simp
  also have "\<dots> = send_cb (w\<lparr>txbuf := b, txlen := length ?ys\<rparr>) FLAG True"
    unfolding frame_calls_def on_wire_append b(1) by simp
  finally show ?thesis
    using b(2) t len w by (simp add: wire_holds_def wire_idle_def send_cb_def Let_def frame_octets_def)
qed

text \<open>The lines printed for the callbacks of a station.\<close>

lemma callbacks_a:
  "fold callback_a xs s = s\<lparr>wire_ab := on_wire xs (wire_ab s),
     console := console s @ map (\<lambda>e. Event_line ''[A]'' (event_str e)) (events_of xs)\<rparr>"
  by (induction xs arbitrary: s rule: events_of.induct) simp_all

fun lines_b :: "callback list \<Rightarrow> printed list" where
  "lines_b [] = []"
| "lines_b (On_event e # xs) = Event_line ''[B]'' (event_str e) # lines_b xs"
| "lines_b (On_data data len # xs) = on_data_b data len # lines_b xs"
| "lines_b (_ # xs) = lines_b xs"

lemma callbacks_b:
  "fold callback_b xs s = s\<lparr>wire_ba := on_wire xs (wire_ba s), console := console s @ lines_b xs\<rparr>"
  by (induction xs arbitrary: s rule: lines_b.induct) simp_all

lemma lines_b_events: "delivered xs = [] \<Longrightarrow> lines_b xs = map (\<lambda>e. Event_line ''[B]'' (event_str e)) (events_of xs)"
  by (induction xs rule: lines_b.induct) simp_all

lemma lines_b_data: "events_of xs = [] \<Longrightarrow> lines_b xs = map (\<lambda>(data, len). on_data_b data len) (delivered xs)"
  by (induction xs rule: lines_b.induct) simp_all

text \<open>A delivery is the station hearing the frame on the wire.\<close>

lemma heard:
  assumes "wire_holds w (line_octets ys)" "length (line_octets ys) < 2 ^ 32"
  shows "atc_hdlc_data_in c (Some (queued w)) (word_of_nat (qlen w)) = hear c ys"
proof -
  let ?n = "length (line_octets ys)"
  have w: "qlen w = ?n" "take ?n (queued w) = line_octets ys" using assms(1) by (simp_all add: wire_holds_def)
  have n: "unat (word_of_nat ?n :: u32) = ?n"
    using assms(2) by (simp add: unat_of_nat take_bit_nat_eq_self)
  have "?n \<le> length (queued w)" using arg_cong [OF w(2), of length] by simp
  then show ?thesis using n w by (simp add: data_in_run hear_def)
qed

lemma deliver_ab_run:
  assumes "wire_holds (wire_ab s) (line_octets ys)" "length (line_octets ys) < 2 ^ 32" "hear (ctx_b s) ys = Some d"
  shows "\<exists>w. wire_idle w \<and> deliver_ab s = Some (s\<lparr>ctx_b := d, wire_ab := w,
     wire_ba := on_wire (new_calls (ctx_b s) d) (wire_ba s), console := console s @ lines_b (new_calls (ctx_b s) d)\<rparr>)"
  using assms heard [OF assms(1,2), of "ctx_b s"]
  by (intro exI [of _ "wire_ab s\<lparr>wire_ready := False\<rparr>"])
    (simp add: deliver_ab_def Let_def call_b_def callbacks_b wire_holds_def)

lemma deliver_ba_run:
  assumes "wire_holds (wire_ba s) (line_octets ys)" "length (line_octets ys) < 2 ^ 32" "hear (ctx_a s) ys = Some d"
  shows "\<exists>w. wire_idle w \<and> deliver_ba s = Some (s\<lparr>ctx_a := d, wire_ba := w,
     wire_ab := on_wire (new_calls (ctx_a s) d) (wire_ab s),
     console := console s @ map (\<lambda>e. Event_line ''[A]'' (event_str e)) (events_of (new_calls (ctx_a s) d))\<rparr>)"
  using assms heard [OF assms(1,2), of "ctx_a s"]
  by (intro exI [of _ "wire_ba s\<lparr>wire_ready := False\<rparr>"])
    (simp add: deliver_ba_def Let_def call_a_def callbacks_a wire_holds_def)

lemma call_a_run:
  "hdlc_do (ctx_a s) call = Some (d, r) \<Longrightarrow> call_a call s = Some (s\<lparr>ctx_a := d,
     wire_ab := on_wire (new_calls (ctx_a s) d) (wire_ab s),
     console := console s @ map (\<lambda>e. Event_line ''[A]'' (event_str e)) (events_of (new_calls (ctx_a s) d))\<rparr>)"
  by (simp add: call_a_def callbacks_a)

lemma call_b_run:
  "hdlc_do (ctx_b s) call = Some (d, r) \<Longrightarrow> call_b call s = Some (s\<lparr>ctx_b := d,
     wire_ba := on_wire (new_calls (ctx_b s) d) (wire_ba s), console := console s @ lines_b (new_calls (ctx_b s) d)\<rparr>)"
  by (simp add: call_b_def callbacks_b)

lemma silent_wire: "line_octets xs = [] \<Longrightarrow> on_wire xs w = w"
  using on_wire_sends [of xs w] no_sends [of xs] by simp

lemma frame_short: "length info \<le> 64 \<Longrightarrow> length (frame_octets d addr ctrl info) < 2 ^ 32"
  using frame_length [of info d addr ctrl] by simp

section \<open>The three parts of the program\<close>

text \<open>What stays the same from the start to the end.\<close>

definition set_up :: "loop_t \<Rightarrow> bool" where
  "set_up s \<longleftrightarrow> plat (ctx_a s) = plat_a \<and> plat (ctx_b s) = plat_b \<and> rx_capacity (ctx_a s) = 128
     \<and> rx_capacity (ctx_b s) = 128 \<and> config (ctx_a s) = Some cfg_a
     \<and> map_option slot_capacity (tx_window (ctx_a s)) = Some 64 \<and> map_option slot_count (tx_window (ctx_a s)) = Some 1
     \<and> my_address (ctx_b s) = 0x02 \<and> wire_idle (wire_ab s) \<and> wire_idle (wire_ba s)"

lemma loop_connect_run:
  assumes "set_up s" "callable (ctx_a s) (ctx_b s)"
  shows "\<exists>s'. loop_connect s = Some s' \<and> set_up s' \<and> paired (ctx_a s') (ctx_b s') \<and> console s' = console s @
     [Event_line ''[A]'' ''LINK_SETUP_REQUEST'', Event_line ''[B]'' ''INCOMING_CONNECT'', Event_line ''[A]'' ''CONNECT_ACCEPTED'']"
proof -
  let ?a = "ctx_a s" and ?b = "ctx_b s"
  have my: "my_address ?b = 0x02" and ev: "has_on_event (plat ?a)" "has_on_event (plat ?b)"
    and wires: "wire_idle (wire_ab s)" "wire_idle (wire_ba s)"
    using assms(1) by (simp_all add: set_up_def plat_a_def plat_b_def)
  obtain a1 xs where a1: "atc_hdlc_link_setup ?a 0x02 = Some (a1, ATC_HDLC_OK)" "at_rest a1"
     "peer_address a1 = 0x02" "current_state a1 = ATC_HDLC_STATE_CONNECTING" "drv a1 = drv ?a"
     "my_address a1 = my_address ?a" "config a1 = config ?a" "plat a1 = plat ?a" "rx_capacity a1 = rx_capacity ?a"
     "tx_window a1 = tx_window ?a" "trace a1 = trace ?a @ xs"
     "line_octets xs = frame_octets (drv ?b) 0x02 (U_CTRL U_SABM 1) []"
     "events_of xs = [ATC_HDLC_EVENT_SETUP_REQ]" "sends xs = frame_calls (drv ?b) 0x02 (U_CTRL U_SABM 1) []"
    using setup_leg [of ?a "0x02"] assms(2) ev(1) unfolding callable_def by auto
  have n1: "new_calls ?a a1 = xs" using a1(11) by (simp add: new_calls_def)
  obtain b1 ys where b1: "hear ?b xs = Some b1" "at_rest b1" "current_state b1 = ATC_HDLC_STATE_CONNECTED"
     "vs b1 = 0" "vr b1 = 0" "va b1 = 0" "\<not> CTX_FLAG b1 HDLC_F_REMOTE_BUSY" "\<not> CTX_FLAG b1 HDLC_F_LOCAL_BUSY"
     "rx_capacity b1 = rx_capacity ?b" "drv b1 = drv ?b" "plat b1 = plat ?b" "my_address b1 = my_address ?b"
     "peer_address b1 = peer_address ?b" "trace b1 = trace ?b @ ys"
     "line_octets ys = frame_octets (drv a1) 0x02 0x73 []" "delivered ys = []"
     "events_of ys = [ATC_HDLC_EVENT_CONN_REQ]" "sends ys = frame_calls (drv a1) 0x02 0x73 []"
    using sabm_leg [of ?b "0x02" xs] a1(5,12) my ev(2) assms(2) unfolding callable_def by (auto simp: our_address_def)
  have n2: "new_calls ?b b1 = ys" using b1(14) by (simp add: new_calls_def)
  obtain a2 zs where a2: "hear a1 ys = Some a2" "at_rest a2" "current_state a2 = ATC_HDLC_STATE_CONNECTED"
     "vs a2 = 0" "vr a2 = 0" "va a2 = 0" "\<not> CTX_FLAG a2 HDLC_F_REMOTE_BUSY" "rx_capacity a2 = rx_capacity a1"
     "drv a2 = drv a1" "plat a2 = plat a1" "my_address a2 = my_address a1" "peer_address a2 = peer_address a1"
     "config a2 = config a1" "map_option slot_capacity (tx_window a2) = map_option slot_capacity (tx_window a1)"
     "trace a2 = trace a1 @ zs" "line_octets zs = []" "events_of zs = [ATC_HDLC_EVENT_CONN_ACCEPTED]"
     "map_option slot_count (tx_window a2) = map_option slot_count (tx_window a1)"
    using ua_leg [of a1 "0x02" ys] a1 b1(15) ev(1) assms(2) unfolding callable_def by (auto simp: our_address_def)
  have n3: "new_calls a1 a2 = zs" using a2(15) by (simp add: new_calls_def)
  let ?s1 = "s\<lparr>ctx_a := a1, wire_ab := on_wire xs (wire_ab s), console := console s @ [Event_line ''[A]'' ''LINK_SETUP_REQUEST'']\<rparr>"
  have c1: "call_a (Link_setup 0x02) s = Some ?s1"
    using call_a_run [of s "Link_setup 0x02" a1 "Result ATC_HDLC_OK"] a1(1,13) n1 by (simp add: event_str_def)
  have w1: "wire_holds (on_wire xs (wire_ab s)) (line_octets xs)"
    using wire_takes_frame [OF wires(1) _ a1(14)] a1(12) by simp
  obtain w where w: "wire_idle w" "deliver_ab ?s1 = Some (?s1\<lparr>ctx_b := b1, wire_ab := w, wire_ba := on_wire ys (wire_ba s),
      console := console ?s1 @ [Event_line ''[B]'' ''INCOMING_CONNECT'']\<rparr>)"
    using deliver_ab_run [of ?s1 xs b1] w1 a1(12) frame_short [of "[]"] b1(1,16,17) n2
    by (auto simp: lines_b_events event_str_def)
  let ?s2 = "?s1\<lparr>ctx_b := b1, wire_ab := w, wire_ba := on_wire ys (wire_ba s),
      console := console ?s1 @ [Event_line ''[B]'' ''INCOMING_CONNECT'']\<rparr>"
  have w2: "wire_holds (on_wire ys (wire_ba s)) (line_octets ys)"
    using wire_takes_frame [OF wires(2) _ b1(18)] b1(15) by simp
  obtain v where v: "wire_idle v" "deliver_ba ?s2 = Some (?s2\<lparr>ctx_a := a2, wire_ba := v,
      console := console ?s2 @ [Event_line ''[A]'' ''CONNECT_ACCEPTED'']\<rparr>)"
    using deliver_ba_run [of ?s2 ys a2] w2 b1(15) frame_short [of "[]"] a2(1,16,17) n3 silent_wire [of zs w]
    by (auto simp: event_str_def)
  let ?s3 = "?s2\<lparr>ctx_a := a2, wire_ba := v, console := console ?s2 @ [Event_line ''[A]'' ''CONNECT_ACCEPTED'']\<rparr>"
  have "loop_connect s = Some ?s3" using c1 w(2) v(2) by (simp add: loop_connect_def)
  moreover have "set_up ?s3" using assms(1) w(1) v(1) a1 a2 b1 by (simp add: set_up_def)
  moreover have "paired a2 b1" using assms a1 a2 b1 by (simp add: paired_def callable_def set_up_def)
  ultimately show ?thesis by simp
qed

text \<open>The lines of one message: what the application of B prints, and the window of A opening.\<close>

definition message_lines :: "u8 list \<Rightarrow> printed list" where
  "message_lines p = [Received (word_of_nat (length p)) (takeWhile (\<lambda>b. b \<noteq> 0) p), Event_line ''[A]'' ''WINDOW_OPEN'']"

lemma loop_send_run:
  assumes "set_up s" "paired (ctx_a s) (ctx_b s)" "p \<noteq> []" "length p \<le> 64"
  shows "\<exists>s'. loop_send p s = Some s' \<and> set_up s' \<and> paired (ctx_a s') (ctx_b s') \<and> console s' = console s @ message_lines p"
proof -
  let ?a = "ctx_a s" and ?b = "ctx_b s" and ?n = "word_of_nat (length p) :: u32"
  have ra: "at_rest ?a" and rb: "at_rest ?b" using assms(2) by (simp_all add: paired_def)
  have seq: "unat (vs ?a) < 8" "unat (vr ?a) < 8" "unat (va ?a) < 8"
    using coreD(2) [OF at_restD(1) [OF ra]] by (simp_all add: seq_ok_def)
  have ev: "has_on_event (plat ?a)" "has_on_data (plat ?b)"
    and wires: "wire_idle (wire_ab s)" "wire_idle (wire_ba s)"
    using assms(1) by (simp_all add: set_up_def plat_a_def plat_b_def)
  have n: "unat ?n = length p" "unat (word_of_nat (length p) :: u16) = length p"
    using assms(4) by (simp_all add: unat_of_nat take_bit_nat_eq_self)
  obtain w where w: "tx_window ?a = Some w" "slot_capacity w = 64" "slot_count w = 1"
    using assms(1) by (auto simp: set_up_def)
  have fits: "tx_fits ?a ?n"
    using assms(1,4) n w by (simp add: set_up_def tx_fits_def too_long_def cfg_a_def word_less_nat_alt word_le_nat_alt)
  obtain a1 where a1: "atc_hdlc_transmit_i ?a (Some p) ?n = Some (a1, ATC_HDLC_OK)" "at_rest a1"
     "current_state a1 = ATC_HDLC_STATE_CONNECTED" "\<not> CTX_FLAG a1 HDLC_F_REMOTE_BUSY"
     "vs a1 = mod8_succ (vs ?a)" "va a1 = va ?a" "vr a1 = vr ?a" "drv a1 = drv ?a" "my_address a1 = my_address ?a"
     "peer_address a1 = peer_address ?a" "rx_capacity a1 = rx_capacity ?a" "config a1 = config ?a"
     "map_option slot_capacity (tx_window a1) = map_option slot_capacity (tx_window ?a)" "plat a1 = plat ?a"
     "map_option slot_count (tx_window a1) = map_option slot_count (tx_window ?a)"
     "line_octets (new_calls ?a a1) = frame_octets (drv ?b) (my_address ?b) (I_CTRL (vs ?a) (vr ?a) 0) p"
     "sends (new_calls ?a a1) = frame_calls (drv ?b) (my_address ?b) (I_CTRL (vs ?a) (vr ?a) 0) p"
     "events_of (new_calls ?a a1) = []"
    using send_leg [OF ra, of p] assms(2,4) fits by (auto simp: paired_def)
  obtain b1 ys where b1: "hear ?b (new_calls ?a a1) = Some b1" "at_rest b1" "current_state b1 = ATC_HDLC_STATE_CONNECTED"
     "\<not> CTX_FLAG b1 HDLC_F_LOCAL_BUSY" "vr b1 = mod8_succ (vr ?b)" "vs b1 = vs ?b" "va b1 = va ?b"
     "drv b1 = drv ?b" "plat b1 = plat ?b" "my_address b1 = my_address ?b" "peer_address b1 = peer_address ?b"
     "rx_capacity b1 = rx_capacity ?b"
     "trace b1 = trace ?b @ ys" "delivered ys = [(Some p, word_of_nat (length p))]" "line_octets ys = []" "events_of ys = []"
    using iframe_leg [OF rb, of "vr ?a" "my_address ?b" p "new_calls ?a a1"] assms a1(16) ev(2)
    by (auto simp: paired_def set_up_def our_address_def)
  have n2: "new_calls ?b b1 = ys" using b1(13) by (simp add: new_calls_def)
  obtain b2 zs where b2: "atc_hdlc_t2_expired b1 = Some b2" "at_rest b2" "current_state b2 = current_state b1"
     "\<not> CTX_FLAG b2 HDLC_F_LOCAL_BUSY" "vr b2 = vr b1" "vs b2 = vs b1" "va b2 = va b1"
     "drv b2 = drv b1" "plat b2 = plat b1" "my_address b2 = my_address b1" "peer_address b2 = peer_address b1"
     "rx_capacity b2 = rx_capacity b1" "trace b2 = trace b1 @ zs" "delivered zs = []"
     "line_octets zs = frame_octets (drv a1) (my_address a1) (S_CTRL S_RR (vr b1) 0) []"
     "sends zs = frame_calls (drv a1) (my_address a1) (S_CTRL S_RR (vr b1) 0) []" "events_of zs = []"
    using t2_leg [OF b1(2,4)] a1(8,9) b1(8,11) assms(2) by (auto simp: paired_def)
  have n3: "new_calls b1 b2 = zs" using b2(13) by (simp add: new_calls_def)
  have nr: "vr b1 = vs a1" "unat (vr b1) < 8" "dist8 (vs a1) (va a1) = 1" "vr b1 \<noteq> va a1"
    using b1(5) a1(5,6) assms(2) mod8_succ_less [of "vr ?b"] mod8_succ_dist [OF seq(1)] mod8_succ_dist [OF seq(3)]
    by (auto simp: paired_def)
  obtain w1 where w1: "tx_window a1 = Some w1" "slot_count w1 = 1" using a1(15) w by auto
  have full: "\<not> tx_open a1" using w1 nr(3) by (simp add: tx_open_def out_count_def)
  obtain a2 us where a2: "hear a1 zs = Some a2" "at_rest a2" "current_state a2 = ATC_HDLC_STATE_CONNECTED"
     "\<not> CTX_FLAG a2 HDLC_F_REMOTE_BUSY" "vr a2 = vr a1" "vs a2 = vs a1" "va a2 = vr b1"
     "drv a2 = drv a1" "my_address a2 = my_address a1" "peer_address a2 = peer_address a1" "config a2 = config a1"
     "rx_capacity a2 = rx_capacity a1" "tx_window a2 = tx_window a1" "plat a2 = plat a1"
     "trace a2 = trace a1 @ us" "line_octets us = []" "events_of us = [ATC_HDLC_EVENT_WINDOW_OPEN]"
    using ack_leg [OF a1(2,3,4) nr(2), of "my_address a1" zs] nr b2(15) full ev(1) a1(11,14) assms(1)
    by (auto simp: our_address_def set_up_def)
  have n4: "new_calls a1 a2 = us" using a2(15) by (simp add: new_calls_def)
  let ?s1 = "s\<lparr>ctx_a := a1, wire_ab := on_wire (new_calls ?a a1) (wire_ab s)\<rparr>"
  have c1: "call_a (Transmit_i (Some p) ?n) s = Some ?s1"
    using call_a_run [of s "Transmit_i (Some p) ?n" a1 "Result ATC_HDLC_OK"] a1(1,18) by simp
  have h1: "wire_holds (on_wire (new_calls ?a a1) (wire_ab s)) (line_octets (new_calls ?a a1))"
    using wire_takes_frame [OF wires(1) assms(4) a1(17)] a1(16) by simp
  obtain u where u: "wire_idle u" "deliver_ab ?s1 = Some (?s1\<lparr>ctx_b := b1, wire_ab := u,
      console := console s @ [Received (word_of_nat (length p)) (takeWhile (\<lambda>b. b \<noteq> 0) p)]\<rparr>)"
    using deliver_ab_run [of ?s1 "new_calls ?a a1" b1] h1 a1(16) frame_short [OF assms(4)] b1(1,14,15,16) n2 n
      silent_wire [of ys "wire_ba s"]
    by (auto simp: lines_b_data on_data_b_def)
  let ?s2 = "?s1\<lparr>ctx_b := b1, wire_ab := u, console := console s @ [Received (word_of_nat (length p)) (takeWhile (\<lambda>b. b \<noteq> 0) p)]\<rparr>"
  let ?s3 = "?s2\<lparr>ctx_b := b2, wire_ba := on_wire zs (wire_ba s)\<rparr>"
  have c2: "call_b T2_expired ?s2 = Some ?s3"
    using call_b_run [of ?s2 T2_expired b2 Void] b2(1,14,17) n3 by (simp add: lines_b_events)
  have h2: "wire_holds (on_wire zs (wire_ba s)) (line_octets zs)"
    using wire_takes_frame [OF wires(2) _ b2(16)] b2(15) by simp
  obtain v where v: "wire_idle v" "deliver_ba ?s3 = Some (?s3\<lparr>ctx_a := a2, wire_ba := v,
      console := console ?s3 @ [Event_line ''[A]'' ''WINDOW_OPEN'']\<rparr>)"
    using deliver_ba_run [of ?s3 zs a2] h2 b2(15) frame_short [of "[]"] a2(1,16,17) n4 silent_wire [of us u]
    by (auto simp: event_str_def)
  let ?s4 = "?s3\<lparr>ctx_a := a2, wire_ba := v, console := console ?s3 @ [Event_line ''[A]'' ''WINDOW_OPEN'']\<rparr>"
  have "loop_send p s = Some ?s4" using c1 u(2) c2 v(2) by (simp add: loop_send_def)
  moreover have "set_up ?s4" using assms(1) u(1) v(1) a1 a2 b1 b2 by (simp add: set_up_def)
  moreover have "paired a2 b2" using assms(2) a1 a2 b1 b2 nr by (simp add: paired_def)
  ultimately show ?thesis by (simp add: message_lines_def)
qed

lemma loop_sends_run:
  "set_up s \<Longrightarrow> paired (ctx_a s) (ctx_b s) \<Longrightarrow> list_all (\<lambda>p. p \<noteq> [] \<and> length p \<le> 64) ps \<Longrightarrow>
   \<exists>s'. loop_sends ps s = Some s' \<and> set_up s' \<and> paired (ctx_a s') (ctx_b s')
     \<and> console s' = console s @ concat (map message_lines ps)"
proof (induction ps arbitrary: s)
  case (Cons p ps)
  then obtain s1 where "loop_send p s = Some s1" "set_up s1" "paired (ctx_a s1) (ctx_b s1)"
      "console s1 = console s @ message_lines p"
    using loop_send_run [of s p] by auto
  with Cons.IH [of s1] Cons.prems(3) show ?case by auto
qed simp

lemma loop_disconnect_run:
  assumes "set_up s" "paired (ctx_a s) (ctx_b s)"
  shows "\<exists>s'. loop_disconnect s = Some s' \<and> current_state (ctx_a s') = ATC_HDLC_STATE_DISCONNECTED
     \<and> current_state (ctx_b s') = ATC_HDLC_STATE_DISCONNECTED \<and> wire_idle (wire_ab s') \<and> wire_idle (wire_ba s')
     \<and> console s' = console s @ [Event_line ''[A]'' ''DISCONNECT_REQUEST'', Event_line ''[B]'' ''PEER_DISCONNECT'',
          Event_line ''[A]'' ''DISCONNECT_COMPLETE'']"
proof -
  let ?a = "ctx_a s" and ?b = "ctx_b s"
  have my: "my_address ?b = 0x02" and ev: "has_on_event (plat ?a)" "has_on_event (plat ?b)"
    and wires: "wire_idle (wire_ab s)" "wire_idle (wire_ba s)"
    using assms(1) by (simp_all add: set_up_def plat_a_def plat_b_def)
  have p: "at_rest ?a" "at_rest ?b" "current_state ?a = ATC_HDLC_STATE_CONNECTED" "current_state ?b = ATC_HDLC_STATE_CONNECTED"
      "drv ?a = drv ?b" "peer_address ?a = 0x02" "4 \<le> rx_capacity ?a" "4 \<le> rx_capacity ?b"
    using assms(2) my by (simp_all add: paired_def)
  obtain a1 xs where a1: "atc_hdlc_disconnect ?a = Some (a1, ATC_HDLC_OK)" "at_rest a1"
     "peer_address a1 = 0x02" "current_state a1 = ATC_HDLC_STATE_DISCONNECTING" "drv a1 = drv ?a"
     "plat a1 = plat ?a" "rx_capacity a1 = rx_capacity ?a" "trace a1 = trace ?a @ xs"
     "line_octets xs = frame_octets (drv ?b) 0x02 (U_CTRL U_DISC 1) []"
     "events_of xs = [ATC_HDLC_EVENT_DISC_REQ]" "sends xs = frame_calls (drv ?b) 0x02 (U_CTRL U_DISC 1) []"
    using disc_leg [OF p(1,3)] p(5,6) ev(1) by auto
  have n1: "new_calls ?a a1 = xs" using a1(8) by (simp add: new_calls_def)
  obtain b1 ys where b1: "hear ?b xs = Some b1" "current_state b1 = ATC_HDLC_STATE_DISCONNECTED"
     "trace b1 = trace ?b @ ys" "line_octets ys = frame_octets (drv a1) 0x02 0x73 []" "delivered ys = []"
     "events_of ys = [ATC_HDLC_EVENT_PEER_DISC]" "sends ys = frame_calls (drv a1) 0x02 0x73 []"
    using peer_disc_leg [OF p(2,8) _ p(4) a1(9)] my p(5) a1(5) ev(2) by (auto simp: our_address_def)
  have n2: "new_calls ?b b1 = ys" using b1(3) by (simp add: new_calls_def)
  obtain a2 zs where a2: "hear a1 ys = Some a2" "current_state a2 = ATC_HDLC_STATE_DISCONNECTED"
     "trace a2 = trace a1 @ zs" "line_octets zs = []" "events_of zs = [ATC_HDLC_EVENT_DISC_DONE]"
    using disc_done_leg [OF a1(2) _ _ a1(4) b1(4)] a1(3,6,7) p(7) ev(1) by (auto simp: our_address_def)
  have n3: "new_calls a1 a2 = zs" using a2(3) by (simp add: new_calls_def)
  let ?s1 = "s\<lparr>ctx_a := a1, wire_ab := on_wire xs (wire_ab s), console := console s @ [Event_line ''[A]'' ''DISCONNECT_REQUEST'']\<rparr>"
  have c1: "call_a Disconnect s = Some ?s1"
    using call_a_run [of s Disconnect a1 "Result ATC_HDLC_OK"] a1(1,10) n1 by (simp add: event_str_def)
  have w1: "wire_holds (on_wire xs (wire_ab s)) (line_octets xs)"
    using wire_takes_frame [OF wires(1) _ a1(11)] a1(9) by simp
  obtain w where w: "wire_idle w" "deliver_ab ?s1 = Some (?s1\<lparr>ctx_b := b1, wire_ab := w, wire_ba := on_wire ys (wire_ba s),
      console := console ?s1 @ [Event_line ''[B]'' ''PEER_DISCONNECT'']\<rparr>)"
    using deliver_ab_run [of ?s1 xs b1] w1 a1(9) frame_short [of "[]"] b1(1,5,6) n2
    by (auto simp: lines_b_events event_str_def)
  let ?s2 = "?s1\<lparr>ctx_b := b1, wire_ab := w, wire_ba := on_wire ys (wire_ba s),
      console := console ?s1 @ [Event_line ''[B]'' ''PEER_DISCONNECT'']\<rparr>"
  have w2: "wire_holds (on_wire ys (wire_ba s)) (line_octets ys)"
    using wire_takes_frame [OF wires(2) _ b1(7)] b1(4) by simp
  obtain v where v: "wire_idle v" "deliver_ba ?s2 = Some (?s2\<lparr>ctx_a := a2, wire_ba := v,
      console := console ?s2 @ [Event_line ''[A]'' ''DISCONNECT_COMPLETE'']\<rparr>)"
    using deliver_ba_run [of ?s2 ys a2] w2 b1(4) frame_short [of "[]"] a2(1,4,5) n3 silent_wire [of zs w]
    by (auto simp: event_str_def)
  show ?thesis using c1 w v a2(2) b1(2) by (simp add: loop_disconnect_def)
qed

lemma loop_start_ready: "set_up loop_start" "callable (ctx_a loop_start) (ctx_b loop_start)" "console loop_start = []"
proof -
  let ?a = "fst (atc_hdlc_init static_ctx params_a)" and ?b = "fst (atc_hdlc_init static_ctx params_b)"
  have i: "atc_hdlc_init static_ctx params_a = (?a, ATC_HDLC_OK)" "atc_hdlc_init static_ctx params_b = (?b, ATC_HDLC_OK)"
    by (simp_all add: prod_eq_iff atc_hdlc_init_def params_a_def params_b_def cfg_a_def cfg_b_def plat_a_def plat_b_def
        rx_buf_128_def tx_win_a_def is_null_def txwin_error_def Let_def hdlc_len_defs)
  have "params_ok params_a" "params_ok params_b"
    by (simp_all add: params_ok_def params_a_def params_b_def rx_buf_128_def tx_win_a_def)
  then have r: "reachable ?a" "reachable (?b\<lparr>peer_address := 0x01\<rparr>)"
    using i by (auto intro: reach_init reach_peer)
  have f: "current_state ?a = ATC_HDLC_STATE_DISCONNECTED" "plat ?a = plat_a" "rx_capacity ?a = 128" "config ?a = Some cfg_a"
    "tx_window ?a = Some tx_win_a" "drv ?a = atc_hdlc_crc_ops_default" "my_address ?a = 0x01" "idle_rx ?a"
    by (simp_all add: atc_hdlc_init_def params_a_def cfg_a_def plat_a_def rx_buf_128_def tx_win_a_def is_null_def
        txwin_error_def Let_def hdlc_len_defs zero_ctx_def plat_def drv_def rx_capacity_def idle_rx_def view_def)
  have g: "current_state ?b = ATC_HDLC_STATE_DISCONNECTED" "plat (?b\<lparr>peer_address := 0x01\<rparr>) = plat_b"
    "rx_capacity (?b\<lparr>peer_address := 0x01\<rparr>) = 128" "drv (?b\<lparr>peer_address := 0x01\<rparr>) = atc_hdlc_crc_ops_default"
    "my_address ?b = 0x02" "idle_rx (?b\<lparr>peer_address := 0x01\<rparr>)"
    by (simp_all add: atc_hdlc_init_def params_b_def cfg_b_def plat_b_def rx_buf_128_def is_null_def
        txwin_error_def Let_def hdlc_len_defs zero_ctx_def plat_def drv_def rx_capacity_def idle_rx_def view_def)
  show "set_up loop_start"
    using f g by (simp add: set_up_def loop_start_def tx_win_a_def wire_idle_def wire0_def)
  show "callable (ctx_a loop_start) (ctx_b loop_start)"
    using f g r by (simp add: callable_def loop_start_def at_rest_def)
qed (simp add: loop_start_def)

lemma put_line_same [simp]:
  "ctx_a (put_line l s) = ctx_a s" "ctx_b (put_line l s) = ctx_b s" "set_up (put_line l s) = set_up s"
  "console (put_line l s) = console s @ [Puts l]"
  by (simp_all add: put_line_def set_up_def)

text \<open>C33 The loopback program, for any list of messages of 1 to 64 octets: it runs to its end without
  undefined behaviour, with both stations disconnected and both wires empty, and prints exactly the
  events of the handshake, then each message, received whole and in order (its octets up to a zero)
  and followed by the window of the sender opening, then the events of the disconnection. \<open>main\<close> sends
  two messages.\<close>

theorem loopback_prints:
  assumes "list_all (\<lambda>p. p \<noteq> [] \<and> length p \<le> 64) ps"
  shows "\<exists>s. loop_program ps = Some s \<and> current_state (ctx_a s) = ATC_HDLC_STATE_DISCONNECTED
     \<and> current_state (ctx_b s) = ATC_HDLC_STATE_DISCONNECTED \<and> \<not> wire_ready (wire_ab s) \<and> \<not> wire_ready (wire_ba s)
     \<and> console s = [Puts ''--- connect ---'',
          Event_line ''[A]'' ''LINK_SETUP_REQUEST'', Event_line ''[B]'' ''INCOMING_CONNECT'',
          Event_line ''[A]'' ''CONNECT_ACCEPTED'', Puts (CHR 0x0A # ''--- data ---'')]
       @ concat (map (\<lambda>p. [Received (word_of_nat (length p)) (takeWhile (\<lambda>b. b \<noteq> 0) p), Event_line ''[A]'' ''WINDOW_OPEN'']) ps)
       @ [Puts (CHR 0x0A # ''--- disconnect ---''),
          Event_line ''[A]'' ''DISCONNECT_REQUEST'', Event_line ''[B]'' ''PEER_DISCONNECT'',
          Event_line ''[A]'' ''DISCONNECT_COMPLETE'']"
proof -
  obtain s1 where s1: "loop_connect (put_line ''--- connect ---'' loop_start) = Some s1" "set_up s1"
      "paired (ctx_a s1) (ctx_b s1)" "console s1 = [Puts ''--- connect ---'',
        Event_line ''[A]'' ''LINK_SETUP_REQUEST'', Event_line ''[B]'' ''INCOMING_CONNECT'', Event_line ''[A]'' ''CONNECT_ACCEPTED'']"
    using loop_connect_run [of "put_line ''--- connect ---'' loop_start"] loop_start_ready by auto
  obtain s2 where s2: "loop_sends ps (put_line (CHR 0x0A # ''--- data ---'') s1) = Some s2" "set_up s2"
      "paired (ctx_a s2) (ctx_b s2)"
      "console s2 = console s1 @ [Puts (CHR 0x0A # ''--- data ---'')] @ concat (map message_lines ps)"
    using loop_sends_run [of "put_line (CHR 0x0A # ''--- data ---'') s1" ps] s1(2,3) assms by auto
  obtain s3 where "loop_disconnect (put_line (CHR 0x0A # ''--- disconnect ---'') s2) = Some s3"
      "current_state (ctx_a s3) = ATC_HDLC_STATE_DISCONNECTED" "current_state (ctx_b s3) = ATC_HDLC_STATE_DISCONNECTED"
      "wire_idle (wire_ab s3)" "wire_idle (wire_ba s3)"
      "console s3 = console s2 @ [Puts (CHR 0x0A # ''--- disconnect ---'')] @
        [Event_line ''[A]'' ''DISCONNECT_REQUEST'', Event_line ''[B]'' ''PEER_DISCONNECT'', Event_line ''[A]'' ''DISCONNECT_COMPLETE'']"
    using loop_disconnect_run [of "put_line (CHR 0x0A # ''--- disconnect ---'') s2"] s2(2,3) by auto
  with s1(1,4) s2(1,4) show ?thesis
    by (simp add: loop_program_def wire_idle_def message_lines_def [abs_def])
qed

lemma loopback_prints_witness:
  "\<exists>s. loopback_main = Some s \<and> current_state (ctx_a s) = ATC_HDLC_STATE_DISCONNECTED \<and> console s =
     [Puts ''--- connect ---'',
      Event_line ''[A]'' ''LINK_SETUP_REQUEST'', Event_line ''[B]'' ''INCOMING_CONNECT'',
      Event_line ''[A]'' ''CONNECT_ACCEPTED'',
      Puts (CHR 0x0A # ''--- data ---''),
      Received 6 msg1, Event_line ''[A]'' ''WINDOW_OPEN'',
      Received 6 msg2, Event_line ''[A]'' ''WINDOW_OPEN'',
      Puts (CHR 0x0A # ''--- disconnect ---''),
      Event_line ''[A]'' ''DISCONNECT_REQUEST'', Event_line ''[B]'' ''PEER_DISCONNECT'',
      Event_line ''[A]'' ''DISCONNECT_COMPLETE'']"
proof -
  have "list_all (\<lambda>p. p \<noteq> [] \<and> length p \<le> 64) [msg1, msg2]" by (simp add: msg1_def msg2_def)
  moreover have "takeWhile (\<lambda>b. b \<noteq> 0) msg1 = msg1" "takeWhile (\<lambda>b. b \<noteq> 0) msg2 = msg2" "length msg1 = 6" "length msg2 = 6"
    by (simp_all add: msg1_def msg2_def)
  ultimately show ?thesis
    unfolding loopback_main_def using loopback_prints [of "[msg1, msg2]"] by auto
qed

end
