(* ===== verification/Minimal_Ui.thy ===== *)
theory Minimal_Ui
  imports Hdlc_Pair
begin

text \<open>
  \<open>example/minimal_ui/minimal_ui.c\<close>: a station without window and timers that hears its own
  frames. Its \<open>on_send\<close> callback calls \<open>atc_hdlc_data_in\<close> on the sending context itself, with the
  last octet of a frame, which is the last thing the sender does with the context. So the model
  runs the library call first and the callbacks after it, in order, and admits only the nesting the
  program has: a callback that sends while it is being called makes the result \<open>None\<close>, as does a
  call of the library that goes on after the flush. The theorem shows that neither happens.
\<close>

section \<open>The bus\<close>

record ui_t =
  ui_ctx :: atc_hdlc_ctx_t
  loopback_buf :: "u8 list"
  loopback_len :: nat
  received :: "(u16 \<times> u8 list) list"

text \<open>\<open>on_data\<close> prints the length and the octets up to a zero.\<close>

definition ui_on_data :: "octets \<Rightarrow> u16 \<Rightarrow> u16 \<times> u8 list" where
  "ui_on_data data len = (len, case data of None \<Rightarrow> []
     | Some xs \<Rightarrow> takeWhile (\<lambda>b. b \<noteq> 0) (take (unat len) xs))"

text \<open>A callback made from within \<open>atc_hdlc_data_in\<close>; the station has no other callbacks.\<close>

fun ui_heard :: "callback \<Rightarrow> ui_t \<Rightarrow> ui_t option" where
  "ui_heard (On_data data len) s = Some (s\<lparr>received := received s @ [ui_on_data data len]\<rparr>)"
| "ui_heard _ s = None"

fun ui_heards :: "callback list \<Rightarrow> ui_t \<Rightarrow> ui_t option" where
  "ui_heards [] s = Some s"
| "ui_heards (x # xs) s = do { s \<leftarrow> ui_heard x s; ui_heards xs s }"

definition ui_send_cb :: "u8 \<Rightarrow> bool \<Rightarrow> ui_t \<Rightarrow> ui_t option" where
  "ui_send_cb byte flush s = do {
     let s = (if loopback_len s < 64
       then s\<lparr>loopback_buf := (loopback_buf s)[loopback_len s := byte], loopback_len := loopback_len s + 1\<rparr> else s);
     if flush then do {
       c \<leftarrow> atc_hdlc_data_in (ui_ctx s) (Some (loopback_buf s)) (word_of_nat (loopback_len s));
       s' \<leftarrow> ui_heards (new_calls (ui_ctx s) c) (s\<lparr>ui_ctx := c\<rparr>);
       Some (s'\<lparr>loopback_len := 0\<rparr>) }
     else Some s }"

text \<open>The callbacks of a library call: sends, the flush at most at the end, and no other.\<close>

fun ui_callbacks :: "callback list \<Rightarrow> ui_t \<Rightarrow> ui_t option" where
  "ui_callbacks [] s = Some s"
| "ui_callbacks (On_send b f # xs) s = (if f \<and> xs \<noteq> [] then None
     else do { s \<leftarrow> ui_send_cb b f s; ui_callbacks xs s })"
| "ui_callbacks _ s = None"

definition ui_call :: "hdlc_call \<Rightarrow> ui_t \<Rightarrow> ui_t option" where
  "ui_call call s = do {
     (c, r) \<leftarrow> hdlc_do (ui_ctx s) call;
     ui_callbacks (new_calls (ui_ctx s) c) (s\<lparr>ui_ctx := c\<rparr>) }"

section \<open>Static storage\<close>

definition ui_cfg :: atc_hdlc_config_t where
  "ui_cfg = \<lparr>mode = ATC_HDLC_MODE_ABM, cfg_address = 0x01, max_info_size = 16, max_retries = 0,
     t1_ms = 0, t2_ms = 0\<rparr>"

definition ui_platform :: atc_hdlc_plat_ops_t where
  "ui_platform = \<lparr>has_on_send = True, has_on_data = True, has_on_event = False, has_t1_start = False,
     has_t1_stop = False, has_t2_start = False, has_t2_stop = False\<rparr>"

definition ui_rx_buf :: atc_hdlc_rxbuf_t where
  "ui_rx_buf = \<lparr>buffer = Some (replicate 32 0), capacity = 32\<rparr>"

definition ui_params :: atc_hdlc_params_t where
  "ui_params = \<lparr>p_config = Some ui_cfg, p_platform = Some ui_platform, p_tx_window = None,
     p_rx_buf = Some ui_rx_buf, p_crc = None\<rparr>"

definition ui_start :: ui_t where
  "ui_start = \<lparr>ui_ctx = fst (atc_hdlc_init static_ctx ui_params), loopback_buf = replicate 64 0,
     loopback_len = 0, received = []\<rparr>"

section \<open>The program\<close>

text \<open>\<open>"hello world"\<close>, \<open>"stream"\<close> and \<open>"ed"\<close>.\<close>

definition hello_world :: "u8 list" where
  "hello_world = [0x68, 0x65, 0x6C, 0x6C, 0x6F, 0x20, 0x77, 0x6F, 0x72, 0x6C, 0x64]"
definition stream_text :: "u8 list" where "stream_text = [0x73, 0x74, 0x72, 0x65, 0x61, 0x6D]"
definition ed_text :: "u8 list" where "ed_text = [0x65, 0x64]"

text \<open>
  A broadcast is sent at once or streamed in pieces. The program makes a list of broadcasts, and
  \<open>main\<close> two of them.
\<close>

datatype ui_send = Whole "u8 list" | Streamed "u8 list list"

fun ui_pieces :: "u8 list list \<Rightarrow> ui_t \<Rightarrow> ui_t option" where
  "ui_pieces [] s = Some s"
| "ui_pieces (p # ps) s = do {
     s \<leftarrow> ui_call (Transmit_ui_data (Some p) (word_of_nat (length p))) s; ui_pieces ps s }"

fun ui_broadcast :: "ui_send \<Rightarrow> ui_t \<Rightarrow> ui_t option" where
  "ui_broadcast (Whole p) s =
     ui_call (Transmit_ui ATC_HDLC_BROADCAST_ADDRESS (Some p) (word_of_nat (length p))) s"
| "ui_broadcast (Streamed ps) s = do {
     s \<leftarrow> ui_call (Transmit_ui_start ATC_HDLC_BROADCAST_ADDRESS) s;
     s \<leftarrow> ui_pieces ps s;
     ui_call Transmit_ui_end s }"

fun ui_program :: "ui_send list \<Rightarrow> ui_t \<Rightarrow> ui_t option" where
  "ui_program [] s = Some s"
| "ui_program (x # xs) s = do { s \<leftarrow> ui_broadcast x s; ui_program xs s }"

definition minimal_ui_main :: "ui_t option" where
  "minimal_ui_main = ui_program [Whole hello_world, Streamed [stream_text, ed_text]] ui_start"

section \<open>One frame on the bus\<close>

text \<open>The station between calls, and what sending leaves of it.\<close>

definition ui_station :: "atc_hdlc_ctx_t \<Rightarrow> bool" where
  "ui_station c \<longleftrightarrow> at_rest c \<and> current_state c = ATC_HDLC_STATE_DISCONNECTED \<and> plat c = ui_platform
     \<and> rx_capacity c = 32 \<and> config c = Some ui_cfg"

definition ui_ok :: "ui_t \<Rightarrow> bool" where
  "ui_ok s \<longleftrightarrow> ui_station (ui_ctx s) \<and> length (loopback_buf s) = 64 \<and> loopback_len s = 0"

lemma ui_stationD: "ui_station c \<Longrightarrow> ready c" "ui_station c \<Longrightarrow> settled c" "ui_station c \<Longrightarrow> at_rest c"
  using at_restD [of c] by (simp_all add: ui_station_def)

text \<open>A call that only sends.\<close>

lemma ui_sends:
  assumes "ui_station c" "legal c call" "hdlc_do c call = Some (say (c\<lparr>tx_crc := x\<rparr>) xs, r)"
  shows "ui_station (say (c\<lparr>tx_crc := x\<rparr>) xs)"
  using at_rest_call [OF ui_stationD(3) [OF assms(1)] assms(2,3)] assms(1) by (simp add: ui_station_def)

text \<open>Octets without the flush mark go into the buffer.\<close>

lemma ui_assembles:
  "loopback_len s + length xs \<le> 64 \<Longrightarrow> length (loopback_buf s) = 64 \<Longrightarrow>
   \<exists>b. ui_callbacks (map (\<lambda>b. On_send b False) xs @ ys) s
       = ui_callbacks ys (s\<lparr>loopback_buf := b, loopback_len := loopback_len s + length xs\<rparr>)
     \<and> length b = 64 \<and> take (loopback_len s + length xs) b = take (loopback_len s) (loopback_buf s) @ xs"
proof (induction xs arbitrary: s)
  case Nil
  then show ?case by (intro exI [of _ "loopback_buf s"]) simp
next
  case (Cons x xs)
  let ?s = "s\<lparr>loopback_buf := (loopback_buf s)[loopback_len s := x], loopback_len := loopback_len s + 1\<rparr>"
  have t: "take (loopback_len s + 1) ((loopback_buf s)[loopback_len s := x]) = take (loopback_len s) (loopback_buf s) @ [x]"
    using Cons.prems by (simp add: take_Suc_conv_app_nth)
  obtain b where b: "ui_callbacks (map (\<lambda>b. On_send b False) xs @ ys) ?s
       = ui_callbacks ys (?s\<lparr>loopback_buf := b, loopback_len := loopback_len ?s + length xs\<rparr>)"
      "length b = 64" "take (loopback_len ?s + length xs) b = take (loopback_len ?s) (loopback_buf ?s) @ xs"
    using Cons.IH [of ?s] Cons.prems by auto
  have "ui_callbacks (map (\<lambda>b. On_send b False) (x # xs) @ ys) s = ui_callbacks (map (\<lambda>b. On_send b False) xs @ ys) ?s"
    using Cons.prems by (simp add: ui_send_cb_def Let_def)
  with b t show ?case by (intro exI [of _ b]) (simp add: add.assoc)
qed

text \<open>The whole frame comes back to the station and is delivered.\<close>

lemma data_in_take:
  "unat n \<le> length xs \<Longrightarrow> atc_hdlc_data_in c (Some xs) n = atc_hdlc_data_in c (Some (take (unat n) xs)) n"
  by (simp add: data_in_run)

lemma ui_hears:
  assumes "ui_station c" "p \<noteq> []" "length p \<le> 28" "take n xs = frame_octets (drv c) 0xFF 0x03 p" "n \<le> length xs"
  shows "\<exists>d. atc_hdlc_data_in c (Some xs) (word_of_nat n) = Some d \<and> ui_station d
     \<and> new_calls c d = [On_data (Some p) (word_of_nat (length p))]"
proof -
  have c: "at_rest c" "rx_capacity c = 32" "current_state c = ATC_HDLC_STATE_DISCONNECTED" "plat c = ui_platform"
    using assms(1) by (simp_all add: ui_station_def)
  have u: "is_uframe 0x03" "(0x03 :: u8) AND NOT PF_BIT = U_UI" "U_UI \<noteq> U_SABM" "U_UI \<noteq> U_DISC"
    by (simp_all add: is_uframe_def U_UI_def PF_BIT_def U_SABM_def U_DISC_def)
  have n: "unat (word_of_nat (length p) :: u16) = length p"
    using assms(3) by (simp add: unat_of_nat take_bit_nat_eq_self)
  have len: "n = length (frame_octets (drv c) 0xFF 0x03 p)"
    using assms(4,5) by (metis length_take min.absorb2)
  have n32: "unat (word_of_nat n :: u32) = n"
    using frame_octets_size [of p "drv c" "0xFF" "0x03"] assms(3) unfolding len by simp
  obtain c0 d e where e: "rx_frame c c0" "core c0" "d = say c0 [On_data (Some p) (word_of_nat (length p))]"
      "hear c (frame_calls (drv c) 0xFF 0x03 p) = Some e" "rx_frame d e" "at_rest e" "rx_capacity e = rx_capacity c"
  proof -
    have "\<exists>c0 d e. rx_frame c c0 \<and> core c0 \<and> d = say c0 [On_data (Some p) (word_of_nat (length p))]
      \<and> hear c (frame_calls (drv c) 0xFF 0x03 p) = Some e \<and> rx_frame d e \<and> at_rest e \<and> same_env c0 d
      \<and> rx_capacity e = rx_capacity c"
    proof (rule hear_quiet [OF c(1)])
      fix c0 assume c0: "core c0" "rx_frame c c0"
      note f = rx_frame_fields [OF c0(2)]
      have "plat c0 = ui_platform" using c(4) by (simp only: plat_def f)
      then have "data_calls c0 (Some p) (word_of_nat (length p)) = [On_data (Some p) (word_of_nat (length p))]"
        using n by (simp add: data_calls_def ui_platform_def)
      then show "\<exists>d. dispatch_frame c0 0xFF 0x03 (info_of p) (word_of_nat (length p)) = Some d \<and> \<not> pending d
          \<and> d = say c0 [On_data (Some p) (word_of_nat (length p))]"
        using u f(5) c(3) c0(1) assms(2) at_restD(2) [OF c(1)] rx_frame_same(4) [OF c0(2)]
        by (simp add: dispatch_frame_def state_disconnected_def Let_def hdlc_run)
    qed (use assms(3) c(2) in \<open>simp_all add: our_address_def ATC_HDLC_BROADCAST_ADDRESS_def\<close>)
    then show ?thesis using that by blast
  qed
  have "atc_hdlc_data_in c (Some xs) (word_of_nat n) = hear c (frame_calls (drv c) 0xFF 0x03 p)"
    using data_in_take [of "word_of_nat n" xs c] n32 assms(4,5) len by (simp add: hear_def)
  moreover have "trace e = trace c @ [On_data (Some p) (word_of_nat (length p))]"
    using rx_frame_fields [OF e(1)] rx_frame_fields [OF e(5)] e(3) by simp
  moreover have "ui_station e"
  proof -
    note f = rx_frame_fields [OF e(1)] and g = rx_frame_fields [OF e(5)]
    have "plat e = plat c" by (simp add: plat_def f g e(3))
    with e(3,6,7) f(5,12) g(5,12) assms(1) show ?thesis by (simp add: ui_station_def)
  qed
  ultimately show ?thesis using e(4) by (intro exI [of _ e]) (simp add: new_calls_def)
qed

text \<open>What the application prints for a broadcast.\<close>

definition ui_printed :: "u8 list \<Rightarrow> u16 \<times> u8 list" where
  "ui_printed p = (word_of_nat (length p), takeWhile (\<lambda>b. b \<noteq> 0) p)"

text \<open>The closing flag hands the buffer to the station.\<close>

lemma ui_flush:
  assumes "ui_station (ui_ctx s)" "p \<noteq> []" "length p \<le> 28" "length (loopback_buf s) = 64" "loopback_len s < 64"
    and "take (loopback_len s) (loopback_buf s) @ [FLAG] = frame_octets (drv (ui_ctx s)) 0xFF 0x03 p"
  shows "\<exists>s'. ui_callbacks [On_send FLAG True] s = Some s' \<and> ui_ok s' \<and> received s' = received s @ [ui_printed p]"
proof -
  let ?b = "(loopback_buf s)[loopback_len s := FLAG]" and ?n = "loopback_len s + 1"
  have "take ?n ?b = frame_octets (drv (ui_ctx s)) 0xFF 0x03 p"
    using assms(4-6) by (simp add: take_Suc_conv_app_nth)
  then obtain d where d: "atc_hdlc_data_in (ui_ctx s) (Some ?b) (word_of_nat ?n) = Some d" "ui_station d"
      "new_calls (ui_ctx s) d = [On_data (Some p) (word_of_nat (length p))]"
    using ui_hears [OF assms(1-3), of ?n ?b] assms(4,5) by auto
  have "unat (word_of_nat (length p) :: u16) = length p"
    using assms(3) by (simp add: unat_of_nat take_bit_nat_eq_self)
  with d assms(4,5) show ?thesis
    by (simp add: ui_send_cb_def Let_def ui_ok_def ui_on_data_def ui_printed_def)
qed

lemma stuff_fits: "length p \<le> 28 \<Longrightarrow> length (stuff (0xFF # 0x03 # p @ fcs_field x)) \<le> 62"
proof -
  assume "length p \<le> 28"
  moreover have "escape 0xFF = [0xFF]" "escape 0x03 = [0x03]" by (simp_all add: escape_def FLAG_def ESC_def)
  moreover have "length (stuff (p @ fcs_field x)) \<le> 2 * (length p + 2)"
    using length_stuff [of "p @ fcs_field x"] by (simp add: fcs_field_def del: stuff_simps)
  ultimately show ?thesis by simp
qed

lemma ui_whole:
  assumes "ui_ok s" "p \<noteq> []" "length p \<le> 16"
  shows "\<exists>s'. ui_broadcast (Whole p) s = Some s' \<and> ui_ok s' \<and> received s' = received s @ [ui_printed p]"
proof -
  let ?c = "ui_ctx s" and ?n = "word_of_nat (length p) :: u32"
  have c: "ui_station ?c" "ready ?c" "length (loopback_buf s) = 64" "loopback_len s = 0"
    using assms(1) ui_stationD by (simp_all add: ui_ok_def)
  have n: "unat ?n = length p" using assms(3) by (simp add: unat_of_nat take_bit_nat_eq_self)
  have u: "U_CTRL U_UI 0 = 0x03" by (simp add: U_CTRL_def U_UI_def PF_BIT_def)
  have "\<not> too_long ?c ?n"
    using c(1) assms(3) n by (simp add: too_long_def ui_station_def ui_cfg_def word_less_nat_alt)
  then have run: "hdlc_do ?c (Transmit_ui ATC_HDLC_BROADCAST_ADDRESS (Some p) ?n) =
      Some (say (?c\<lparr>tx_crc := driver_fcs (drv ?c) (0xFF # 0x03 # p)\<rparr>) (frame_calls (drv ?c) 0xFF 0x03 p), Result ATC_HDLC_OK)"
    using c(2) n u assms(2) by (simp add: atc_hdlc_transmit_ui_def frame_send_run ATC_HDLC_BROADCAST_ADDRESS_def)
  let ?d = "say (?c\<lparr>tx_crc := driver_fcs (drv ?c) (0xFF # 0x03 # p)\<rparr>) (frame_calls (drv ?c) 0xFF 0x03 p)"
  have st: "ui_station ?d"
    by (rule ui_sends [OF c(1) _ run]) (simp add: readable_def n)
  let ?xs = "FLAG # stuff (frame_body (drv ?c) 0xFF 0x03 p)"
  have len: "length ?xs \<le> 63" using stuff_fits [of p] assms(3) by (simp add: frame_body_def)
  obtain b where b: "ui_callbacks (frame_calls (drv ?c) 0xFF 0x03 p) (s\<lparr>ui_ctx := ?d\<rparr>)
       = ui_callbacks [On_send FLAG True] (s\<lparr>ui_ctx := ?d, loopback_buf := b, loopback_len := length ?xs\<rparr>)"
      "length b = 64" "take (length ?xs) b = ?xs"
    using ui_assembles [of "s\<lparr>ui_ctx := ?d\<rparr>" ?xs "[On_send FLAG True]"] c(3,4) len unfolding frame_calls_def by auto
  obtain s' where "ui_callbacks [On_send FLAG True] (s\<lparr>ui_ctx := ?d, loopback_buf := b, loopback_len := length ?xs\<rparr>) = Some s'"
      "ui_ok s'" "received s' = received s @ [ui_printed p]"
    using ui_flush [of "s\<lparr>ui_ctx := ?d, loopback_buf := b, loopback_len := length ?xs\<rparr>" p] st assms(2,3) b(2,3) len
    by (auto simp: frame_octets_def)
  with run b(1) show ?thesis by (simp add: ui_call_def new_calls_def)
qed

text \<open>A stream under way: what it has sent is in the buffer and in the running FCS.\<close>

definition ui_streaming :: "u8 list \<Rightarrow> ui_t \<Rightarrow> bool" where
  "ui_streaming zs s \<longleftrightarrow> ui_station (ui_ctx s) \<and> length (loopback_buf s) = 64
     \<and> loopback_len s = 1 + length (stuff (0xFF # 0x03 # zs))
     \<and> take (loopback_len s) (loopback_buf s) = FLAG # stuff (0xFF # 0x03 # zs)
     \<and> tx_crc (ui_ctx s) = driver_fcs (drv (ui_ctx s)) (0xFF # 0x03 # zs)"

lemma ui_stream_start:
  assumes "ui_ok s"
  shows "\<exists>s'. ui_call (Transmit_ui_start ATC_HDLC_BROADCAST_ADDRESS) s = Some s' \<and> ui_streaming [] s' \<and> received s' = received s"
proof -
  let ?c = "ui_ctx s"
  have c: "ui_station ?c" "ready ?c" "length (loopback_buf s) = 64" "loopback_len s = 0"
    using assms(1) ui_stationD by (simp_all add: ui_ok_def)
  have u: "U_CTRL U_UI 0 = 0x03" by (simp add: U_CTRL_def U_UI_def PF_BIT_def)
  let ?xs = "FLAG # stuff [0xFF, 0x03]"
  let ?d = "say (?c\<lparr>tx_crc := driver_fcs (drv ?c) [0xFF, 0x03]\<rparr>) (map (\<lambda>b. On_send b False) ?xs)"
  have run: "hdlc_do ?c (Transmit_ui_start ATC_HDLC_BROADCAST_ADDRESS) = Some (?d, Void)"
    using c(2) u by (simp add: atc_hdlc_transmit_ui_start_def frame_begin_run ATC_HDLC_BROADCAST_ADDRESS_def)
  have st: "ui_station ?d" by (rule ui_sends [OF c(1) _ run]) simp
  have len: "length ?xs \<le> 64" using length_stuff [of "[0xFF, 0x03]"] by (simp del: stuff_simps)
  obtain b where b: "ui_callbacks (map (\<lambda>b. On_send b False) ?xs) (s\<lparr>ui_ctx := ?d\<rparr>)
       = Some (s\<lparr>ui_ctx := ?d, loopback_buf := b, loopback_len := length ?xs\<rparr>)" "length b = 64" "take (length ?xs) b = ?xs"
    using ui_assembles [of "s\<lparr>ui_ctx := ?d\<rparr>" ?xs "[]"] c(3,4) len by auto
  with run st show ?thesis by (simp add: ui_call_def new_calls_def ui_streaming_def)
qed

lemma ui_stream_piece:
  assumes "ui_streaming zs s" "length zs + length p \<le> 28"
  shows "\<exists>s'. ui_call (Transmit_ui_data (Some p) (word_of_nat (length p))) s = Some s' \<and> ui_streaming (zs @ p) s'
     \<and> received s' = received s"
proof -
  let ?c = "ui_ctx s" and ?n = "word_of_nat (length p) :: u32"
  have c: "ui_station ?c" "ready ?c" "length (loopback_buf s) = 64"
      "loopback_len s = 1 + length (stuff (0xFF # 0x03 # zs))"
      "take (loopback_len s) (loopback_buf s) = FLAG # stuff (0xFF # 0x03 # zs)"
      "tx_crc ?c = driver_fcs (drv ?c) (0xFF # 0x03 # zs)"
    using assms(1) ui_stationD(1) unfolding ui_streaming_def by blast+
  have n: "unat ?n = length p" using assms(2) by (simp add: unat_of_nat take_bit_nat_eq_self)
  let ?d = "say (?c\<lparr>tx_crc := driver_fcs (drv ?c) (0xFF # 0x03 # zs @ p)\<rparr>) (map (\<lambda>b. On_send b False) (stuff p))"
  have run: "hdlc_do ?c (Transmit_ui_data (Some p) ?n) = Some (?d, Void)"
    using c(2,6) n by (simp add: atc_hdlc_transmit_ui_data_def emit_loop_run driver_fcs_def)
  have st: "ui_station ?d" by (rule ui_sends [OF c(1) _ run]) (simp add: readable_def n)
  have len: "loopback_len s + length (stuff p) \<le> 64"
    using stuff_fits [of "zs @ p" 0] c(4) assms(2) by simp
  obtain b where b: "ui_callbacks (map (\<lambda>b. On_send b False) (stuff p)) (s\<lparr>ui_ctx := ?d\<rparr>)
       = Some (s\<lparr>ui_ctx := ?d, loopback_buf := b, loopback_len := loopback_len s + length (stuff p)\<rparr>)" "length b = 64"
      "take (loopback_len s + length (stuff p)) b = FLAG # stuff (0xFF # 0x03 # zs) @ stuff p"
    using ui_assembles [of "s\<lparr>ui_ctx := ?d\<rparr>" "stuff p" "[]"] c(3,5) len by auto
  with run st c(4) show ?thesis by (simp add: ui_call_def new_calls_def ui_streaming_def)
qed

lemma ui_stream_pieces:
  "ui_streaming zs s \<Longrightarrow> length zs + length (concat ps) \<le> 28 \<Longrightarrow>
   \<exists>s'. ui_pieces ps s = Some s' \<and> ui_streaming (zs @ concat ps) s' \<and> received s' = received s"
proof (induction ps arbitrary: zs s)
  case (Cons p ps)
  then obtain s1 where s1: "ui_call (Transmit_ui_data (Some p) (word_of_nat (length p))) s = Some s1"
      "ui_streaming (zs @ p) s1" "received s1 = received s"
    using ui_stream_piece [of zs s p] by auto
  with Cons.IH [of "zs @ p" s1] Cons.prems(2) show ?case by auto
qed simp

lemma ui_stream_end:
  assumes "ui_streaming p s" "p \<noteq> []" "length p \<le> 28"
  shows "\<exists>s'. ui_call Transmit_ui_end s = Some s' \<and> ui_ok s' \<and> received s' = received s @ [ui_printed p]"
proof -
  let ?c = "ui_ctx s"
  have c: "ui_station ?c" "ready ?c" "length (loopback_buf s) = 64"
      "loopback_len s = 1 + length (stuff (0xFF # 0x03 # p))"
      "take (loopback_len s) (loopback_buf s) = FLAG # stuff (0xFF # 0x03 # p)"
      "tx_crc ?c = driver_fcs (drv ?c) (0xFF # 0x03 # p)"
    using assms(1) ui_stationD(1) unfolding ui_streaming_def by blast+
  let ?xs = "stuff (fcs_field (driver_fcs (drv ?c) (0xFF # 0x03 # p)))"
  let ?d = "say (?c\<lparr>tx_crc := tx_crc ?c\<rparr>) (map (\<lambda>b. On_send b False) ?xs @ [On_send FLAG True])"
  have run: "hdlc_do ?c Transmit_ui_end = Some (?d, Void)"
    using c(2,6) by (simp add: atc_hdlc_transmit_ui_end_def frame_end_run)
  have st: "ui_station ?d" by (rule ui_sends [OF c(1) _ run]) simp
  let ?k = "loopback_len s + length ?xs"
  have len: "?k \<le> 63"
    using stuff_fits [OF assms(3), of "driver_fcs (drv ?c) (0xFF # 0x03 # p)"] c(4) by simp
  obtain b where b: "ui_callbacks (map (\<lambda>b. On_send b False) ?xs @ [On_send FLAG True]) (s\<lparr>ui_ctx := ?d\<rparr>)
       = ui_callbacks [On_send FLAG True] (s\<lparr>ui_ctx := ?d, loopback_buf := b, loopback_len := ?k\<rparr>)"
      "length b = 64" "take ?k b = FLAG # stuff (0xFF # 0x03 # p) @ ?xs"
    using ui_assembles [of "s\<lparr>ui_ctx := ?d\<rparr>" ?xs "[On_send FLAG True]"] c(3,5) len by auto
  obtain s' where "ui_callbacks [On_send FLAG True] (s\<lparr>ui_ctx := ?d, loopback_buf := b, loopback_len := ?k\<rparr>) = Some s'"
      "ui_ok s'" "received s' = received s @ [ui_printed p]"
    using ui_flush [of "s\<lparr>ui_ctx := ?d, loopback_buf := b, loopback_len := ?k\<rparr>" p] st assms(2,3) b(2,3) len
    by (auto simp: frame_octets_def frame_body_def)
  with run b(1) show ?thesis by (simp add: ui_call_def new_calls_def)
qed

fun ui_text :: "ui_send \<Rightarrow> u8 list" where
  "ui_text (Whole p) = p"
| "ui_text (Streamed ps) = concat ps"

fun ui_fits :: "ui_send \<Rightarrow> bool" where
  "ui_fits (Whole p) = (p \<noteq> [] \<and> length p \<le> 16)"
| "ui_fits (Streamed ps) = (concat ps \<noteq> [] \<and> length (concat ps) \<le> 28)"

lemma ui_broadcast_heard:
  assumes "ui_ok s" "ui_fits x"
  shows "\<exists>s'. ui_broadcast x s = Some s' \<and> ui_ok s' \<and> received s' = received s @ [ui_printed (ui_text x)]"
proof (cases x)
  case (Whole p)
  with ui_whole [OF assms(1), of p] assms(2) show ?thesis by simp
next
  case (Streamed ps)
  then have ps: "concat ps \<noteq> []" "length (concat ps) \<le> 28" using assms(2) by simp_all
  obtain s1 where s1: "ui_call (Transmit_ui_start ATC_HDLC_BROADCAST_ADDRESS) s = Some s1" "ui_streaming [] s1"
      "received s1 = received s"
    using ui_stream_start [OF assms(1)] by blast
  obtain s2 where s2: "ui_pieces ps s1 = Some s2" "ui_streaming (concat ps) s2" "received s2 = received s"
    using ui_stream_pieces [OF s1(2), of ps] ps(2) s1(3) by auto
  show ?thesis using ui_stream_end [OF s2(2) ps] s1(1) s2(1,3) Streamed by auto
qed

lemma ui_start_ok: "ui_ok ui_start"
proof -
  have i: "atc_hdlc_init static_ctx ui_params = (ui_ctx ui_start, ATC_HDLC_OK)"
    by (simp add: ui_start_def prod_eq_iff atc_hdlc_init_def ui_params_def ui_cfg_def ui_platform_def ui_rx_buf_def
        is_null_def txwin_error_def Let_def hdlc_len_defs)
  moreover have "params_ok ui_params" by (simp add: params_ok_def ui_params_def ui_rx_buf_def)
  ultimately have "reachable (ui_ctx ui_start)" by (intro reach_init)
  then show ?thesis
    by (simp add: ui_ok_def ui_station_def at_rest_def)
      (simp add: ui_start_def atc_hdlc_init_def ui_params_def ui_cfg_def ui_platform_def ui_rx_buf_def is_null_def
        txwin_error_def Let_def hdlc_len_defs zero_ctx_def idle_rx_def view_def rx_capacity_def plat_def)
qed

lemma ui_program_heard:
  "ui_ok s \<Longrightarrow> list_all ui_fits xs \<Longrightarrow>
   \<exists>s'. ui_program xs s = Some s' \<and> ui_ok s' \<and> received s' = received s @ map (\<lambda>x. ui_printed (ui_text x)) xs"
proof (induction xs arbitrary: s)
  case (Cons x xs)
  then obtain s1 where "ui_broadcast x s = Some s1" "ui_ok s1" "received s1 = received s @ [ui_printed (ui_text x)]"
    using ui_broadcast_heard [of s x] by auto
  with Cons.IH [of s1] Cons.prems(2) show ?case by auto
qed simp

text \<open>C34 The minimal program, for any list of broadcasts, each sent at once with 1 to 16 octets or streamed
  in any pieces of 1 to 28 octets in all: the station, which hears its own frames, receives every one
  whole, once and in order (printed up to a zero), and ends without a link and with the assembly buffer
  empty. The limits are \<open>max_info_size\<close> and the station's buffers: 28 octets and the overhead fill the 32
  octets of the receive buffer, and fit the 64 octets of the assembly buffer even if every one is
  escaped. \<open>main\<close> makes two broadcasts.\<close>

theorem minimal_ui_receives:
  assumes "list_all ui_fits xs"
  shows "\<exists>s. ui_program xs ui_start = Some s \<and> current_state (ui_ctx s) = ATC_HDLC_STATE_DISCONNECTED
     \<and> loopback_len s = 0 \<and> received s = map (\<lambda>x. ui_printed (ui_text x)) xs"
proof -
  have "received ui_start = []" by (simp add: ui_start_def)
  with ui_program_heard [OF ui_start_ok assms] show ?thesis by (auto simp: ui_ok_def ui_station_def)
qed

lemma minimal_ui_receives_witness:
  "\<exists>s. minimal_ui_main = Some s \<and> current_state (ui_ctx s) = ATC_HDLC_STATE_DISCONNECTED
     \<and> received s = [(11, hello_world), (8, stream_text @ ed_text)]"
proof -
  let ?xs = "[Whole hello_world, Streamed [stream_text, ed_text]]"
  have "list_all ui_fits ?xs" by (simp add: hello_world_def stream_text_def ed_text_def)
  moreover have "map (\<lambda>x. ui_printed (ui_text x)) ?xs = [(11, hello_world), (8, stream_text @ ed_text)]"
    by (simp add: ui_printed_def hello_world_def stream_text_def ed_text_def)
  ultimately show ?thesis
    unfolding minimal_ui_main_def using minimal_ui_receives [of ?xs] by auto
qed

end
