(* ===== verification/Bare_Metal_Pc.thy ===== *)
theory Bare_Metal_Pc
  imports Hdlc_Protocol
begin

text \<open>
  The template \<open>bare_metal_template.c\<close> as it runs on a PC, where its stubs print: idle iterations of the
  main loop, octets put into the ring at the end, and one expiry of each timer.
\<close>

section \<open>One run\<close>

text \<open>The station after \<open>main\<close> has asked for the link, and its printed line.\<close>

lemma bm_opening_is:
  "bm_opening = say (CTX_SET
     (bm_ctx0\<lparr>peer_address := 0x02, tx_crc := driver_fcs (drv bm_ctx0) [0x02, U_CTRL U_SABM 1]\<rparr>)
     HDLC_F_T1_ACTIVE\<lparr>current_state := ATC_HDLC_STATE_CONNECTING\<rparr>)
     (frame_calls (drv bm_ctx0) 0x02 (U_CTRL U_SABM 1) [] @ t1_start_calls bm_ctx0
        @ event_calls bm_ctx0 ATC_HDLC_EVENT_SETUP_REQ)"
  using bm_ready bm_rx(8) by (simp add: bm_opening_def atc_hdlc_link_setup_def Let_def hdlc_run)

lemma bm_start_run:
  "bm_start = Some \<lparr>bm_ctx = bm_opening, bm_ring = rx_ring0, t1_expired_flag = False, t2_expired_flag = False\<rparr>"
proof -
  have t: "trace bm_ctx0 = []"
    by (simp add: bm_ctx0_def atc_hdlc_init_def bm_storage_defs is_null_def txwin_error_def Let_def
        hdlc_len_defs zero_ctx_def static_ctx_def)
  have "fold bm_callback (map (\<lambda>b. On_send b f) xs) s = s" for xs f s by (induction xs) simp_all
  then have "fold bm_callback (trace bm_opening) \<lparr>bm_ctx = bm_opening, bm_ring = rx_ring0, t1_expired_flag = False,
      t2_expired_flag = False\<rparr> = \<lparr>bm_ctx = bm_opening, bm_ring = rx_ring0, t1_expired_flag = False, t2_expired_flag = False\<rparr>"
    by (simp add: bm_opening_is t frame_calls_def t1_start_calls_def event_calls_def split: option.split)
  then show ?thesis
    by (simp add: bm_start_def bm_run_def bm_opening_run(1) t)
qed

lemma ring0: "ring_ok rx_ring0" "ring_octets rx_ring0 = []"
  by (simp_all add: ring_ok_def rx_ring0_def ring_octets_def)

text \<open>With nothing to do, an iteration of the main loop does nothing.\<close>

definition bm_idle :: "bm_t \<Rightarrow> bool" where
  "bm_idle s \<longleftrightarrow> ring_ok (bm_ring s) \<and> ring_octets (bm_ring s) = [] \<and> \<not> t1_expired_flag s \<and> \<not> t2_expired_flag s
     \<and> current_state (bm_ctx s) \<noteq> ATC_HDLC_STATE_CONNECTED"

lemma idle_iterations: "bm_idle s \<Longrightarrow> bm_steps (replicate k (Loop_iteration [] [] [] [])) s = Some s"
proof (induction k)
  case (Suc k)
  have "rx_drain (Suc 127) [] s = Some s"
    using Suc.prems rx_drain_rounds [of "[]" s s 127] by (simp add: bm_idle_def del: rx_drain.simps)
  then have "bm_iteration [] [] [] [] s = Some s"
    using Suc.prems by (simp add: bm_iteration_def rx_drain_fuel_def uart_count_def bm_idle_def bm_t1_check_def
        bm_t2_check_def bm_transmit_def atc_hdlc_get_state_def del: rx_drain.simps)
  with Suc show ?case by simp
qed simp

text \<open>Octets put into the ring: those that find it full are lost.\<close>

lemma uart_burst:
  "ring_ok (bm_ring s) \<Longrightarrow> length (ring_octets (bm_ring s)) \<le> 127 \<Longrightarrow>
   \<exists>r. bm_interrupts (map Uart_isr xs) s = Some (s\<lparr>bm_ring := r\<rparr>) \<and> ring_ok r
     \<and> ring_octets r = take 127 (ring_octets (bm_ring s) @ xs)"
proof (induction xs arbitrary: s)
  case Nil
  then show ?case by (intro exI [of _ "bm_ring s"]) simp
next
  case (Cons b xs)
  obtain r where r: "uart_rx_isr b (bm_ring s) = Some r" "ring_ok r"
      "ring_octets r = (if length (ring_octets (bm_ring s)) < 127 then ring_octets (bm_ring s) @ [b]
         else ring_octets (bm_ring s))"
    using ring.put_law [OF Cons.prems(1), of b] by blast
  then have len: "length (ring_octets r) \<le> 127"
      "take 127 (ring_octets r @ xs) = take 127 (ring_octets (bm_ring s) @ b # xs)"
    using Cons.prems(2) by (auto simp: take_Cons')
  obtain r' where "bm_interrupts (map Uart_isr xs) (s\<lparr>bm_ring := r\<rparr>) = Some (s\<lparr>bm_ring := r'\<rparr>)" "ring_ok r'"
      "ring_octets r' = take 127 (ring_octets r @ xs)"
    using Cons.IH [of "s\<lparr>bm_ring := r\<rparr>"] r(2) len(1) by auto
  with r(1) len(2) show ?case by (intro exI [of _ r']) simp
qed

text \<open>Octets that complete no frame leave only the receiver and the ring changed.\<close>

lemma quiet_octet:
  assumes "live c" "frames_in c (view c) (b # xs) = 0"
  shows "\<exists>d. atc_hdlc_data_in c (Some [b]) 1 = Some d \<and> live d \<and> rx_frame c d \<and> frames_in d (view d) xs = 0"
proof -
  have c: "rx_inv c" "\<not> pending c" using assms(1) by (simp_all add: live_def settled_def)
  obtain v where v: "deframe c (view c) b = (v, None)" "frames_in c v xs = 0"
    using assms(2) by (cases "deframe c (view c) b") (auto split: if_splits)
  obtain d where d: "rx_byte c b = Some d" "rx_to c v d" "rx_env c d"
    using runs_conj [OF rx_byte_stores [OF c(1) v(1)] rx_byte_env [OF c(1)]] by (auto simp: runs_iff)
  then have f: "rx_frame c d" "view d = v" "frames_in d (view d) xs = 0"
    using v(2) frames_in_env [OF d(3)] by (simp_all add: rx_to_def)
  then have "\<not> pending d" using c(2) rx_frame_fields(6) [OF f(1)] by (simp add: CTX_FLAG_def)
  then have "atc_hdlc_data_in c (Some [b]) 1 = Some d"
    using d(1) by (simp add: data_in_run)
  moreover have "live d" using single_octet_live [OF assms(1), of b] calculation by simp
  ultimately show ?thesis using f by blast
qed

lemma quiet_drain:
  "bm_ok s \<Longrightarrow> frames_in (bm_ctx s) (view (bm_ctx s)) (ring_octets (bm_ring s)) = 0 \<Longrightarrow>
   length (ring_octets (bm_ring s)) < n \<Longrightarrow>
   \<exists>c r. rx_drain n [] s = Some (s\<lparr>bm_ctx := c, bm_ring := r\<rparr>) \<and> live c \<and> rx_frame (bm_ctx s) c"
proof (induction n arbitrary: s)
  case (Suc n)
  have ok: "ring_ok (bm_ring s)" "live (bm_ctx s)" using Suc.prems(1) by (simp_all add: bm_ok_def)
  show ?case
  proof (cases "ring_octets (bm_ring s)")
    case Nil
    then have "rx_drain (Suc n) [] s = Some (s\<lparr>bm_ctx := bm_ctx s, bm_ring := bm_ring s\<rparr>)"
      using ok rx_drain_rounds [of "[]" s s n] by (simp del: rx_drain.simps)
    then show ?thesis using ok
      by (intro exI [of _ "bm_ctx s"] exI [of _ "bm_ring s"]) (simp add: rx_frame_def del: rx_drain.simps)
  next
    case (Cons b bs)
    then obtain r where r: "ring_take (bm_ring s) = Some (Some (b, r))" "ring_ok r" "ring_octets r = bs"
      using ring.take_law [OF ok(1)] by blast
    obtain d where d: "atc_hdlc_data_in (bm_ctx s) (Some [b]) 1 = Some d" "live d" "rx_frame (bm_ctx s) d"
        "frames_in d (view d) bs = 0"
      using quiet_octet [OF ok(2), of b bs] Suc.prems(2) Cons by auto
    let ?s = "s\<lparr>bm_ring := r, bm_ctx := d\<rparr>"
    have "bm_run (\<lambda>c. atc_hdlc_data_in c (Some [b]) 1) (s\<lparr>bm_ring := r\<rparr>) = Some ?s"
      using d(1) rx_frame_fields(8) [OF d(3)] by (simp add: bm_run_def)
    then have round: "rx_drain (Suc n) [] s = rx_drain n [] ?s" using r(1) by simp
    have "bm_ok ?s" using d(2) r(2) by (simp add: bm_ok_def)
    from Suc.IH [OF this] obtain c r' where "rx_drain n [] ?s = Some (?s\<lparr>bm_ctx := c, bm_ring := r'\<rparr>)"
        "live c" "rx_frame d c"
      using d(4) r(3) Cons Suc.prems(3) by auto
    with round d(3) rx_frame_trans show ?thesis by fastforce
  qed
qed simp

lemma set_up_text:
  "concat (map bm_prints (frame_calls atc_hdlc_crc_ops_default 0x02 0x3F [])) = ''7E 02 3F 7C 0A 7E '' @ newline"
  "concat (map bm_prints (frame_calls atc_hdlc_crc_ops_default 0x02 0x01 [])) = ''7E 02 01 81 D2 7E '' @ newline"
  by code_simp+

text \<open>The two timers of a station that is connecting.\<close>

lemma t1_connecting:
  assumes "core c" "current_state c = ATC_HDLC_STATE_CONNECTING" "config c = Some bm_cfg" "n2 c = 0" "plat c = bm_platform"
  shows "runs (atc_hdlc_t1_expired c) (\<lambda>d. core d \<and> current_state d = ATC_HDLC_STATE_CONNECTING \<and> n2 d = 1
     \<and> trace d = trace c @ frame_calls (drv c) (peer_address c) 0x3F [] @ [T1_start 500]
     \<and> drv d = drv c \<and> peer_address d = peer_address c \<and> vr d = vr c
     \<and> CTX_FLAG d HDLC_F_LOCAL_BUSY = CTX_FLAG c HDLC_F_LOCAL_BUSY)"
  using assms
  by (simp add: atc_hdlc_t1_expired_def Let_def hdlc_run bm_cfg_def t1_start_calls_def bm_platform_def U_CTRL_def
      U_SABM_def PF_BIT_def)

lemma t2_ready:
  assumes "core c" "\<not> CTX_FLAG c HDLC_F_LOCAL_BUSY" "vr c = 0"
  shows "runs (atc_hdlc_t2_expired c) (\<lambda>d. current_state d = current_state c \<and> n2 d = n2 c
     \<and> trace d = trace c @ frame_calls (drv c) (peer_address c) 0x01 [])"
  using assms by (simp add: atc_hdlc_t2_expired_def Let_def hdlc_run S_CTRL_def S_RR_def)

lemma bm_opening_flags: "\<not> CTX_FLAG bm_opening HDLC_F_LOCAL_BUSY" "vr bm_opening = 0"
proof -
  have "flags bm_ctx0 = 0" "vr bm_ctx0 = 0"
    by (simp_all add: bm_ctx0_def atc_hdlc_init_def bm_storage_defs is_null_def txwin_error_def Let_def
        hdlc_len_defs zero_ctx_def)
  then have "\<not> CTX_FLAG bm_ctx0 HDLC_F_LOCAL_BUSY" "vr bm_ctx0 = 0" by (simp_all add: CTX_FLAG_def)
  then show "\<not> CTX_FLAG bm_opening HDLC_F_LOCAL_BUSY" "vr bm_opening = 0" by (simp_all add: bm_opening_is)
qed

lemma sends_quiet: "fold bm_callback (frame_calls d a ctrl info) s = s"
proof -
  have "fold bm_callback (map (\<lambda>b. On_send b g) xs) s = s" for xs g by (induction xs) simp_all
  then show ?thesis by (simp add: frame_calls_def)
qed

lemma bm_opening_text: "concat (map bm_prints (trace bm_opening)) = ''7E 02 3F 7C 0A 7E '' @ newline"
proof -
  have "trace bm_ctx0 = []" "config bm_ctx0 = Some bm_cfg"
    by (simp_all add: bm_ctx0_def atc_hdlc_init_def bm_storage_defs is_null_def txwin_error_def Let_def
        hdlc_len_defs zero_ctx_def static_ctx_def)
  moreover have "U_CTRL U_SABM 1 = 0x3F" by (simp add: U_CTRL_def U_SABM_def PF_BIT_def)
  ultimately show ?thesis
    by (simp add: bm_opening_is bm_rx t1_start_calls_def event_calls_def bm_cfg_def bm_platform_def bm_on_event_def
        set_up_text)
qed

text \<open>The octets of \<open>fake_rx\<close> are no DM frame but a UI frame, and their FCS field \<open>0xB98B\<close> is wrong.\<close>

lemma fake_rx_invalid:
  "driver_fcs atc_hdlc_crc_ops_default [0x01, 0x03] \<noteq> 0xB98B" "U_CTRL U_UI 0 = 0x03" "U_CTRL U_DM 0 = 0x0F"
  by code_simp+

text \<open>C35 The template run on a PC, where no interrupt comes during the loop, for any number of loop
  iterations and any octets put into the ring afterwards, as long as those the ring has room for
  complete no frame: it prints the set-up request, nothing for the octets, the request again on the
  expiry of T1, and an RR frame on the expiry of T2 although there is no link. The station is still
  connecting at the end. The program's own array \<open>fake_rx\<close>, called a DM there, is of that kind: its
  FCS is wrong (and its control octet that of a UI frame), so the link is not refused.\<close>

theorem bm_main_prints:
  assumes "frames_in bm_opening Hunt (take 127 rx) = 0"
  shows "map_option (\<lambda>s. (current_state (bm_ctx s), n2 (bm_ctx s), bm_console s)) (bm_program k rx)
    = Some (ATC_HDLC_STATE_CONNECTING, 1,
        ''7E 02 3F 7C 0A 7E '' @ newline @ ''7E 02 3F 7C 0A 7E '' @ newline @ ''7E 02 01 81 D2 7E '' @ newline)"
proof -
  let ?s0 = "\<lparr>bm_ctx = bm_opening, bm_ring = rx_ring0, t1_expired_flag = False, t2_expired_flag = False\<rparr>"
  have "bm_idle ?s0" by (simp add: bm_idle_def ring0 bm_opening_run)
  then have loop: "bm_program k rx = bm_finish rx ?s0"
    by (simp add: bm_program_def bm_start_run idle_iterations)
  obtain r where r: "bm_interrupts (map Uart_isr rx) ?s0 = Some (?s0\<lparr>bm_ring := r\<rparr>)" "ring_ok r"
      "ring_octets r = take 127 rx"
    using uart_burst [of ?s0 rx] ring0 by auto
  have ok: "bm_ok (?s0\<lparr>bm_ring := r\<rparr>)"
    using r(2) reachable_live [OF bm_opening_run(9)] by (simp add: bm_ok_def)
  have "view bm_opening = Hunt" by (simp add: bm_opening_is view_def bm_rx)
  then have "\<exists>c r'. rx_drain 128 [] (?s0\<lparr>bm_ring := r\<rparr>) = Some (?s0\<lparr>bm_ring := r\<rparr>\<lparr>bm_ctx := c, bm_ring := r'\<rparr>)
      \<and> live c \<and> rx_frame (bm_ctx (?s0\<lparr>bm_ring := r\<rparr>)) c"
    using assms r(3) by (intro quiet_drain [OF ok]) simp_all
  then obtain c r' where c: "rx_drain 128 [] (?s0\<lparr>bm_ring := r\<rparr>) = Some (?s0\<lparr>bm_ctx := c, bm_ring := r'\<rparr>)"
      "live c" "rx_frame bm_opening c"
    by auto
  have h: "current_state c = ATC_HDLC_STATE_CONNECTING" "config c = Some bm_cfg" "n2 c = 0" "plat c = bm_platform"
      "drv c = atc_hdlc_crc_ops_default" "peer_address c = 0x02" "\<not> CTX_FLAG c HDLC_F_LOCAL_BUSY" "vr c = 0"
      "trace c = trace bm_opening"
  proof -
    note f = rx_frame_fields [OF c(3)]
    have "drv c = drv bm_opening" "plat c = plat bm_opening" "CTX_FLAG c x = CTX_FLAG bm_opening x" for x
      unfolding drv_def plat_def CTX_FLAG_def f by simp_all
    then show "current_state c = ATC_HDLC_STATE_CONNECTING" "config c = Some bm_cfg" "n2 c = 0" "plat c = bm_platform"
      "drv c = atc_hdlc_crc_ops_default" "peer_address c = 0x02" "\<not> CTX_FLAG c HDLC_F_LOCAL_BUSY" "vr c = 0"
      "trace c = trace bm_opening"
      unfolding f by (simp_all add: bm_opening_run bm_opening_flags)
  qed
  have core: "core c" using c(2) by (simp add: live_def settled_def)
  obtain d where d: "atc_hdlc_t1_expired c = Some d" "core d" "current_state d = ATC_HDLC_STATE_CONNECTING" "n2 d = 1"
      "trace d = trace c @ frame_calls atc_hdlc_crc_ops_default 0x02 0x3F [] @ [T1_start 500]"
      "drv d = atc_hdlc_crc_ops_default" "peer_address d = 0x02" "\<not> CTX_FLAG d HDLC_F_LOCAL_BUSY" "vr d = 0"
    using runs_Some_exists [OF t1_connecting [OF core h(1-4)]] h(5-8) by auto
  obtain e where e: "atc_hdlc_t2_expired d = Some e" "current_state e = ATC_HDLC_STATE_CONNECTING" "n2 e = 1"
      "trace e = trace d @ frame_calls atc_hdlc_crc_ops_default 0x02 0x01 []"
    using runs_Some_exists [OF t2_ready [OF d(2,8,9)]] d(3-7) by auto
  have "bm_timers \<lparr>bm_ctx = c, bm_ring = r', t1_expired_flag = True, t2_expired_flag = True\<rparr>
      = Some \<lparr>bm_ctx = e, bm_ring = r', t1_expired_flag = False, t2_expired_flag = False\<rparr>"
    using d(1,5) e(1,4) by (simp add: bm_timers_def bm_t1_check_def bm_t2_check_def bm_run_def sends_quiet)
  then have "bm_finish rx ?s0 = Some \<lparr>bm_ctx = e, bm_ring = r', t1_expired_flag = False, t2_expired_flag = False\<rparr>"
    using r(1) c(1) by (simp add: bm_finish_def del: rx_drain.simps)
  moreover have "concat (map bm_prints (trace e)) = ''7E 02 3F 7C 0A 7E '' @ newline @ ''7E 02 3F 7C 0A 7E '' @ newline @ ''7E 02 01 81 D2 7E '' @ newline"
    using d(5) e(4) h(9) by (simp add: bm_opening_text set_up_text)
  ultimately show ?thesis using loop e by (simp add: bm_console_def)
qed

lemma bm_main_prints_witness:
  "map_option (\<lambda>s. (current_state (bm_ctx s), n2 (bm_ctx s), bm_console s)) bm_main
    = Some (ATC_HDLC_STATE_CONNECTING, 1,
        ''7E 02 3F 7C 0A 7E '' @ newline @ ''7E 02 3F 7C 0A 7E '' @ newline @ ''7E 02 01 81 D2 7E '' @ newline)"
  unfolding bm_main_def
proof (rule bm_main_prints)
  have "our_address bm_opening 0x01" by (simp add: our_address_def bm_opening_run)
  moreover have "\<not> good_fcs atc_hdlc_crc_ops_default [0x01, 0x03, 0x8B, 0xB9]"
    by (simp add: good_fcs_def held_fcs_def fcs_eval)
  ultimately show "frames_in bm_opening Hunt (take 127 fake_rx) = 0"
    by (simp add: fake_rx_def FLAG_def ESC_def gather_def bm_opening_run)
qed

end
