(* ===== verification/Spec2Isabelle.thy ===== *)
theory Spec2Isabelle
  imports Hdlc_Recovery Hdlc_Stale Loopback Minimal_Ui Bare_Metal_Pc
begin

text \<open>
  Verification of \<open>atc_hdlc\<close>, a C library for HDLC in asynchronous balanced mode, and of its three
  example programs.

  \<^bold>\<open>The program.\<close> A station is a context \<open>atc_hdlc_ctx_t\<close>. Received octets enter by
  \<open>atc_hdlc_data_in\<close> (\<open>hdlc_in.c\<close>), which unstuffs them, checks the FCS (\<open>hdlc_crc.c\<close>) and hands
  each frame to \<open>dispatch_frame\<close> (\<open>hdlc_dispatch.c\<close>), one handler per link state. Frames leave octet by
  octet through the \<open>on_send\<close> callback (\<open>hdlc_frame.h\<close>), sent by the dispatcher, by the transmit
  functions (\<open>hdlc_out.c\<close>), or by link management and the timer entry points (\<open>hdlc_station.c\<close>).
  Unacknowledged I-frames are kept in a ring of slots of the caller's memory.

  \<^bold>\<open>How it is modelled.\<close> Functions keep their names. The context is a record, its flag bits
  an octet as in the code. A function returns an option: \<^const>\<open>None\<close> stands for undefined behaviour
  (a null pointer or an index outside an object, a division by zero), so every memory access of the code
  is a test of the model. Integers are words of 8, 16 and 32 bits, which is their width wherever
  \<open>uint_least8_t\<close>, \<open>uint_least16_t\<close> and \<open>uint_least32_t\<close> have no more bits than they must; arithmetic
  the code does in \<open>int\<close> is done on \<open>int\<close> and cut back where the code does so. A pointer into
  memory is the list from there on, or \<^const>\<open>None\<close> for null. Callbacks are recorded in the
  context's \<open>trace\<close>, in order; the library ignores what \<open>on_send\<close> returns. Callbacks do not change
  the context; the one program whose callback calls back in is treated by itself (\<open>Minimal_Ui\<close>).
  The CRC driver is a parameter with the contract \<open>crc_driver\<close>; the default driver satisfies it.

  \<^bold>\<open>The theories.\<close>
  \<^item> \<open>Hdlc_Prelude\<close>: pointers, C division, arithmetic modulo 8, and the calculus \<open>runs\<close> of results.
  \<^item> \<open>Hdlc_Types\<close>: \<open>hdlc_types.h\<close>. \<open>Hdlc_Crc\<close>: \<open>hdlc_crc.c\<close>, the bitwise CRC it equals, and the
    driver contracts. \<open>Hdlc_Private\<close>: timers, \<open>set_state\<close>, \<open>reset_state\<close>.
  \<^item> \<open>Hdlc_Frame\<close>, \<open>Hdlc_Dispatch\<close>, \<open>Hdlc_In\<close>, \<open>Hdlc_Out\<close>, \<open>Hdlc_Station\<close>: the source files
    of these names. \<open>Hdlc_Api\<close>: the public functions as one type of calls on a context, all entry points
    with initialisation, the state query and their checks for a \<open>NULL\<close> context (\<open>hdlc_api\<close>), what makes a call
    legal, and the stations reachable from \<open>atc_hdlc_init\<close>.
  \<^item> \<open>Hdlc_Safety\<close>, \<open>Hdlc_Rx_Safety\<close>, \<open>Hdlc_Tx_Safety\<close>: the station invariant \<open>core\<close> (sequence
    numbers, window and buffers within bounds) and its preservation by every operation. The lemmas
    ending in \<open>_run\<close> give each operation's result without its memory accesses.
  \<^item> \<open>Hdlc_Deframer\<close>: a reference deframer that the receiver refines. \<open>Hdlc_Line\<close>: properties of the
    line. \<open>Hdlc_Link\<close>, \<open>Hdlc_Protocol\<close>: the transition function of the link, supervision by T1, the
    frame handlers and retries. \<open>Hdlc_Service\<close>: what the entry points promise, and where they do not
    keep it. \<open>Hdlc_Window\<close>: the slots as a queue of payloads; Go-Back-N. \<open>Hdlc_Stale\<close>: the stale request to
    retransmit that one chunk with two frames can leave. \<open>Hdlc_Pair\<close>: two stations
    joined by a line that loses nothing. \<open>Hdlc_Arrival\<close>: one step of a station at rest as its peer sees it (a frame
    arrives, a timer runs out). \<open>Hdlc_Lossy\<close>: a step relation of two stations whose line may lose any frame, and
    its invariant, over sequence numbers that do not wrap around; both send, and what holds of one end is
    proved once and read from the other end through \<open>mirror\<close>. \<open>Hdlc_Recovery\<close>: safety and recovery of
    such runs.
  \<^item> \<open>Bare_Metal\<close>, \<open>Bare_Metal_Pc\<close>, \<open>Loopback\<close>, \<open>Minimal_Ui\<close>: the example programs. Each main program
    is an instance of one with its data as parameters: \<open>bm_program\<close> takes the number of loop rounds and the
    simulated input, \<open>loop_program\<close> the messages, \<open>ui_program\<close> the broadcasts. The theorems are about any such
    data, their witnesses about the data of the code.

  \<^bold>\<open>Interfaces.\<close> \<open>crc_driver\<close> and \<open>crc_detecting\<close> (interpreted on the default driver),
  \<open>octet_queue\<close> (on the receive ring of the template), \<open>payload_queue\<close> (on the transmit window).

  \<^bold>\<open>Bounds.\<close> The retransmission loop has fuel 8: each round adds one to V(S) modulo 8, so seven
  rounds reach any other number. \<open>rx_drain\<close> of the template takes the interrupts that come between its
  rounds as an argument and has fuel 128 plus the octets these put into the ring, which holds at most 127
  before (\<open>rx_drain_fuel\<close>). Running out is \<^const>\<open>None\<close>, and the safety theorems show that it does not
  happen; if an octet arrives before every test the loop has no bound, and \<open>rx_drain_empties\<close> says so.
  All other loops are structural.

  \<^bold>\<open>What the theorems assume of a caller.\<close> Payload and input ranges are readable; a payload of
  \<open>atc_hdlc_transmit_i\<close> with a length is not null; and for windows of 2 to 6 slots a chunk of input
  completes at most one frame. The last two are needed: \<open>transmit_i_null_undefined\<close> and
  \<open>stale_retransmission\<close> show what happens otherwise. Input octet by octet, as in the template, always
  satisfies the last one.

  \<^bold>\<open>Not modelled.\<close> \<open>hdlc_config.h\<close> and the logging macros of \<open>hdlc_private.h\<close>: default
  constants that only the tests use, and output compiled out by default. The tests and their helpers, which need
  threads, pipes and serial ports. Between two stations frames are lost or arrive whole and in order: a frame
  corrupted in a way the FCS detects is dropped by its receiver (\<open>bad_frame_dropped\<close>), so it counts as lost, but
  duplicated and reordered frames are covered for the single station only (any input whatever). Nor is the pair
  followed through a new connection after one of them has given up.
\<close>

end
